(* ===== verification/Prelude.thy ===== *)
theory Prelude
  imports Main "HOL-Library.Word" "HOL-Library.Signed_Division"
begin

text \<open>
  Shared vocabulary of the development: what a Go operation may do besides returning
  (\<open>outcome\<close>), the error values of \<^verbatim>\<open>core/error.go\<close>, 64-bit integers, number
  formatting, nested Go maps, and the generic lemmas the component theories use.

  \<^item> Go's \<^verbatim>\<open>int\<close> and \<^verbatim>\<open>int64\<close> are \<open>int\<close>; every addition the program performs on
    them is written with \<open>i64\<close>, the reduction to 64-bit two's complement.
  \<^item> \<^verbatim>\<open>[]byte\<close> is \<open>bytes\<close>, a list of 8-bit words; \<^verbatim>\<open>string\<close> is \<open>string\<close>.
  \<^item> a run-time panic is the value \<open>Panic\<close> of type \<open>outcome\<close>; an \<^verbatim>\<open>error\<close> result is a
    value of \<open>go_error option\<close> (beside a state) or \<open>go_error + 'a\<close>.
\<close>

named_theorems go_simps \<open>evaluation of the Go run-time operations\<close>
named_theorems frame \<open>what an operation leaves unchanged\<close>

section \<open>Types\<close>

type_synonym byte = "8 word"
type_synonym bytes = "byte list"
type_synonym NodeID = int

abbreviation (input) NONE :: NodeID where "NONE \<equiv> - 1"

datatype 'a outcome = Ret 'a | Panic string

primrec bind_outcome :: "'a outcome \<Rightarrow> ('a \<Rightarrow> 'b outcome) \<Rightarrow> 'b outcome" where
  "bind_outcome (Ret x) f = f x"
| "bind_outcome (Panic e) f = Panic e"

lemma bind_outcome_Ret_right [simp]: "bind_outcome m Ret = m"
  by (cases m) simp_all

lemma bind_outcome_Ret_iff [simp]:
  "bind_outcome m f = Ret y \<longleftrightarrow> (\<exists>x. m = Ret x \<and> f x = Ret y)"
  by (cases m) auto

lemma bind_outcome_Panic_iff [simp]:
  "bind_outcome m f = Panic e \<longleftrightarrow> m = Panic e \<or> (\<exists>x. m = Ret x \<and> f x = Panic e)"
  by (cases m) auto

text \<open>A loop over a slice or a channel whose body may panic.\<close>

primrec foldo :: "('s \<Rightarrow> 'x \<Rightarrow> 's outcome) \<Rightarrow> 's \<Rightarrow> 'x list \<Rightarrow> 's outcome" where
  "foldo f s [] = Ret s"
| "foldo f s (x # xs) = bind_outcome (f s x) (\<lambda>s'. foldo f s' xs)"

lemma foldo_append [simp]:
  "foldo f s (xs @ ys) = bind_outcome (foldo f s xs) (\<lambda>s'. foldo f s' ys)"
  by (induction xs arbitrary: s) (auto, metis bind_outcome.simps outcome.exhaust)

text \<open>An object fed with a list of inputs: its last state and all its answers.\<close>

fun runs :: "('a \<Rightarrow> 'v \<Rightarrow> 'a \<times> 'r) \<Rightarrow> 'a \<Rightarrow> 'v list \<Rightarrow> 'a \<times> 'r list" where
  "runs f a [] = (a, [])"
| "runs f a (v # vs) = (let (a', r) = f a v; (a'', rs) = runs f a' vs in (a'', r # rs))"

lemma fst_runs_Cons: "fst (runs f a (v # vs)) = fst (runs f (fst (f a v)) vs)"
  by (simp add: split_beta)

lemma snd_runs_Cons: "snd (runs f a (v # vs)) = snd (f a v) # snd (runs f (fst (f a v)) vs)"
  by (simp add: split_beta)

lemmas runs_Cons [simp] = fst_runs_Cons snd_runs_Cons

declare runs.simps(2) [simp del]

lemma runs_append:
  "fst (runs f a (vs @ ws)) = fst (runs f (fst (runs f a vs)) ws)"
  "snd (runs f a (vs @ ws)) = snd (runs f a vs) @ snd (runs f (fst (runs f a vs)) ws)"
  by (induction vs arbitrary: a) auto

text \<open>The inputs that are the first of their key, in order.\<close>

fun firsts :: "('v \<Rightarrow> 'k) \<Rightarrow> 'k set \<Rightarrow> 'v list \<Rightarrow> 'v list" where
  "firsts k seen [] = []"
| "firsts k seen (v # vs) =
     (if k v \<in> seen then firsts k seen vs else v # firsts k (insert (k v) seen) vs)"

lemma set_firsts: "set (firsts k seen vs) \<subseteq> set vs"
  by (induction k seen vs rule: firsts.induct) auto

lemma keys_firsts: "k ` set (firsts k seen vs) = k ` set vs - seen"
  by (induction k seen vs rule: firsts.induct) auto

lemma distinct_firsts: "distinct (map k (firsts k seen vs))"
proof (induction k seen vs rule: firsts.induct)
  case (2 k seen v vs)
  moreover have "k v \<notin> k ` set (firsts k (insert (k v) seen) vs)"
    by (simp add: keys_firsts)
  ultimately show ?case by auto
qed simp

lemma length_firsts: "length (firsts k {} vs) = card (k ` set vs)"
  using distinct_card [OF distinct_firsts [of k "{}" vs]] keys_firsts [of k "{}" vs] by simp

section \<open>64-bit integers\<close>

definition i64 :: "int \<Rightarrow> int" where
  "i64 x = (x + 2 ^ 63) mod 2 ^ 64 - 2 ^ 63"

lemma i64_id: "- (2 ^ 63) \<le> x \<Longrightarrow> x < 2 ^ 63 \<Longrightarrow> i64 x = x"
  by (simp add: i64_def)

lemma i64_range: "- (2 ^ 63) \<le> i64 x \<and> i64 x < 2 ^ 63"
  by (simp add: i64_def)

lemma i64_idem [simp]: "i64 (i64 x) = i64 x"
  using i64_range [of x] by (intro i64_id) auto

lemma i64_add_left [simp]: "i64 (i64 x + y) = i64 (x + y)"
  by (simp add: i64_def mod_simps algebra_simps)

lemma i64_max_wraps: "i64 (9223372036854775807 + 1) = - 9223372036854775808"
  by (simp add: i64_def)

text \<open>Go's \<^verbatim>\<open>%\<close> on non-negative operands is the usual remainder.\<close>

lemma smod_nonneg: "0 \<le> a \<Longrightarrow> 0 < b \<Longrightarrow> (a :: int) smod b = a mod b"
  by (simp add: signed_modulo_int_def signed_divide_int_def sgn_if minus_div_mult_eq_mod)

section \<open>Number formatting\<close>

text \<open>The digits of a number, most significant first (\<^verbatim>\<open>strconv\<close> and \<^verbatim>\<open>fmt\<close>).\<close>

function digits :: "nat \<Rightarrow> nat \<Rightarrow> nat list" where
  "digits b n = (if b < 2 \<or> n < b then [n] else digits b (n div b) @ [n mod b])"
  by pat_completeness auto
termination
  by (relation "measure (\<lambda>(b, n). n)") auto

declare digits.simps [simp del]

definition undigits :: "nat \<Rightarrow> nat list \<Rightarrow> nat" where
  "undigits b ds = foldl (\<lambda>a d. a * b + d) 0 ds"

lemma undigits_snoc [simp]: "undigits b (ds @ [d]) = undigits b ds * b + d"
  by (simp add: undigits_def)

lemma undigits_digits: "2 \<le> b \<Longrightarrow> undigits b (digits b n) = n"
proof (induction b n rule: digits.induct)
  case (1 b n)
  show ?case
  proof (cases "n < b")
    case True
    then show ?thesis by (subst digits.simps) (simp add: undigits_def)
  next
    case False
    with 1 have "undigits b (digits b (n div b)) = n div b" by simp
    with False \<open>2 \<le> b\<close> show ?thesis by (subst digits.simps) simp
  qed
qed

lemma digits_less: "2 \<le> b \<Longrightarrow> d \<in> set (digits b n) \<Longrightarrow> d < b"
proof (induction b n rule: digits.induct)
  case (1 b n)
  show ?case
  proof (cases "n < b")
    case True
    with 1 show ?thesis by (subst (asm) digits.simps) auto
  next
    case False
    with 1 have "d \<in> set (digits b (n div b)) \<or> d = n mod b"
      by (subst (asm) digits.simps) auto
    with 1 False show ?thesis by auto
  qed
qed

lemma digits_not_Nil [simp]: "digits b n \<noteq> []"
  by (subst digits.simps) simp

lemma digits_inj: "2 \<le> b \<Longrightarrow> digits b m = digits b n \<longleftrightarrow> m = n"
  by (metis undigits_digits)

definition digit_char :: "nat \<Rightarrow> char" where
  "digit_char d = char_of (48 + d)"

definition Itoa :: "int \<Rightarrow> string" where
  "Itoa i = (if i < 0 then [char_of (45::nat)] else []) @ map digit_char (digits 10 (nat \<bar>i\<bar>))"

section \<open>Errors\<close>

text \<open>
  The error values of \<^verbatim>\<open>core/error.go\<close> and \<^verbatim>\<open>store.ErrNotFoundKey\<close>. \<open>ErrExternal\<close> stands
  for an error made by a package outside the repository.
\<close>

datatype go_error =
    ErrSignature int
  | ErrReference int int int
  | ErrOneMoreMessage int int int NodeID
  | ErrFullMemory NodeID
  | ErrStoreNotExist
  | ErrNotFoundKey
  | ErrExternal string

text \<open>The message texts, the arguments in the order the source passes them.\<close>

fun error_text :: "go_error \<Rightarrow> string" where
  "error_text (ErrSignature msgTyp) =
     ''[type-'' @ Itoa msgTyp @ ''] message signature verify error''"
| "error_text (ErrReference msgTyp round node) =
     ''[type-'' @ Itoa msgTyp @ ''-round-'' @ Itoa round @ ''-node-'' @ Itoa node
       @ ''] not receive all block reference ''"
| "error_text (ErrOneMoreMessage msgTyp epoch round author) =
     ''[type-'' @ Itoa msgTyp @ ''-epoch-'' @ Itoa round @ ''-round-'' @ Itoa epoch
       @ ''] receive one more message from '' @ Itoa author @ '' ''"
| "error_text (ErrFullMemory author) = ''author '' @ Itoa author @ '' Mempool memory is full''"
| "error_text ErrStoreNotExist = ''storeNotExist''"
| "error_text ErrNotFoundKey = ''not found key''"
| "error_text (ErrExternal s) = s"

section \<open>Nested Go maps\<close>

text \<open>
  \<^verbatim>\<open>map[K1]map[K2]V\<close>: \<open>get2\<close> reads through both levels, \<open>put2\<close> is the source's idiom
  "fetch the inner map, make and insert it when absent, then assign", and \<open>init2\<close> only
  makes the inner map. Likewise with three levels.
\<close>

definition inner :: "('a \<rightharpoonup> ('b \<rightharpoonup> 'c)) \<Rightarrow> 'a \<Rightarrow> 'b \<rightharpoonup> 'c" where
  "inner m a = (case m a of None \<Rightarrow> Map.empty | Some i \<Rightarrow> i)"

definition get2 :: "('a \<rightharpoonup> ('b \<rightharpoonup> 'c)) \<Rightarrow> 'a \<Rightarrow> 'b \<Rightarrow> 'c option" where
  "get2 m a b = inner m a b"

definition put2 :: "('a \<rightharpoonup> ('b \<rightharpoonup> 'c)) \<Rightarrow> 'a \<Rightarrow> 'b \<Rightarrow> 'c \<Rightarrow> 'a \<rightharpoonup> ('b \<rightharpoonup> 'c)" where
  "put2 m a b v = m(a \<mapsto> (inner m a)(b \<mapsto> v))"

definition init2 :: "('a \<rightharpoonup> ('b \<rightharpoonup> 'c)) \<Rightarrow> 'a \<Rightarrow> 'a \<rightharpoonup> ('b \<rightharpoonup> 'c)" where
  "init2 m a = m(a \<mapsto> inner m a)"

definition get3 :: "('a \<rightharpoonup> ('b \<rightharpoonup> ('c \<rightharpoonup> 'd))) \<Rightarrow> 'a \<Rightarrow> 'b \<Rightarrow> 'c \<Rightarrow> 'd option" where
  "get3 m a b c = get2 (inner m a) b c"

definition put3 ::
  "('a \<rightharpoonup> ('b \<rightharpoonup> ('c \<rightharpoonup> 'd))) \<Rightarrow> 'a \<Rightarrow> 'b \<Rightarrow> 'c \<Rightarrow> 'd \<Rightarrow> 'a \<rightharpoonup> ('b \<rightharpoonup> ('c \<rightharpoonup> 'd))" where
  "put3 m a b c v = m(a \<mapsto> put2 (inner m a) b c v)"

lemma inner_empty [simp]: "inner Map.empty a = Map.empty"
  by (simp add: inner_def)

lemma inner_upd [simp]: "inner (m(a \<mapsto> i)) a' = (if a' = a then i else inner m a')"
  by (simp add: inner_def)

lemma get2_empty [simp]: "get2 Map.empty a b = None"
  by (simp add: get2_def)

lemma get2_put2 [simp]:
  "get2 (put2 m a b v) a' b' = (if a' = a \<and> b' = b then Some v else get2 m a' b')"
  by (auto simp: get2_def put2_def)

lemma get2_init2 [simp]: "get2 (init2 m a) a' b' = get2 m a' b'"
  by (simp add: get2_def init2_def)

lemma get3_empty [simp]: "get3 Map.empty a b c = None"
  by (simp add: get3_def)

lemma get3_put3 [simp]:
  "get3 (put3 m a b c v) a' b' c' =
     (if a' = a \<and> b' = b \<and> c' = c then Some v else get3 m a' b' c')"
  by (auto simp: get3_def put3_def)

end
