(* ===== verification/Crypto.thy ===== *)
theory Crypto
  imports Prelude
begin

text \<open>
  Package \<^verbatim>\<open>crypto\<close> (\<^verbatim>\<open>crypto/crypto.go\<close>): digests, the hasher, signatures, the signing
  service and the hexadecimal form of keys.

  SHA-256, Ed25519 and the threshold BLS scheme of \<^verbatim>\<open>go.dedis.ch/kyber\<close> are the fields of
  \<open>crypto_env\<close>, a parameter of every definition that uses them; a kyber scalar or point is
  given by its binary form. What the code relies on is stated by \<open>ed25519_ok\<close>.
\<close>

unbundle bit_operations_syntax

section \<open>Parameters\<close>

record crypto_env =
  sha256 :: "bytes \<Rightarrow> bytes"
  ed_sign :: "bytes \<Rightarrow> bytes \<Rightarrow> bytes"
  ed_verify :: "bytes \<Rightarrow> bytes \<Rightarrow> bytes \<Rightarrow> bool"
  tbls_sign :: "bytes \<Rightarrow> bytes \<Rightarrow> go_error + bytes"
  tbls_recover :: "bytes \<Rightarrow> bytes \<Rightarrow> bytes list \<Rightarrow> int \<Rightarrow> int \<Rightarrow> go_error + bytes"

text \<open>A key pair: what is signed with the private key verifies under the public key.\<close>

definition ed25519_ok :: "('a crypto_env_scheme) \<Rightarrow> bytes \<Rightarrow> bytes \<Rightarrow> bool" where
  "ed25519_ok E pri pub \<longleftrightarrow>
     length pub = 32 \<and> (\<forall>m. ed_verify E pub m (ed_sign E pri m))"

section \<open>Digests and the hasher\<close>

type_synonym Digest = bytes

definition HashSize :: nat where "HashSize = 32"

text \<open>\<^verbatim>\<open>crypto.Digest{}\<close>, the zero value.\<close>

definition Digest0 :: Digest where "Digest0 = replicate HashSize 0"

record Hasher =
  data :: bytes

definition NewHasher :: Hasher where
  "NewHasher = \<lparr>data = []\<rparr>"

definition Hasher_Add :: "Hasher \<Rightarrow> bytes \<Rightarrow> Hasher" where
  "Hasher_Add h d = h\<lparr>data := data h @ d\<rparr>"

definition Hasher_Sum256 :: "('a crypto_env_scheme) \<Rightarrow> Hasher \<Rightarrow> bytes \<Rightarrow> Digest \<times> Hasher" where
  "Hasher_Sum256 E h d = (sha256 E (data h @ d), h\<lparr>data := []\<rparr>)"

text \<open>A fresh hasher, one \<^verbatim>\<open>Add\<close> per part, then \<^verbatim>\<open>Sum256(nil)\<close>: the shape of every \<^verbatim>\<open>Hash\<close> method.\<close>

definition hash_parts :: "('a crypto_env_scheme) \<Rightarrow> bytes list \<Rightarrow> Digest" where
  "hash_parts E ps = fst (Hasher_Sum256 E (foldl Hasher_Add NewHasher ps) [])"

lemma foldl_Hasher_Add: "data (foldl Hasher_Add h ps) = data h @ concat ps"
  by (induction ps arbitrary: h) (auto simp: Hasher_Add_def)

lemma hash_parts_concat: "hash_parts E ps = sha256 E (concat ps)"
  by (simp add: hash_parts_def Hasher_Sum256_def foldl_Hasher_Add NewHasher_def)

text \<open>\<^verbatim>\<open>strconv.AppendInt(nil, i, 2)\<close>.\<close>

definition AppendInt :: "int \<Rightarrow> bytes" where
  "AppendInt i = (if i < 0 then [45] else []) @ map (\<lambda>d. 48 + of_nat d) (digits 2 (nat \<bar>i\<bar>))"

lemma digits2_bits: "d \<in> set (digits 2 n) \<Longrightarrow> d = 0 \<or> d = 1"
  using digits_less [of 2 d n] by auto

lemma AppendInt_bytes: "c \<in> set (AppendInt i) \<Longrightarrow> c = 45 \<or> c = 48 \<or> c = 49"
  by (auto simp: AppendInt_def dest!: digits2_bits split: if_splits)

lemma map_bit_inj:
  "set xs \<subseteq> {0, 1} \<Longrightarrow> set ys \<subseteq> {0, 1} \<Longrightarrow>
   map (\<lambda>d. 48 + of_nat d :: byte) xs = map (\<lambda>d. 48 + of_nat d) ys \<Longrightarrow> xs = ys"
proof (induction xs arbitrary: ys)
  case Nil
  then show ?case by simp
next
  case (Cons x xs)
  then obtain y ys' where "ys = y # ys'" by (cases ys) auto
  with Cons show ?case by (auto split: if_splits)
qed

lemma AppendInt_inj: "AppendInt i = AppendInt j \<longleftrightarrow> i = j"
proof
  assume eq: "AppendInt i = AppendInt j"
  have hd48: "hd (map (\<lambda>d. 48 + of_nat d :: byte) (digits 2 n)) \<noteq> 45" for n
    using digits2_bits [of "hd (digits 2 n)" n] by (auto simp: hd_map)
  have neg: "i < 0 \<longleftrightarrow> j < 0"
    using arg_cong [OF eq, of hd] hd48 by (auto simp: AppendInt_def split: if_splits)
  have sub: "set (digits 2 n) \<subseteq> {0, 1}" for n
    using digits2_bits by auto
  from eq neg have "map (\<lambda>d. 48 + of_nat d :: byte) (digits 2 (nat \<bar>i\<bar>))
      = map (\<lambda>d. 48 + of_nat d) (digits 2 (nat \<bar>j\<bar>))"
    by (auto simp: AppendInt_def split: if_splits)
  from map_bit_inj [OF sub sub this] have "nat \<bar>i\<bar> = nat \<bar>j\<bar>"
    by (simp add: digits_inj)
  with neg show "i = j" by auto
qed simp

section \<open>Keys, signatures and the signing service\<close>

record PublickKey =
  Pubkey :: bytes

record PrivateKey =
  Prikey :: bytes

record SecretShareKey =
  PubPoly :: bytes
  PriShare :: bytes
  ShareN :: int
  ShareT :: int

record Signature =
  Sig :: bytes

record SignatureShare =
  PartialSig :: bytes

record SigService =
  PriKey :: PrivateKey
  ShareKey :: SecretShareKey

text \<open>\<^verbatim>\<open>ed25519.Verify\<close> panics on a public key that is not 32 bytes long.\<close>

definition Signature_Verify ::
  "('a crypto_env_scheme) \<Rightarrow> Signature \<Rightarrow> PublickKey \<Rightarrow> Digest \<Rightarrow> bool outcome" where
  "Signature_Verify E s pub digest =
     (if length (Pubkey pub) \<noteq> 32 then Panic ''ed25519: bad public key length''
      else Ret (ed_verify E (Pubkey pub) digest (Sig s)))"

definition SignatureShare_Verify :: "SignatureShare \<Rightarrow> Digest \<Rightarrow> bool" where
  "SignatureShare_Verify s digest = True"

definition CombineIntactTSPartial ::
  "('a crypto_env_scheme) \<Rightarrow> SignatureShare list \<Rightarrow> SecretShareKey \<Rightarrow> Digest \<Rightarrow> go_error + bytes" where
  "CombineIntactTSPartial E sigShares skey digest =
     tbls_recover E (PubPoly skey) digest (map PartialSig sigShares) (ShareT skey) (ShareN skey)"

text \<open>
  The service goroutine answers each request on the request's own channel; a call is
  therefore a function of the service's keys and the digest. \<^verbatim>\<open>RequestSignature\<close> always
  returns a nil error.
\<close>

definition RequestSignature :: "('a crypto_env_scheme) \<Rightarrow> SigService \<Rightarrow> Digest \<Rightarrow> go_error + Signature" where
  "RequestSignature E s digest = Inr \<lparr>Sig = ed_sign E (Prikey (PriKey s)) digest\<rparr>"

definition RequestTsSugnature ::
  "('a crypto_env_scheme) \<Rightarrow> SigService \<Rightarrow> Digest \<Rightarrow> go_error + SignatureShare" where
  "RequestTsSugnature E s digest =
     (case tbls_sign E (PriShare (ShareKey s)) digest of
        Inl e \<Rightarrow> Inl e
      | Inr p \<Rightarrow> Inr \<lparr>PartialSig = p\<rparr>)"

lemma RequestSignature_verifies:
  assumes "ed25519_ok E (Prikey (PriKey s)) (Pubkey pub)" and "RequestSignature E s d = Inr sig"
  shows "Signature_Verify E sig pub d = Ret True"
  using assms by (auto simp: ed25519_ok_def RequestSignature_def Signature_Verify_def)

section \<open>Hexadecimal keys\<close>

text \<open>\<^verbatim>\<open>encoding/hex\<close>: two lower-case digits per byte; decoding accepts both cases.\<close>

definition hexdigit :: "byte \<Rightarrow> byte" where
  "hexdigit v = (if v < 10 then 48 + v else 87 + v)"

definition unhexdigit :: "byte \<Rightarrow> byte option" where
  "unhexdigit c =
     (if 48 \<le> c \<and> c \<le> 57 then Some (c - 48)
      else if 97 \<le> c \<and> c \<le> 102 then Some (c - 87)
      else if 65 \<le> c \<and> c \<le> 70 then Some (c - 55)
      else None)"

fun hex_Encode :: "bytes \<Rightarrow> bytes" where
  "hex_Encode [] = []"
| "hex_Encode (v # vs) = hexdigit (drop_bit 4 v) # hexdigit (v AND 15) # hex_Encode vs"

definition InvalidByteError :: go_error where
  "InvalidByteError = ErrExternal ''encoding/hex: invalid byte''"

definition hex_ErrLength :: go_error where
  "hex_ErrLength = ErrExternal ''encoding/hex: odd length hex string''"

fun hex_Decode :: "bytes \<Rightarrow> go_error + bytes" where
  "hex_Decode [] = Inr []"
| "hex_Decode [p] =
     (case unhexdigit p of None \<Rightarrow> Inl InvalidByteError | Some _ \<Rightarrow> Inl hex_ErrLength)"
| "hex_Decode (p # q # src) =
     (case unhexdigit p of
        None \<Rightarrow> Inl InvalidByteError
      | Some a \<Rightarrow>
          (case unhexdigit q of
             None \<Rightarrow> Inl InvalidByteError
           | Some b \<Rightarrow>
               (case hex_Decode src of
                  Inl e \<Rightarrow> Inl e
                | Inr dst \<Rightarrow> Inr ((push_bit 4 a OR b) # dst))))"

definition EncodePublicKey :: "PublickKey \<Rightarrow> bytes" where
  "EncodePublicKey pub = hex_Encode (Pubkey pub)"

definition DecodePublicKey :: "bytes \<Rightarrow> go_error + PublickKey" where
  "DecodePublicKey d = (case hex_Decode d of Inl e \<Rightarrow> Inl e | Inr p \<Rightarrow> Inr \<lparr>Pubkey = p\<rparr>)"

definition EncodePrivateKey :: "PrivateKey \<Rightarrow> bytes" where
  "EncodePrivateKey pri = hex_Encode (Prikey pri)"

definition DecodePrivateKey :: "bytes \<Rightarrow> go_error + PrivateKey" where
  "DecodePrivateKey d = (case hex_Decode d of Inl e \<Rightarrow> Inl e | Inr p \<Rightarrow> Inr \<lparr>Prikey = p\<rparr>)"

lemma unhexdigit_hexdigit: "v < 16 \<Longrightarrow> unhexdigit (hexdigit v) = Some v"
  by (auto simp: unhexdigit_def hexdigit_def word_less_nat_alt word_le_nat_alt unat_word_ariths unat_sub_if')

lemma nibbles_join: "push_bit 4 (drop_bit 4 v) OR (v AND 15) = (v :: byte)"
proof -
  have "v AND 15 = take_bit 4 v" by (simp add: take_bit_eq_mask mask_eq_exp_minus_1)
  then show ?thesis by (simp only:) (rule bit_word_eqI, auto simp: bit_simps)
qed

lemma high_nibble_less: "drop_bit 4 (v :: byte) < 16"
proof -
  have "unat v < 256" using unsigned_less [of v, where ?'a = nat] by simp
  then show ?thesis
    by (simp add: word_less_nat_alt drop_bit_eq_div unat_div)
qed

lemma low_nibble_less: "(v :: byte) AND 15 < 16"
proof -
  have "v AND 15 \<le> 15" by (rule word_and_le1)
  then show ?thesis by (rule order_le_less_trans) simp
qed

lemma hex_Decode_Encode: "hex_Decode (hex_Encode xs) = Inr xs"
  by (induction xs)
    (simp_all add: unhexdigit_hexdigit nibbles_join high_nibble_less low_nibble_less)

section \<open>Properties\<close>

text \<open>Decoding an encoded public or private key gives the key back.\<close>

theorem key_roundtrip:
  "DecodePublicKey (EncodePublicKey pub) = Inr pub \<and> DecodePrivateKey (EncodePrivateKey pri) = Inr pri"
  by (simp add: EncodePublicKey_def DecodePublicKey_def EncodePrivateKey_def DecodePrivateKey_def
      hex_Decode_Encode)

definition sample_sig :: SigService where
  "sample_sig = \<lparr>PriKey = \<lparr>Prikey = []\<rparr>, ShareKey = \<lparr>PubPoly = [], PriShare = [], ShareN = 4, ShareT = 3\<rparr>\<rparr>"

lemma AppendInt_0: "AppendInt 0 = [48]"
  by code_simp

end
