(* ===== verification/Core_Config.thy ===== *)
theory Core_Config
  imports Crypto
begin

text \<open>
  Package \<^verbatim>\<open>core\<close>, file \<^verbatim>\<open>core/config.go\<close>: the run-time parameters and the committee, with
  its address lookups and its two thresholds; and the quorum contract that the vote
  counting of the protocol relies on.

  The map \<^verbatim>\<open>Authorities\<close> is an association list with distinct keys (\<open>wf_committee\<close>); the
  order of the list is the order of one iteration over the Go map, which the language
  leaves open. Facts about an iteration hold for every such list.
\<close>

section \<open>Parameters\<close>

abbreviation (input) MVBA :: int where "MVBA \<equiv> 0"
abbreviation (input) SMVBA :: int where "SMVBA \<equiv> 1"
abbreviation (input) VABA :: int where "VABA \<equiv> 2"
abbreviation (input) MERCURY :: int where "MERCURY \<equiv> 3"

record Parameters =
  SyncTimeout :: int
  NetwrokDelay :: int
  MinBlockDelay :: int
  DDos :: bool
  Faults :: int
  RetryDelay :: int
  Protocol :: int
  MaxPayloadSize :: int
  MaxQueenSize :: nat
  MinPayloadDelay :: int
  SyncRetryDelay :: int

definition DefaultParameters :: Parameters where
  "DefaultParameters =
     \<lparr>SyncTimeout = 500, NetwrokDelay = 2000, MinBlockDelay = 0, DDos = False, Faults = 0,
      RetryDelay = 5000, Protocol = SMVBA, MaxPayloadSize = 1000, MaxQueenSize = 10000,
      MinPayloadDelay = 200, SyncRetryDelay = 10000\<rparr>"

section \<open>The committee\<close>

record Authority =
  Name :: PublickKey
  Id :: NodeID
  Addr :: string
  MempoolAddr :: string

record Committee =
  Authorities :: "(NodeID \<times> Authority) list"

definition zero_Authority :: Authority where
  "zero_Authority = \<lparr>Name = \<lparr>Pubkey = []\<rparr>, Id = 0, Addr = [], MempoolAddr = []\<rparr>"

definition wf_committee :: "Committee \<Rightarrow> bool" where
  "wf_committee c \<longleftrightarrow> distinct (map fst (Authorities c))"

text \<open>Indexing a Go map with an absent key gives the zero value.\<close>

definition lookup_authority :: "Committee \<Rightarrow> NodeID \<Rightarrow> Authority" where
  "lookup_authority c nid =
     (case map_of (Authorities c) nid of None \<Rightarrow> zero_Authority | Some a \<Rightarrow> a)"

fun Committee_ID_loop :: "(NodeID \<times> Authority) list \<Rightarrow> PublickKey \<Rightarrow> NodeID" where
  "Committee_ID_loop [] name = NONE"
| "Committee_ID_loop ((nid, authority) # rest) name =
     (if Pubkey (Name authority) = Pubkey name then nid else Committee_ID_loop rest name)"

definition Committee_ID :: "Committee \<Rightarrow> PublickKey \<Rightarrow> NodeID" where
  "Committee_ID c name = Committee_ID_loop (Authorities c) name"

definition Committee_Size :: "Committee \<Rightarrow> int" where
  "Committee_Size c = int (length (Authorities c))"

definition Committee_Name :: "Committee \<Rightarrow> NodeID \<Rightarrow> PublickKey" where
  "Committee_Name c nid = Name (lookup_authority c nid)"

definition Committee_Address :: "Committee \<Rightarrow> NodeID \<Rightarrow> string" where
  "Committee_Address c nid = Addr (lookup_authority c nid)"

definition Committee_BroadCast :: "Committee \<Rightarrow> NodeID \<Rightarrow> string list" where
  "Committee_BroadCast c nid =
     foldl (\<lambda>addrs (nodeid, a). if nodeid \<noteq> nid then addrs @ [Addr a] else addrs) [] (Authorities c)"

definition Committee_MempoolAddress :: "Committee \<Rightarrow> NodeID \<Rightarrow> string" where
  "Committee_MempoolAddress c nid = MempoolAddr (lookup_authority c nid)"

definition Committee_MempoolBroadCast :: "Committee \<Rightarrow> NodeID \<Rightarrow> string list" where
  "Committee_MempoolBroadCast c nid =
     foldl (\<lambda>addrs (nodeid, a). if nodeid \<noteq> nid then addrs @ [MempoolAddr a] else addrs) []
       (Authorities c)"

text \<open>Go's integer division truncates towards zero.\<close>

definition HightThreshold :: "Committee \<Rightarrow> int" where
  "HightThreshold c = 2 * ((int (length (Authorities c)) - 1) sdiv 3) + 1"

definition LowThreshold :: "Committee \<Rightarrow> int" where
  "LowThreshold c = (int (length (Authorities c)) - 1) sdiv 3 + 1"

section \<open>Address lookups\<close>

lemma foldl_append_filter:
  "foldl (\<lambda>acc (i, a). if i \<noteq> nid then acc @ [f a] else acc) acc xs
     = acc @ map (f \<circ> snd) (filter (\<lambda>(i, a). i \<noteq> nid) xs)"
  by (induction xs arbitrary: acc) (auto split: prod.splits)

lemma Committee_BroadCast_eq:
  "Committee_BroadCast c nid = map (Addr \<circ> snd) (filter (\<lambda>(i, a). i \<noteq> nid) (Authorities c))"
  using foldl_append_filter [of nid Addr "[]"] by (simp add: Committee_BroadCast_def)

lemma Committee_MempoolBroadCast_eq:
  "Committee_MempoolBroadCast c nid =
     map (MempoolAddr \<circ> snd) (filter (\<lambda>(i, a). i \<noteq> nid) (Authorities c))"
  using foldl_append_filter [of nid MempoolAddr "[]"] by (simp add: Committee_MempoolBroadCast_def)

definition members :: "Committee \<Rightarrow> NodeID set" where
  "members c = fst ` set (Authorities c)"

lemma finite_members [simp]: "finite (members c)"
  by (simp add: members_def)

lemma card_members: "wf_committee c \<Longrightarrow> int (card (members c)) = Committee_Size c"
  by (simp add: members_def wf_committee_def Committee_Size_def distinct_card flip: set_map)

lemma lookup_not_member: "nid \<notin> members c \<Longrightarrow> lookup_authority c nid = zero_Authority"
  by (auto simp: lookup_authority_def members_def map_of_eq_None_iff split: option.splits)
    (metis map_of_eq_None_iff option.distinct(1))

lemma Committee_Name_not_member: "nid \<notin> members c \<Longrightarrow> Committee_Name c nid = \<lparr>Pubkey = []\<rparr>"
  by (simp add: Committee_Name_def lookup_not_member zero_Authority_def)

lemma Committee_ID_loop_unique:
  assumes "(nid, a) \<in> set xs" and "Pubkey (Name a) = Pubkey k"
    and "\<And>i b. (i, b) \<in> set xs \<Longrightarrow> Pubkey (Name b) = Pubkey k \<Longrightarrow> i = nid"
  shows "Committee_ID_loop xs k = nid"
  using assms
proof (induction xs)
  case Nil
  then show ?case by simp
next
  case (Cons x xs)
  obtain i b where x: "x = (i, b)" by (cases x)
  show ?case
  proof (cases "Pubkey (Name b) = Pubkey k")
    case True
    with x Cons.prems(3) [of i b] show ?thesis by simp
  next
    case False
    with x Cons.prems(1,2) have "(nid, a) \<in> set xs" by auto
    with x False Cons.IH [OF _ Cons.prems(2)] Cons.prems(3) show ?thesis by auto
  qed
qed

section \<open>Thresholds\<close>

text \<open>The number of faults the thresholds are computed for, \<open>f = (n - 1) / 3\<close>.\<close>

definition fault_bound :: "Committee \<Rightarrow> int" where
  "fault_bound c = (Committee_Size c - 1) sdiv 3"

lemma sdiv3_eq: "0 < n \<Longrightarrow> (n - 1 :: int) sdiv 3 = (n - 1) div 3"
  by (auto simp: signed_divide_int_def sgn_if)

lemma sdiv3_zero: "(0 - 1 :: int) sdiv 3 = 0"
  by (simp add: signed_divide_int_def)

lemma fault_bound_nonneg: "0 \<le> fault_bound c"
proof (cases "Committee_Size c = 0")
  case True
  then show ?thesis using sdiv3_zero by (simp add: fault_bound_def)
next
  case False
  then have "0 < Committee_Size c" by (simp add: Committee_Size_def)
  then show ?thesis by (simp add: fault_bound_def sdiv3_eq pos_imp_zdiv_nonneg_iff)
qed

lemma HightThreshold_eq: "HightThreshold c = 2 * fault_bound c + 1"
  by (simp add: HightThreshold_def fault_bound_def Committee_Size_def)

lemma LowThreshold_eq: "LowThreshold c = fault_bound c + 1"
  by (simp add: LowThreshold_def fault_bound_def Committee_Size_def)

lemma fault_bound_size:
  assumes "0 < Committee_Size c"
  shows "3 * fault_bound c + 1 \<le> Committee_Size c" and "Committee_Size c \<le> 3 * fault_bound c + 3"
  using assms by (auto simp: fault_bound_def sdiv3_eq)

lemma HightThreshold_pos: "0 < HightThreshold c"
  using fault_bound_nonneg [of c] by (simp add: HightThreshold_eq)

lemma LowThreshold_pos: "0 < LowThreshold c"
  using fault_bound_nonneg [of c] by (simp add: LowThreshold_eq)

lemma HightThreshold_le_Size: "0 < Committee_Size c \<Longrightarrow> HightThreshold c \<le> Committee_Size c"
  using fault_bound_size(1) [of c] fault_bound_nonneg [of c] by (simp add: HightThreshold_eq)

section \<open>The quorum contract\<close>

text \<open>
  What vote counting needs of quorums: any two share a member outside every tolerated set
  of faulty nodes, every weak quorum has such a member, and the members outside a tolerated
  set form a quorum.
\<close>

locale byzantine_quorums =
  fixes quorum :: "'n set \<Rightarrow> bool"
    and weak :: "'n set \<Rightarrow> bool"
    and tolerated :: "'n set \<Rightarrow> bool"
    and all_nodes :: "'n set"
  assumes quorum_meet: "tolerated F \<Longrightarrow> quorum Q \<Longrightarrow> quorum R \<Longrightarrow> \<exists>p \<in> Q \<inter> R. p \<notin> F"
    and weak_correct: "tolerated F \<Longrightarrow> weak W \<Longrightarrow> \<exists>p \<in> W. p \<notin> F"
    and correct_quorum: "tolerated F \<Longrightarrow> quorum (all_nodes - F)"
begin

lemma quorum_agree:
  assumes "tolerated F" and "quorum Q" and "quorum R"
    and "\<And>p. p \<in> Q - F \<Longrightarrow> vote p = v" and "\<And>p. p \<in> R - F \<Longrightarrow> vote p = w"
  shows "v = w"
proof -
  from quorum_meet [OF assms(1-3)] obtain p where "p \<in> Q" "p \<in> R" "p \<notin> F" by blast
  with assms(4) [of p] assms(5) [of p] show ?thesis by simp
qed

end

definition committee_quorum :: "Committee \<Rightarrow> NodeID set \<Rightarrow> bool" where
  "committee_quorum c Q \<longleftrightarrow> Q \<subseteq> members c \<and> HightThreshold c \<le> int (card Q)"

definition committee_weak :: "Committee \<Rightarrow> NodeID set \<Rightarrow> bool" where
  "committee_weak c W \<longleftrightarrow> W \<subseteq> members c \<and> LowThreshold c \<le> int (card W)"

text \<open>
  A fault set the committee tolerates: at most \<open>f\<close> members, in a committee of exactly
  \<open>3 f + 1\<close> nodes.
\<close>

definition committee_tolerates :: "Committee \<Rightarrow> NodeID set \<Rightarrow> bool" where
  "committee_tolerates c F \<longleftrightarrow>
     wf_committee c \<and> Committee_Size c = 3 * fault_bound c + 1 \<and> finite F \<and>
     int (card F) \<le> fault_bound c"

lemma committee_quorum_finite: "committee_quorum c Q \<Longrightarrow> finite Q"
  by (auto simp: committee_quorum_def intro: finite_subset [OF _ finite_members])

text \<open>For every committee: how many members two quorums share at least.\<close>

lemma quorum_overlap:
  assumes "wf_committee c" and "committee_quorum c Q" and "committee_quorum c R"
  shows "4 * fault_bound c + 2 - Committee_Size c \<le> int (card (Q \<inter> R))"
proof -
  have fin: "finite Q" "finite R" using assms(2,3) by (auto intro: committee_quorum_finite)
  have "card (Q \<union> R) \<le> card (members c)"
    using assms(2,3) by (intro card_mono) (auto simp: committee_quorum_def)
  then have "int (card (Q \<union> R)) \<le> Committee_Size c" using card_members [OF assms(1)] by simp
  moreover have "int (card Q) + int (card R) = int (card (Q \<union> R)) + int (card (Q \<inter> R))"
    using card_Un_Int [OF fin] by simp
  ultimately show ?thesis
    using assms(2,3) by (simp add: committee_quorum_def HightThreshold_eq)
qed

lemma exists_outside:
  assumes "finite F" and "card F < card A"
  shows "\<exists>p \<in> A. p \<notin> F"
  using assms card_mono [of F A] by (metis linorder_not_less subsetI)

interpretation cq: byzantine_quorums
  "committee_quorum c" "committee_weak c" "committee_tolerates c" "members c" for c
proof
  fix F Q R
  assume "committee_tolerates c F" "committee_quorum c Q" "committee_quorum c R"
  then have "card F < card (Q \<inter> R)" and "finite F"
    using quorum_overlap [of c Q R] by (auto simp: committee_tolerates_def)
  then show "\<exists>p \<in> Q \<inter> R. p \<notin> F" by (intro exists_outside)
next
  fix F W
  assume "committee_tolerates c F" "committee_weak c W"
  then show "\<exists>p \<in> W. p \<notin> F"
    by (intro exists_outside) (auto simp: committee_tolerates_def committee_weak_def LowThreshold_eq)
next
  fix F
  assume F: "committee_tolerates c F"
  then have "int (card (members c)) - int (card F) \<le> int (card (members c - F))"
    using diff_card_le_card_Diff [of F "members c"] by (simp add: committee_tolerates_def)
  with F show "committee_quorum c (members c - F)"
    using card_members [of c]
    by (auto simp: committee_quorum_def committee_tolerates_def HightThreshold_eq)
qed

section \<open>Properties\<close>

text \<open>
  C36. In a committee of \<open>3 f + 1\<close> members with at most \<open>f\<close> faulty ones, two sets of
  \<^verbatim>\<open>HightThreshold\<close> members share a correct member, a set of \<^verbatim>\<open>LowThreshold\<close> members has a
  correct member, and the correct members alone reach \<^verbatim>\<open>HightThreshold\<close>.
\<close>

theorem quorums_meet:
  assumes "committee_tolerates c F"
  shows "(committee_quorum c Q \<longrightarrow> committee_quorum c R \<longrightarrow> (\<exists>p \<in> Q \<inter> R. p \<notin> F)) \<and>
    (committee_weak c W \<longrightarrow> (\<exists>p \<in> W. p \<notin> F)) \<and> committee_quorum c (members c - F)"
  using cq.quorum_meet [OF assms] cq.weak_correct [OF assms] cq.correct_quorum [OF assms] by blast

definition committee4 :: Committee where
  "committee4 = \<lparr>Authorities = map (\<lambda>i. (int i, zero_Authority\<lparr>Name := \<lparr>Pubkey = replicate 32 (of_nat i)\<rparr>, Id := int i, Addr := replicate (Suc i) CHR ''n''\<rparr>)) [0..<4]\<rparr>"

lemma committee4_simps [simp]:
  "members committee4 = {0, 1, 2, 3}" "Committee_Size committee4 = 4"
  "HightThreshold committee4 = 3" "LowThreshold committee4 = 2" "fault_bound committee4 = 1"
  "wf_committee committee4"
  by (auto simp: committee4_def members_def Committee_Size_def HightThreshold_def LowThreshold_def
      fault_bound_def wf_committee_def upt_rec numeral_eq_Suc signed_divide_int_def)

lemma committee4_tolerates: "committee_tolerates committee4 {3}"
  by (simp add: committee_tolerates_def)

definition committee1 :: Committee where
  "committee1 = \<lparr>Authorities = [(0, zero_Authority)]\<rparr>"

lemma committee1_simps [simp]: "HightThreshold committee1 = 1" "Committee_Size committee1 = 1"
  by (simp_all add: committee1_def HightThreshold_def Committee_Size_def signed_divide_int_def)

theorem quorums_meet_witness:
  "\<exists>p \<in> {0, 1, 2} \<inter> {1, 2, 3 :: int}. p \<notin> {3}"
  using quorums_meet [OF committee4_tolerates, of "{0, 1, 2}" "{1, 2, 3}" "{}"]
  by (simp add: committee_quorum_def)

end
