(* ===== verification/Pool.thy ===== *)
theory Pool
  imports Prelude
begin

text \<open>
  Package \<^verbatim>\<open>pool\<close>: the transaction queue, a ring buffer that cuts the stream of transactions
  into batches, the transaction maker and the pool (\<^verbatim>\<open>pool/pool.go\<close>, \<^verbatim>\<open>pool/config.go\<close>,
  \<^verbatim>\<open>pool/message.go\<close>).

  One turn of the loop in \<^verbatim>\<open>txQueue.run\<close> is \<open>txQueue_run_step\<close>; \<^verbatim>\<open>batchChannel\<close> is the list of
  batches sent and not yet received, oldest first. A nil slice is \<open>[]\<close>. A send on the full
  channel only delays the queue goroutine and is not represented.
\<close>

section \<open>Data\<close>

type_synonym Transaction = bytes

record Batch =
  ID :: int
  Txs :: "Transaction list"

record PoolParameters =
  Rate :: int
  TxSize :: int
  BatchSize :: int
  MaxQueueSize :: int

definition DefaultPoolParameters :: PoolParameters where
  "DefaultPoolParameters = \<lparr>Rate = 1000, TxSize = 16, BatchSize = 200, MaxQueueSize = 10000\<rparr>"

record txQueue =
  queue :: "Transaction list"
  batchChannel :: "Batch list"
  wind :: int
  rind :: int
  nums :: int
  maxQueueSize :: int
  batchSize :: int
  qN :: int
  qId :: int
  bcnt :: int

record txMaker =
  txSize :: int
  rate :: int

record PoolState =
  poolParameters :: PoolParameters
  txqueue :: txQueue
  maker :: txMaker
  txChannel :: "Transaction list"

section \<open>Operations\<close>

definition newTxQueue :: "int \<Rightarrow> int \<Rightarrow> int \<Rightarrow> int \<Rightarrow> txQueue outcome" where
  "newTxQueue mqs bs N nid =
     (if mqs < 0 then Panic ''makeslice: len out of range''
      else Ret \<lparr>queue = replicate (nat mqs) [], batchChannel = [], wind = 0, rind = - 1, nums = 0,
                maxQueueSize = mqs, batchSize = bs, qN = N, qId = nid, bcnt = 0\<rparr>)"

text \<open>The loop of \<^verbatim>\<open>make\<close>: read index, append, count down.\<close>

primrec make_loop :: "nat \<Rightarrow> txQueue \<Rightarrow> Transaction list \<Rightarrow> (txQueue \<times> Transaction list) outcome" where
  "make_loop 0 q txs = Ret (q, txs)"
| "make_loop (Suc i) q txs =
     (if maxQueueSize q = 0 then Panic ''integer divide by zero''
      else
        let r = (rind q + 1) smod maxQueueSize q
        in if r < 0 \<or> int (length (queue q)) \<le> r then Panic ''index out of range''
           else make_loop i (q\<lparr>rind := r, nums := nums q - 1\<rparr>) (txs @ [queue q ! nat r]))"

definition txQueue_make :: "txQueue \<Rightarrow> txQueue outcome" where
  "txQueue_make q =
     bind_outcome (make_loop (nat (batchSize q)) q [])
       (\<lambda>(q', txs).
          Ret (q'\<lparr>batchChannel := batchChannel q' @ [\<lparr>ID = i64 (qId q + qN q * bcnt q), Txs = txs\<rparr>],
                  bcnt := i64 (bcnt q' + 1)\<rparr>))"

definition txQueue_run_step :: "txQueue \<Rightarrow> Transaction \<Rightarrow> txQueue outcome" where
  "txQueue_run_step q tx =
     (if wind q = rind q then Ret q
      else if wind q < 0 \<or> int (length (queue q)) \<le> wind q then Panic ''index out of range''
      else
        let q1 = q\<lparr>queue := (queue q)[nat (wind q) := tx],
                   wind := (wind q + 1) smod maxQueueSize q,
                   nums := nums q + 1\<rparr>
        in if batchSize q \<le> nums q1 then txQueue_make q1 else Ret q1)"

definition txQueue_get :: "txQueue \<Rightarrow> Batch \<times> txQueue" where
  "txQueue_get q =
     (case batchChannel q of
        b # bs \<Rightarrow> (b, q\<lparr>batchChannel := bs\<rparr>)
      | [] \<Rightarrow> (\<lparr>ID = - 1, Txs = []\<rparr>, q))"

abbreviation PRECISION :: int where "PRECISION \<equiv> 20"

definition newTxMaker :: "int \<Rightarrow> int \<Rightarrow> txMaker" where
  "newTxMaker sz r = \<lparr>txSize = sz, rate = r\<rparr>"

text \<open>What one tick of \<^verbatim>\<open>txMaker.run\<close> sends.\<close>

definition txMaker_tick :: "txMaker \<Rightarrow> Transaction list outcome" where
  "txMaker_tick m =
     (if 0 < rate m sdiv PRECISION \<and> txSize m < 0 then Panic ''makeslice: len out of range''
      else Ret (replicate (nat (rate m sdiv PRECISION)) (replicate (nat (txSize m)) 0)))"

definition NewPool :: "PoolParameters \<Rightarrow> int \<Rightarrow> int \<Rightarrow> PoolState outcome" where
  "NewPool ps N nid =
     bind_outcome (newTxQueue (MaxQueueSize ps) (BatchSize ps) N nid)
       (\<lambda>q. Ret \<lparr>poolParameters = ps, txqueue = q, maker = newTxMaker (TxSize ps) (Rate ps),
                 txChannel = []\<rparr>)"

definition Pool_GetBatch :: "PoolState \<Rightarrow> Batch \<times> PoolState" where
  "Pool_GetBatch p = (let (b, q) = txQueue_get (txqueue p) in (b, p\<lparr>txqueue := q\<rparr>))"

definition Pool_BatchChannel :: "PoolState \<Rightarrow> Batch list" where
  "Pool_BatchChannel p = batchChannel (txqueue p)"

section \<open>The batching contract\<close>

text \<open>
  A buffer that collects items and cuts off a block as soon as it holds \<open>size\<close> of them.
  Over any stream nothing is lost, reordered or duplicated, and all blocks are full.
\<close>

locale batcher =
  fixes push :: "'s \<Rightarrow> 'x \<Rightarrow> 's outcome"
    and inv :: "'s \<Rightarrow> bool"
    and pending :: "'s \<Rightarrow> 'x list"
    and emitted :: "'s \<Rightarrow> 'x list list"
    and bsize :: "'s \<Rightarrow> nat"
  assumes push_collect:
      "inv s \<Longrightarrow> Suc (length (pending s)) < bsize s \<Longrightarrow>
       \<exists>s'. push s x = Ret s' \<and> inv s' \<and> bsize s' = bsize s \<and>
            pending s' = pending s @ [x] \<and> emitted s' = emitted s"
    and push_cut:
      "inv s \<Longrightarrow> bsize s \<le> Suc (length (pending s)) \<Longrightarrow>
       \<exists>s'. push s x = Ret s' \<and> inv s' \<and> bsize s' = bsize s \<and>
            pending s' = [] \<and> emitted s' = emitted s @ [pending s @ [x]]"
    and pending_small: "inv s \<Longrightarrow> length (pending s) < bsize s"
begin

lemma push_ok:
  assumes "inv s"
  shows "\<exists>s'. push s x = Ret s' \<and> inv s' \<and> bsize s' = bsize s \<and>
     concat (emitted s') @ pending s' = concat (emitted s) @ pending s @ [x] \<and>
     (\<forall>b \<in> set (emitted s'). b \<in> set (emitted s) \<or> length b = bsize s)"
proof (cases "Suc (length (pending s)) < bsize s")
  case True
  from push_collect [OF assms True] show ?thesis by fastforce
next
  case False
  then have "bsize s \<le> Suc (length (pending s))" by simp
  moreover from this pending_small [OF assms] have "bsize s = Suc (length (pending s))" by simp
  ultimately show ?thesis using push_cut [OF assms, of x] by fastforce
qed

lemma run_ok:
  assumes "inv s"
  shows "\<exists>s'. foldo push s xs = Ret s' \<and> inv s' \<and> bsize s' = bsize s \<and>
     concat (emitted s') @ pending s' = concat (emitted s) @ pending s @ xs \<and>
     (\<forall>b \<in> set (emitted s'). b \<in> set (emitted s) \<or> length b = bsize s)"
  using assms
proof (induction xs arbitrary: s)
  case Nil
  then show ?case by simp
next
  case (Cons x xs)
  from push_ok [OF Cons.prems] obtain s1 where
    s1: "push s x = Ret s1" "inv s1" "bsize s1 = bsize s"
      "concat (emitted s1) @ pending s1 = concat (emitted s) @ pending s @ [x]"
      "\<forall>b \<in> set (emitted s1). b \<in> set (emitted s) \<or> length b = bsize s" by blast
  from Cons.IH [OF s1(2)] obtain s2 where
    s2: "foldo push s1 xs = Ret s2" "inv s2" "bsize s2 = bsize s1"
      "concat (emitted s2) @ pending s2 = concat (emitted s1) @ pending s1 @ xs"
      "\<forall>b \<in> set (emitted s2). b \<in> set (emitted s1) \<or> length b = bsize s1" by blast
  have "concat (emitted s2) @ pending s2 = concat (emitted s) @ pending s @ x # xs"
    using s2(4) s1(4) by (metis append.assoc append_Cons append_Nil)
  with s1 s2 show ?case by auto
qed

end

section \<open>The ring buffer implements it\<close>

text \<open>The \<open>k\<close> transactions behind the read index.\<close>

definition slots :: "txQueue \<Rightarrow> nat \<Rightarrow> Transaction list" where
  "slots q k = map (\<lambda>i. queue q ! nat ((rind q + 1 + int i) mod maxQueueSize q)) [0..<k]"

definition pool_inv :: "txQueue \<Rightarrow> bool" where
  "pool_inv q \<longleftrightarrow>
     0 < batchSize q \<and> batchSize q < maxQueueSize q \<and>
     int (length (queue q)) = maxQueueSize q \<and>
     - 1 \<le> rind q \<and> rind q < maxQueueSize q \<and>
     0 \<le> nums q \<and> nums q < batchSize q \<and>
     wind q = (rind q + 1 + nums q) mod maxQueueSize q"

definition pending_txs :: "txQueue \<Rightarrow> Transaction list" where
  "pending_txs q = slots q (nat (nums q))"

lemma length_slots [simp]: "length (slots q k) = k"
  by (simp add: slots_def)

lemma slots_Suc:
  "slots q (Suc k) = slots q k @ [queue q ! nat ((rind q + 1 + int k) mod maxQueueSize q)]"
  by (simp add: slots_def)

lemma mod_ge_minus1: "0 < m \<Longrightarrow> - 1 \<le> a mod (m :: int)"
  by (rule order_trans [OF _ pos_mod_sign]) simp_all

lemma wind_range:
  assumes "pool_inv q"
  shows "0 \<le> wind q" and "wind q < maxQueueSize q"
  using assms by (auto simp: pool_inv_def intro: pos_mod_sign pos_mod_bound)

text \<open>The make loop reads the slots behind the read index in order.\<close>

lemma make_loop_eq:
  assumes "0 < maxQueueSize q" and "int (length (queue q)) = maxQueueSize q"
    and "- 1 \<le> rind q" and "rind q < maxQueueSize q"
  shows "make_loop k q txs =
    Ret (q\<lparr>rind := (if k = 0 then rind q else (rind q + int k) mod maxQueueSize q),
           nums := nums q - int k\<rparr>, txs @ slots q k)"
  using assms
proof (induction k arbitrary: q txs)
  case 0
  then show ?case by (simp add: slots_def)
next
  case (Suc k)
  let ?r = "(rind q + 1) mod maxQueueSize q"
  let ?q = "q\<lparr>rind := ?r, nums := nums q - 1\<rparr>"
  have r: "(rind q + 1) smod maxQueueSize q = ?r" "0 \<le> ?r" "?r < maxQueueSize q"
    using Suc.prems by (auto simp: smod_nonneg)
  have "make_loop (Suc k) q txs = make_loop k ?q (txs @ [queue q ! nat ?r])"
    using Suc.prems r by (simp add: Let_def)
  also have "\<dots> = Ret (?q\<lparr>rind := (if k = 0 then ?r else (?r + int k) mod maxQueueSize q),
      nums := nums q - 1 - int k\<rparr>, (txs @ [queue q ! nat ?r]) @ slots ?q k)"
    using Suc.prems r by (subst Suc.IH) auto
  also have "slots q (Suc k) = queue q ! nat ?r # slots ?q k"
  proof -
    have "(rind q + 1 + int (Suc i)) mod maxQueueSize q = (?r + 1 + int i) mod maxQueueSize q" for i
      using mod_add_left_eq [of "rind q + 1" "maxQueueSize q" "1 + int i"] by (simp add: algebra_simps)
    then show ?thesis
      by (simp add: slots_def upt_conv_Cons map_Suc_upt [symmetric] del: upt_Suc)
  qed
  ultimately show ?case
    using Suc.prems by (auto simp: mod_simps algebra_simps)
qed

lemma slots_write:
  assumes "pool_inv q"
  shows "slots (q\<lparr>queue := (queue q)[nat (wind q) := tx], wind := w, nums := n\<rparr>) (Suc (nat (nums q)))
     = pending_txs q @ [tx]"
proof -
  let ?M = "maxQueueSize q"
  have M: "0 < ?M" and nlt: "nums q + 1 < ?M" and n0: "0 \<le> nums q"
    using assms by (auto simp: pool_inv_def)
  have neq: "(rind q + 1 + int i) mod ?M \<noteq> wind q" if "i < nat (nums q)" for i
  proof
    assume "(rind q + 1 + int i) mod ?M = wind q"
    then have "?M dvd (rind q + 1 + nums q) - (rind q + 1 + int i)"
      using assms unfolding pool_inv_def by (metis mod_eq_dvd_iff)
    then have "?M dvd nums q - int i" by simp
    then have "?M \<le> nums q - int i" using that by (intro zdvd_imp_le) auto
    with nlt show False using that by linarith
  qed
  have same: "(queue q)[nat (wind q) := tx] ! nat ((rind q + 1 + int i) mod ?M)
      = queue q ! nat ((rind q + 1 + int i) mod ?M)" if "i < nat (nums q)" for i
    using neq [OF that] M wind_range [OF assms]
    by (subst nth_list_update_neq) (auto simp: eq_nat_nat_iff)
  have last: "(queue q)[nat (wind q) := tx] ! nat ((rind q + 1 + nums q) mod ?M) = tx"
  proof -
    have "(rind q + 1 + nums q) mod ?M = wind q" "int (length (queue q)) = ?M"
      using assms by (auto simp: pool_inv_def)
    then show ?thesis using wind_range [OF assms] by (simp add: nat_less_iff)
  qed
  show ?thesis
    using same last n0 by (auto simp: slots_def pending_txs_def)
qed

lemma run_step_not_full:
  assumes "pool_inv q"
  shows "wind q \<noteq> rind q"
proof
  assume eq: "wind q = rind q"
  have "rind q mod maxQueueSize q = rind q"
    using wind_range [OF assms] eq by simp
  with assms eq have "maxQueueSize q dvd (rind q + 1 + nums q) - rind q"
    by (metis mod_eq_dvd_iff pool_inv_def)
  then have "maxQueueSize q \<le> 1 + nums q"
    using assms by (intro zdvd_imp_le) (auto simp: pool_inv_def)
  with assms show False by (auto simp: pool_inv_def)
qed

lemma run_step_inv_eq:
  assumes "pool_inv q"
  shows "txQueue_run_step q tx =
    (let q1 = q\<lparr>queue := (queue q)[nat (wind q) := tx],
                wind := (wind q + 1) smod maxQueueSize q, nums := nums q + 1\<rparr>
     in if batchSize q \<le> nums q + 1 then txQueue_make q1 else Ret q1)"
proof -
  have "int (length (queue q)) = maxQueueSize q" using assms by (simp add: pool_inv_def)
  then show ?thesis
    using run_step_not_full [OF assms] wind_range [OF assms] by (simp add: txQueue_run_step_def)
qed

text \<open>One turn of the queue loop on a well-formed queue, both branches.\<close>

lemma run_step_collect:
  assumes "pool_inv q" and "nums q + 1 < batchSize q"
  shows "\<exists>q'. txQueue_run_step q tx = Ret q' \<and> pool_inv q' \<and> batchSize q' = batchSize q \<and>
     pending_txs q' = pending_txs q @ [tx] \<and> batchChannel q' = batchChannel q \<and>
     bcnt q' = bcnt q \<and> qN q' = qN q \<and> qId q' = qId q"
proof -
  let ?q = "q\<lparr>queue := (queue q)[nat (wind q) := tx],
              wind := (wind q + 1) smod maxQueueSize q, nums := nums q + 1\<rparr>"
  have "txQueue_run_step q tx = Ret ?q"
    using assms by (simp add: run_step_inv_eq)
  moreover have "pool_inv ?q"
    using assms by (auto simp: pool_inv_def smod_nonneg mod_simps algebra_simps)
  moreover have "nat (nums q + 1) = Suc (nat (nums q))"
    using assms(1) by (auto simp: pool_inv_def)
  then have "pending_txs ?q = pending_txs q @ [tx]"
    using slots_write [OF assms(1)] by (simp add: pending_txs_def)
  ultimately show ?thesis by auto
qed

lemma run_step_cut:
  assumes "pool_inv q" and "batchSize q \<le> nums q + 1"
  shows "\<exists>q'. txQueue_run_step q tx = Ret q' \<and> pool_inv q' \<and> batchSize q' = batchSize q \<and>
     pending_txs q' = [] \<and>
     batchChannel q' = batchChannel q @
       [\<lparr>ID = i64 (qId q + qN q * bcnt q), Txs = pending_txs q @ [tx]\<rparr>] \<and>
     bcnt q' = i64 (bcnt q + 1) \<and> qN q' = qN q \<and> qId q' = qId q"
proof -
  let ?q = "q\<lparr>queue := (queue q)[nat (wind q) := tx],
              wind := (wind q + 1) smod maxQueueSize q, nums := nums q + 1\<rparr>"
  have b: "batchSize q = nums q + 1" and n0: "0 \<le> nums q" and M: "0 < maxQueueSize q"
    using assms by (auto simp: pool_inv_def)
  have step: "txQueue_run_step q tx = txQueue_make ?q"
    using assms by (simp add: run_step_inv_eq)
  have k: "nat (batchSize ?q) = Suc (nat (nums q))" using b n0 by auto
  have loop: "make_loop (nat (batchSize ?q)) ?q [] =
      Ret (?q\<lparr>rind := (rind q + batchSize q) mod maxQueueSize q, nums := 0\<rparr>,
           slots ?q (Suc (nat (nums q))))"
    using assms b n0 M unfolding k by (subst make_loop_eq) (auto simp: pool_inv_def algebra_simps)
  have txs: "slots ?q (Suc (nat (nums q))) = pending_txs q @ [tx]"
    by (rule slots_write [OF assms(1)])
  let ?q' = "?q\<lparr>rind := (rind q + batchSize q) mod maxQueueSize q, nums := 0,
      batchChannel := batchChannel q @ [\<lparr>ID = i64 (qId q + qN q * bcnt q), Txs = pending_txs q @ [tx]\<rparr>],
      bcnt := i64 (bcnt q + 1)\<rparr>"
  have "txQueue_run_step q tx = Ret ?q'"
    using loop txs by (simp add: step txQueue_make_def)
  moreover have "pool_inv ?q'"
    using assms b M
    by (auto simp: pool_inv_def smod_nonneg mod_simps algebra_simps mod_ge_minus1)
  moreover have "pending_txs ?q' = []" by (simp add: pending_txs_def slots_def)
  ultimately show ?thesis by auto
qed

interpretation tq: batcher txQueue_run_step pool_inv pending_txs
  "\<lambda>q. map Txs (batchChannel q)" "\<lambda>q. nat (batchSize q)"
proof
  fix q tx
  assume inv: "pool_inv q" and "Suc (length (pending_txs q)) < nat (batchSize q)"
  then have "nums q + 1 < batchSize q" by (auto simp: pending_txs_def pool_inv_def)
  from run_step_collect [OF inv this, of tx]
  show "\<exists>s'. txQueue_run_step q tx = Ret s' \<and> pool_inv s' \<and> nat (batchSize s') = nat (batchSize q) \<and>
      pending_txs s' = pending_txs q @ [tx] \<and> map Txs (batchChannel s') = map Txs (batchChannel q)"
    by auto
next
  fix q tx
  assume inv: "pool_inv q" and "nat (batchSize q) \<le> Suc (length (pending_txs q))"
  then have "batchSize q \<le> nums q + 1" by (auto simp: pending_txs_def pool_inv_def)
  from run_step_cut [OF inv this, of tx]
  show "\<exists>s'. txQueue_run_step q tx = Ret s' \<and> pool_inv s' \<and> nat (batchSize s') = nat (batchSize q) \<and>
      pending_txs s' = [] \<and>
      map Txs (batchChannel s') = map Txs (batchChannel q) @ [pending_txs q @ [tx]]"
    by auto
next
  fix q
  assume "pool_inv q"
  then show "length (pending_txs q) < nat (batchSize q)"
    by (auto simp: pending_txs_def pool_inv_def)
qed

lemma newTxQueue_inv:
  assumes "0 < bs" and "bs < mqs" and "newTxQueue mqs bs N nid = Ret q"
  shows "pool_inv q" and "pending_txs q = []" and "batchChannel q = []" and "batchSize q = bs"
    and "qN q = N" and "qId q = nid" and "bcnt q = 0"
  using assms by (auto simp: newTxQueue_def pool_inv_def pending_txs_def slots_def split: if_splits)

section \<open>Properties\<close>

text \<open>
  C30. A queue whose batch size is positive and smaller than its capacity accepts any stream of
  transactions without panic; the batches emitted, followed by the transactions still collected,
  are the stream in order, and every batch is full.
\<close>

theorem batches_lose_nothing:
  assumes "0 < bs" and "bs < mqs" and "newTxQueue mqs bs N nid = Ret q"
  shows "\<exists>q'. foldo txQueue_run_step q txs = Ret q' \<and>
    concat (map Txs (batchChannel q')) @ pending_txs q' = txs \<and>
    (\<forall>b \<in> set (batchChannel q'). length (Txs b) = nat bs)"
proof -
  note init = newTxQueue_inv [OF assms]
  from tq.run_ok [OF init(1), of txs] show ?thesis unfolding init(2,3,4) by fastforce
qed

theorem batches_lose_nothing_witness:
  "\<exists>q'. foldo txQueue_run_step \<lparr>queue = replicate 3 [], batchChannel = [], wind = 0, rind = - 1, nums = 0,
       maxQueueSize = 3, batchSize = 2, qN = 4, qId = 1, bcnt = 0\<rparr> [[1], [2], [3 :: byte]] = Ret q' \<and>
    concat (map Txs (batchChannel q')) @ pending_txs q' = [[1], [2], [3]] \<and>
    (\<forall>b \<in> set (batchChannel q'). length (Txs b) = 2)"
  using batches_lose_nothing [of 2 3 4 1 _ "[[1], [2], [3]]"] by (simp add: newTxQueue_def)

end
