(* ===== verification/Store.thy ===== *)
theory Store
  imports Crypto
begin

text \<open>
  Package \<^verbatim>\<open>store\<close>: the store goroutine with its blocking reads (\<^verbatim>\<open>store/store.go\<close>) over the
  database wrapper (\<^verbatim>\<open>store/nutsdb.go\<close>), and the key-value contract its clients use.

  The database package \<^verbatim>\<open>nutsdb\<close> is a parameter: the result of a transaction is a function of
  the history of committed puts, newest first. \<open>nutsdb_ok\<close> is what its documentation promises:
  \<^verbatim>\<open>Get\<close> returns the value last put, and an error of the package (\<open>nuts_nf\<close>) for a key that was
  never put.
\<close>

section \<open>The database\<close>

record store_env = crypto_env +
  nuts_get :: "(bytes \<times> bytes) list \<Rightarrow> bytes \<Rightarrow> go_error + bytes"
  nuts_put :: "(bytes \<times> bytes) list \<Rightarrow> bytes \<Rightarrow> bytes \<Rightarrow> go_error option"
  nuts_nf :: go_error

definition nutsdb_ok :: "('a store_env_scheme) \<Rightarrow> bool" where
  "nutsdb_ok E \<longleftrightarrow>
     (\<forall>h k. nuts_get E h k = (case map_of h k of None \<Rightarrow> Inl (nuts_nf E) | Some v \<Rightarrow> Inr v))"

record NutsDB =
  puts :: "(bytes \<times> bytes) list"

definition NewDefaultNutsDB :: NutsDB where
  "NewDefaultNutsDB = \<lparr>puts = []\<rparr>"

definition NutsDB_Get :: "('a store_env_scheme) \<Rightarrow> NutsDB \<Rightarrow> bytes \<Rightarrow> go_error + bytes" where
  "NutsDB_Get E db k = nuts_get E (puts db) k"

definition NutsDB_Put :: "('a store_env_scheme) \<Rightarrow> NutsDB \<Rightarrow> bytes \<Rightarrow> bytes \<Rightarrow> NutsDB \<times> go_error option" where
  "NutsDB_Put E db k v =
     (case nuts_put E (puts db) k v of
        Some e \<Rightarrow> (db, Some e)
      | None \<Rightarrow> (db\<lparr>puts := (k, v) # puts db\<rparr>, None))"

section \<open>The store goroutine\<close>

datatype reqTyp = READ | WRITE | NOTIFYREAD

text \<open>\<open>done_ch\<close> identifies the reply channel \<^verbatim>\<open>Done\<close> of the request.\<close>

record storeReq =
  rtyp :: reqTyp
  key :: bytes
  val :: bytes
  err :: "go_error option"
  done_ch :: nat

text \<open>\<open>notified\<close>: the replies sent so far to blocking reads.\<close>

record Store =
  db :: NutsDB
  pending :: "bytes \<rightharpoonup> storeReq list"
  notified :: "storeReq list"

definition NewStore :: "NutsDB \<Rightarrow> Store" where
  "NewStore d = \<lparr>db = d, pending = Map.empty, notified = []\<rparr>"

text \<open>
  One turn of the goroutine's loop: the new state and the replies, the request's own reply
  first.
\<close>

definition Store_serve :: "('a store_env_scheme) \<Rightarrow> Store \<Rightarrow> storeReq \<Rightarrow> Store \<times> storeReq list" where
  "Store_serve E s req =
     (case rtyp req of
        READ \<Rightarrow>
          (s, [case NutsDB_Get E (db s) (key req) of
                 Inl e \<Rightarrow> req\<lparr>val := [], err := Some e\<rparr>
               | Inr v \<Rightarrow> req\<lparr>val := v, err := None\<rparr>])
      | WRITE \<Rightarrow>
          (let (d, e) = NutsDB_Put E (db s) (key req) (val req) in
           case pending s (key req) of
             None \<Rightarrow> (s\<lparr>db := d\<rparr>, [req\<lparr>err := e\<rparr>])
           | Some waiting \<Rightarrow>
               let woken = map (\<lambda>r. r\<lparr>val := val req\<rparr>) waiting in
               (s\<lparr>db := d, pending := (pending s)(key req := None),
                  notified := notified s @ woken\<rparr>,
                req\<lparr>err := e\<rparr> # woken))
      | NOTIFYREAD \<Rightarrow>
          (case NutsDB_Get E (db s) (key req) of
             Inr v \<Rightarrow> (s\<lparr>notified := notified s @ [req\<lparr>val := v\<rparr>]\<rparr>, [req\<lparr>val := v\<rparr>])
           | Inl _ \<Rightarrow>
               (let waiting = (case pending s (key req) of None \<Rightarrow> [] | Some w \<Rightarrow> w) in
                (s\<lparr>pending := (pending s)(key req \<mapsto> waiting @ [req])\<rparr>, []))))"

text \<open>A call sends its request and waits for its own reply, so it is one turn of the goroutine.\<close>

definition Store_Read :: "('a store_env_scheme) \<Rightarrow> Store \<Rightarrow> bytes \<Rightarrow> go_error + bytes" where
  "Store_Read E s k =
     (let resp = hd (snd (Store_serve E s \<lparr>rtyp = READ, key = k, val = [], err = None, done_ch = 0\<rparr>))
      in case err resp of None \<Rightarrow> Inr (val resp) | Some e \<Rightarrow> Inl e)"

definition Store_Write :: "('a store_env_scheme) \<Rightarrow> Store \<Rightarrow> bytes \<Rightarrow> bytes \<Rightarrow> Store \<times> go_error option" where
  "Store_Write E s k v =
     (let (s', resps) = Store_serve E s \<lparr>rtyp = WRITE, key = k, val = v, err = None, done_ch = 0\<rparr>
      in (s', err (hd resps)))"

definition Store_NotifyRead :: "('a store_env_scheme) \<Rightarrow> Store \<Rightarrow> bytes \<Rightarrow> nat \<Rightarrow> Store" where
  "Store_NotifyRead E s k ch =
     fst (Store_serve E s \<lparr>rtyp = NOTIFYREAD, key = k, val = [], err = None, done_ch = ch\<rparr>)"

section \<open>The key-value contract\<close>

locale kv_store =
  fixes kget :: "'s \<Rightarrow> bytes \<Rightarrow> go_error + bytes"
    and kput :: "'s \<Rightarrow> bytes \<Rightarrow> bytes \<Rightarrow> 's \<times> go_error option"
    and inv :: "'s \<Rightarrow> bool"
  assumes inv_write: "inv s \<Longrightarrow> inv (fst (kput s k v))"
    and read_written: "inv s \<Longrightarrow> kput s k v = (s', None) \<Longrightarrow> kget s' k = Inr v"
    and read_other: "inv s \<Longrightarrow> k' \<noteq> k \<Longrightarrow> kget (fst (kput s k v)) k' = kget s k'"
    and read_failed: "inv s \<Longrightarrow> kput s k v = (s', Some e) \<Longrightarrow> kget s' k' = kget s k'"
begin

lemma read_after_write:
  assumes "inv s"
  shows "kget (fst (kput s k v)) k' =
    (if k' = k \<and> snd (kput s k v) = None then Inr v else kget s k')"
proof (cases "snd (kput s k v)")
  case None
  then show ?thesis
    using assms read_written [OF assms, of k v "fst (kput s k v)"] read_other [OF assms, of k' k v]
    by (auto simp: prod_eq_iff)
next
  case (Some e)
  then show ?thesis
    using assms read_failed [OF assms, of k v "fst (kput s k v)" e] by (auto simp: prod_eq_iff)
qed

text \<open>A key once readable stays readable over any further writes.\<close>

lemma readable_persists:
  assumes "inv s" and "kget s k = Inr v"
  shows "\<exists>v'. kget (foldl (\<lambda>s (k, v). fst (kput s k v)) s kvs) k = Inr v'"
  using assms
proof (induction kvs arbitrary: s v)
  case Nil
  then show ?case by auto
next
  case (Cons kv kvs)
  obtain k' v' where kv: "kv = (k', v')" by (cases kv)
  have "inv (fst (kput s k' v'))" using Cons.prems(1) by (rule inv_write)
  moreover have "\<exists>w. kget (fst (kput s k' v')) k = Inr w"
    using Cons.prems by (auto simp: read_after_write)
  ultimately show ?case using Cons.IH kv by auto
qed

end

text \<open>
  A store of encoded blocks under a key of their own (their digest): what the consensus core
  and the mempool build on the key-value store.
\<close>

locale block_store = kv_store kget kput inv
  for kget :: "'s \<Rightarrow> bytes \<Rightarrow> go_error + bytes"
    and kput :: "'s \<Rightarrow> bytes \<Rightarrow> bytes \<Rightarrow> 's \<times> go_error option"
    and inv :: "'s \<Rightarrow> bool" +
  fixes blockkey :: "'b \<Rightarrow> bytes"
    and enc :: "'b \<Rightarrow> go_error + bytes"
    and dec :: "bytes \<Rightarrow> go_error + 'b"
    and faithful :: bool
  assumes dec_enc: "faithful \<Longrightarrow> enc b = Inr v \<Longrightarrow> dec v = Inr b"
begin

lemma load_stored:
  assumes "inv s" and "faithful" and "enc b = Inr v" and "kput s (blockkey b) v = (s', None)"
  shows "\<exists>w. kget s' (blockkey b) = Inr w \<and> dec w = Inr b"
  using read_written [OF assms(1,4)] dec_enc [OF assms(2,3)] by auto

end

definition store_inv :: "('a store_env_scheme) \<Rightarrow> Store \<Rightarrow> bool" where
  "store_inv E s \<longleftrightarrow>
     nutsdb_ok E \<and>
     (\<forall>k waiting. pending s k = Some waiting \<longrightarrow>
        waiting \<noteq> [] \<and> map_of (puts (db s)) k = None \<and>
        (\<forall>r \<in> set waiting. rtyp r = NOTIFYREAD \<and> key r = k))"

lemma NutsDB_Get_eq:
  "nutsdb_ok E \<Longrightarrow> NutsDB_Get E d k =
     (case map_of (puts d) k of None \<Rightarrow> Inl (nuts_nf E) | Some v \<Rightarrow> Inr v)"
  by (simp add: NutsDB_Get_def nutsdb_ok_def)

lemma Store_Read_eq:
  "nutsdb_ok E \<Longrightarrow> Store_Read E s k =
     (case map_of (puts (db s)) k of None \<Rightarrow> Inl (nuts_nf E) | Some v \<Rightarrow> Inr v)"
  by (simp add: Store_Read_def Store_serve_def NutsDB_Get_def nutsdb_ok_def split: option.splits)

lemma NutsDB_Put_cases:
  obtains (ok) "nuts_put E (puts d) k v = None" "NutsDB_Put E d k v = (d\<lparr>puts := (k, v) # puts d\<rparr>, None)"
  | (failed) e where "nuts_put E (puts d) k v = Some e" "NutsDB_Put E d k v = (d, Some e)"
  by (cases "nuts_put E (puts d) k v") (auto simp: NutsDB_Put_def)

lemma Store_Write_db: "db (fst (Store_Write E s k v)) = fst (NutsDB_Put E (db s) k v)"
  by (simp add: Store_Write_def Store_serve_def Let_def split: prod.splits option.splits)

lemma Store_Write_err: "snd (Store_Write E s k v) = snd (NutsDB_Put E (db s) k v)"
  by (simp add: Store_Write_def Store_serve_def Let_def split: prod.splits option.splits)

lemma Store_serve_inv: "store_inv E s \<Longrightarrow> store_inv E (fst (Store_serve E s req))"
proof (cases "rtyp req")
  case READ
  then show "store_inv E s \<Longrightarrow> ?thesis" by (simp add: Store_serve_def)
next
  case WRITE
  assume inv: "store_inv E s"
  show ?thesis
  proof (cases rule: NutsDB_Put_cases [of E "db s" "key req" "val req"])
    case ok
    with WRITE inv show ?thesis
      by (auto simp: Store_serve_def store_inv_def Let_def split: option.splits if_splits)
  next
    case (failed e)
    with WRITE inv show ?thesis
      by (auto simp: Store_serve_def store_inv_def Let_def split: option.splits if_splits)
  qed
next
  case NOTIFYREAD
  assume inv: "store_inv E s"
  show ?thesis
  proof (cases "map_of (puts (db s)) (key req)")
    case None
    with NOTIFYREAD inv show ?thesis
      by (cases "pending s (key req)")
        (auto simp: Store_serve_def NutsDB_Get_eq store_inv_def Let_def)
  next
    case (Some v)
    with NOTIFYREAD inv show ?thesis
      by (auto simp: Store_serve_def NutsDB_Get_eq store_inv_def)
  qed
qed

lemma Store_Write_serve:
  "fst (Store_Write E s k v) = fst (Store_serve E s \<lparr>rtyp = WRITE, key = k, val = v, err = None, done_ch = 0\<rparr>)"
  by (simp add: Store_Write_def split: prod.splits)

interpretation kv: kv_store "Store_Read E" "Store_Write E" "store_inv E" for E
proof
  fix s k v
  assume "store_inv E s"
  then show "store_inv E (fst (Store_Write E s k v))"
    by (simp add: Store_Write_serve Store_serve_inv)
next
  fix s k v s'
  assume inv: "store_inv E s" and w: "Store_Write E s k v = (s', None)"
  have "db s' = (db s)\<lparr>puts := (k, v) # puts (db s)\<rparr>"
    using Store_Write_db [of E s k v] Store_Write_err [of E s k v] w
    by (cases rule: NutsDB_Put_cases [of E "db s" k v]) auto
  with inv show "Store_Read E s' k = Inr v" by (simp add: Store_Read_eq store_inv_def)
next
  fix s v and k' k :: bytes
  assume "store_inv E s" and "k' \<noteq> k"
  then show "Store_Read E (fst (Store_Write E s k v)) k' = Store_Read E s k'"
    by (cases rule: NutsDB_Put_cases [of E "db s" k v])
      (auto simp: Store_Read_eq store_inv_def Store_Write_db)
next
  fix s k v s' e k'
  assume inv: "store_inv E s" and w: "Store_Write E s k v = (s', Some e)"
  have "db s' = db s"
    using Store_Write_db [of E s k v] Store_Write_err [of E s k v] w
    by (cases rule: NutsDB_Put_cases [of E "db s" k v]) auto
  with inv show "Store_Read E s' k' = Store_Read E s k'" by (simp add: Store_Read_eq store_inv_def)
qed

section \<open>Blocking reads\<close>

definition serve_all :: "('a store_env_scheme) \<Rightarrow> Store \<Rightarrow> storeReq list \<Rightarrow> Store" where
  "serve_all E s reqs = foldl (\<lambda>s r. fst (Store_serve E s r)) s reqs"

lemma serve_all_simps [simp]:
  "serve_all E s [] = s"
  "serve_all E s (r # rs) = serve_all E (fst (Store_serve E s r)) rs"
  by (simp_all add: serve_all_def)

lemma serve_all_append: "serve_all E s (rs @ rs') = serve_all E (serve_all E s rs) rs'"
  by (simp add: serve_all_def)

lemma serve_all_inv: "store_inv E s \<Longrightarrow> store_inv E (serve_all E s reqs)"
  by (induction reqs arbitrary: s) (auto intro: Store_serve_inv)

definition waiting_on :: "Store \<Rightarrow> bytes \<Rightarrow> nat set" where
  "waiting_on s k = (case pending s k of None \<Rightarrow> {} | Some w \<Rightarrow> done_ch ` set w)"

definition answered :: "Store \<Rightarrow> nat set" where
  "answered s = done_ch ` set (notified s)"

lemma answered_mono: "answered s \<subseteq> answered (fst (Store_serve E s r))"
  by (cases "rtyp r") (auto simp: Store_serve_def answered_def Let_def split: prod.splits option.splits sum.splits)

text \<open>One turn: a waiter keeps waiting or is answered.\<close>

lemma serve_keeps_waiter:
  "ch \<in> waiting_on s k \<Longrightarrow>
   ch \<in> waiting_on (fst (Store_serve E s r)) k \<or> ch \<in> answered (fst (Store_serve E s r))"
  by (cases "rtyp r")
    (auto simp: Store_serve_def waiting_on_def answered_def Let_def image_Un image_image
      split: prod.splits option.splits sum.splits)

lemma serve_all_keeps_waiter:
  "ch \<in> waiting_on s k \<or> ch \<in> answered s \<Longrightarrow>
   ch \<in> waiting_on (serve_all E s reqs) k \<or> ch \<in> answered (serve_all E s reqs)"
proof (induction reqs arbitrary: s)
  case Nil
  then show ?case by simp
next
  case (Cons r reqs)
  then have "ch \<in> waiting_on (fst (Store_serve E s r)) k \<or> ch \<in> answered (fst (Store_serve E s r))"
    using serve_keeps_waiter answered_mono by blast
  then show ?case using Cons.IH by simp
qed

lemma serve_notify:
  assumes "rtyp r = NOTIFYREAD"
  shows "done_ch r \<in> waiting_on (fst (Store_serve E s r)) (key r)
       \<or> done_ch r \<in> answered (fst (Store_serve E s r))"
  using assms
  by (auto simp: Store_serve_def waiting_on_def answered_def Let_def split: sum.splits option.splits)

lemma present_not_waiting:
  "store_inv E s \<Longrightarrow> map_of (puts (db s)) k \<noteq> None \<Longrightarrow> waiting_on s k = {}"
  by (cases "pending s k") (auto simp: store_inv_def waiting_on_def)

section \<open>Properties\<close>

text \<open>
  C31. A blocking read is never lost: after it was requested, whatever requests follow, it is
  still waiting or answered; and it is answered as soon as its key has been stored.
\<close>

theorem no_lost_waiter:
  assumes "store_inv E s" and "rtyp r = NOTIFYREAD"
  shows "let s' = serve_all E (fst (Store_serve E s r)) reqs in
    (done_ch r \<in> waiting_on s' (key r) \<or> done_ch r \<in> answered s') \<and>
    (map_of (puts (db s')) (key r) \<noteq> None \<longrightarrow> done_ch r \<in> answered s')"
proof -
  let ?s = "serve_all E (fst (Store_serve E s r)) reqs"
  have "store_inv E ?s" using assms(1) by (intro serve_all_inv Store_serve_inv)
  with serve_all_keeps_waiter [OF serve_notify [OF assms(2), of E s], of E reqs] present_not_waiting
  show ?thesis by (fastforce simp: Let_def)
qed

text \<open>A read returns the value last written under its key; a failed write changes no read.\<close>

theorem store_read_after_write:
  assumes "store_inv E s"
  shows "Store_Read E (fst (Store_Write E s k v)) k' =
    (if k' = k \<and> snd (Store_Write E s k v) = None then Inr v else Store_Read E s k')"
  by (rule kv.read_after_write [OF assms])

definition sample_store_env :: store_env where
  "sample_store_env =
     \<lparr>sha256 = (\<lambda>d. take 32 (d @ replicate 32 0)), ed_sign = (\<lambda>pri d. d), ed_verify = (\<lambda>pub d s. s = d),
      tbls_sign = (\<lambda>sh d. Inr d), tbls_recover = (\<lambda>pub d shares t n. Inr (take 3 (d @ [0, 0, 0]))),
      nuts_get = (\<lambda>h k. case map_of h k of None \<Rightarrow> Inl (ErrExternal ''key not found'') | Some v \<Rightarrow> Inr v),
      nuts_put = (\<lambda>h k v. None), nuts_nf = ErrExternal ''key not found''\<rparr>"

lemma sample_store_inv: "store_inv sample_store_env (NewStore NewDefaultNutsDB)"
  by (simp add: store_inv_def nutsdb_ok_def sample_store_env_def NewStore_def split: option.split)

theorem no_lost_waiter_witness:
  "let s' = serve_all sample_store_env (fst (Store_serve sample_store_env (NewStore NewDefaultNutsDB)
         \<lparr>rtyp = NOTIFYREAD, key = [1], val = [], err = None, done_ch = 7\<rparr>))
       [\<lparr>rtyp = WRITE, key = [1], val = [5], err = None, done_ch = 0\<rparr>]
   in map_of (puts (db s')) [1] \<noteq> None \<and> 7 \<in> answered s'"
proof -
  have "map_of (puts (db (serve_all sample_store_env (fst (Store_serve sample_store_env (NewStore NewDefaultNutsDB)
         \<lparr>rtyp = NOTIFYREAD, key = [1], val = [], err = None, done_ch = 7\<rparr>))
       [\<lparr>rtyp = WRITE, key = [1], val = [5], err = None, done_ch = 0\<rparr>]))) [1] \<noteq> None"
    by (simp add: Store_serve_def sample_store_env_def NewStore_def NewDefaultNutsDB_def NutsDB_Get_def NutsDB_Put_def Let_def)
  then show ?thesis
    using no_lost_waiter [OF sample_store_inv,
        of "\<lparr>rtyp = NOTIFYREAD, key = [1], val = [], err = None, done_ch = 7\<rparr>"
           "[\<lparr>rtyp = WRITE, key = [1], val = [5], err = None, done_ch = 0\<rparr>]"]
    by (simp add: Let_def)
qed

theorem store_read_after_write_witness:
  "Store_Read sample_store_env (fst (Store_Write sample_store_env (NewStore NewDefaultNutsDB) [1] [5])) [1] = Inr [5]"
  using store_read_after_write [OF sample_store_inv, of "[1]" "[5]" "[1]"]
  by (simp add: Store_Write_err NutsDB_Put_def sample_store_env_def)

end
