(* ===== verification/Mempool_Message.thy ===== *)
theory Mempool_Message
  imports Core_Config Pool Store
begin

text \<open>
  \<^verbatim>\<open>mempool/message.go\<close>: the blocks of transactions, their digest, signature and storage form,
  and the messages between mempools, the synchronizer and the consensus core. Reply channels
  carried by a message are left out: the request and its answer are one call in the model.
  A pointer that may be nil is an option.

  The gob encoding of a block is a parameter (\<open>gob_enc_Block\<close>, \<open>gob_dec_Block\<close>); \<open>gob_Block_ok\<close>
  says that decoding inverts encoding. \<open>map_order\<close> is the order in which one iteration visits
  the keys of a Go map.
\<close>

record Block =
  bProposer :: NodeID
  bBatch :: Batch
  bSignature :: Signature

record mempool_env = store_env +
  gob_enc_Block :: "Block \<Rightarrow> go_error + bytes"
  gob_dec_Block :: "bytes \<Rightarrow> go_error + Block"
  map_order :: "Digest set \<Rightarrow> Digest list"

definition gob_Block_ok :: "('a mempool_env_scheme) \<Rightarrow> bool" where
  "gob_Block_ok E \<longleftrightarrow> (\<forall>b v. gob_enc_Block E b = Inr v \<longrightarrow> gob_dec_Block E v = Inr b)"

text \<open>An iteration over a finite map visits every key exactly once.\<close>

definition map_order_ok :: "('a mempool_env_scheme) \<Rightarrow> bool" where
  "map_order_ok E \<longleftrightarrow>
     (\<forall>K. finite K \<longrightarrow> distinct (map_order E K) \<and> set (map_order E K) = K)"

definition Block_Hash :: "('a crypto_env_scheme) \<Rightarrow> Block \<Rightarrow> Digest" where
  "Block_Hash E b =
     hash_parts E ([AppendInt (bProposer b), AppendInt (ID (bBatch b))] @ Txs (bBatch b))"

definition NewBlock ::
  "('a crypto_env_scheme) \<Rightarrow> NodeID \<Rightarrow> Batch \<Rightarrow> SigService \<Rightarrow> go_error + Block" where
  "NewBlock E proposer batch sigService =
     (let block = \<lparr>bProposer = proposer, bBatch = batch, bSignature = \<lparr>Sig = []\<rparr>\<rparr> in
      case RequestSignature E sigService (Block_Hash E block) of
        Inl e \<Rightarrow> Inl e
      | Inr sig \<Rightarrow> Inr (block\<lparr>bSignature := sig\<rparr>))"

definition Block_Encode :: "('a mempool_env_scheme) \<Rightarrow> Block \<Rightarrow> go_error + bytes" where
  "Block_Encode E b = gob_enc_Block E b"

definition Block_Decode :: "('a mempool_env_scheme) \<Rightarrow> bytes \<Rightarrow> go_error + Block" where
  "Block_Decode E d = gob_dec_Block E d"

definition Block_Verify :: "('a crypto_env_scheme) \<Rightarrow> Committee \<Rightarrow> Block \<Rightarrow> bool outcome" where
  "Block_Verify E c b = Signature_Verify E (bSignature b) (Committee_Name c (bProposer b)) (Block_Hash E b)"

datatype VerifyStatus = OK | Wait | Reject

datatype mempool_msg =
    OwnBlockMsg "Block option"
  | OtherBlockMsg "Block option"
  | RequestBlockMsg int "Digest list" NodeID
  | MakeConsensusBlockMsg int
  | VerifyBlockMsg NodeID int "Digest list" Digest
  | CleanBlockMsg "Digest list" int
  | SyncBlockMsg "Digest list" NodeID int Digest
  | SyncCleanUpBlockMsg int
  | LoopBackMsg Digest

fun mempool_MsgType :: "mempool_msg \<Rightarrow> int" where
  "mempool_MsgType (OwnBlockMsg _) = 12"
| "mempool_MsgType (OtherBlockMsg _) = 13"
| "mempool_MsgType (RequestBlockMsg _ _ _) = 14"
| "mempool_MsgType (MakeConsensusBlockMsg _) = 15"
| "mempool_MsgType (VerifyBlockMsg _ _ _ _) = 16"
| "mempool_MsgType (CleanBlockMsg _ _) = 17"
| "mempool_MsgType (SyncBlockMsg _ _ _ _) = 18"
| "mempool_MsgType (SyncCleanUpBlockMsg _) = 19"
| "mempool_MsgType (LoopBackMsg _) = 20"

fun mempool_Module :: "mempool_msg \<Rightarrow> string" where
  "mempool_Module (MakeConsensusBlockMsg _) = ''connect''"
| "mempool_Module (VerifyBlockMsg _ _ _ _) = ''connect''"
| "mempool_Module (CleanBlockMsg _ _) = ''connect''"
| "mempool_Module (LoopBackMsg _) = ''consensus''"
| "mempool_Module _ = ''mempool''"

definition LoopBackMsg_Hash :: "('a crypto_env_scheme) \<Rightarrow> Digest \<Rightarrow> Digest" where
  "LoopBackMsg_Hash E blockHash = fst (Hasher_Sum256 E NewHasher blockHash)"

text \<open>The keys of \<^verbatim>\<open>DefaultMessageTypeMap\<close>.\<close>

definition mempool_types :: "int set" where
  "mempool_types = {12, 13, 14, 15, 16, 17, 18, 19, 20}"

lemma mempool_MsgType_known: "mempool_MsgType m \<in> mempool_types"
  by (cases m) (auto simp: mempool_types_def)

lemma NewBlock_eq:
  "NewBlock E p b s =
     (let block = \<lparr>bProposer = p, bBatch = b, bSignature = \<lparr>Sig = []\<rparr>\<rparr> in
      Inr (block\<lparr>bSignature := \<lparr>Sig = ed_sign E (Prikey (PriKey s)) (Block_Hash E block)\<rparr>\<rparr>))"
  by (simp add: NewBlock_def RequestSignature_def Let_def)

text \<open>The digest does not cover the signature, so signing does not change it.\<close>

lemma Block_Hash_signature [simp]: "Block_Hash E (b\<lparr>bSignature := s\<rparr>) = Block_Hash E b"
  by (simp add: Block_Hash_def)

end
