(* ===== verification/Messages.thy ===== *)
theory Messages
  imports Mempool_Message
begin

text \<open>
  \<^verbatim>\<open>core/smvba/consensus/message.go\<close>: the consensus block and the eight protocol messages, each
  with its constructor, its digest and its signature check.

  A struct is a record whose fields carry the message's name as prefix. \<^verbatim>\<open>SPBProposal.B\<close> is a
  pointer and may be nil when it comes from the network, so it is an option; the \<open>MElectShare\<close>
  constructor carries an option because \<^verbatim>\<open>invokeDoneAndShare\<close> sends the nil pointer when
  signing the share failed.
\<close>

section \<open>Constants\<close>

abbreviation (input) SPB_ONE_PHASE :: int where "SPB_ONE_PHASE \<equiv> 0"
abbreviation (input) SPB_TWO_PHASE :: int where "SPB_TWO_PHASE \<equiv> 1"
abbreviation (input) VOTE_FLAG_YES :: int where "VOTE_FLAG_YES \<equiv> 0"
abbreviation (input) VOTE_FLAG_NO :: int where "VOTE_FLAG_NO \<equiv> 1"

abbreviation (input) SPBProposalType :: int where "SPBProposalType \<equiv> 0"
abbreviation (input) SPBVoteType :: int where "SPBVoteType \<equiv> 1"
abbreviation (input) FinishType :: int where "FinishType \<equiv> 2"
abbreviation (input) DoneType :: int where "DoneType \<equiv> 3"
abbreviation (input) ElectShareType :: int where "ElectShareType \<equiv> 4"
abbreviation (input) PrevoteType :: int where "PrevoteType \<equiv> 5"
abbreviation (input) FinVoteType :: int where "FinVoteType \<equiv> 6"
abbreviation (input) HaltType :: int where "HaltType \<equiv> 7"

abbreviation (input) no_sig :: Signature where "no_sig \<equiv> \<lparr>Sig = []\<rparr>"

section \<open>The consensus block\<close>

record ConsensusBlock =
  cbProposer :: NodeID
  cbPayLoads :: "Digest list"
  cbEpoch :: int

record consensus_env = mempool_env +
  gob_enc_CB :: "ConsensusBlock \<Rightarrow> go_error + bytes"
  gob_dec_CB :: "bytes \<Rightarrow> go_error + ConsensusBlock"

definition gob_CB_ok :: "('a consensus_env_scheme) \<Rightarrow> bool" where
  "gob_CB_ok E \<longleftrightarrow> (\<forall>b v. gob_enc_CB E b = Inr v \<longrightarrow> gob_dec_CB E v = Inr b)"

definition NewConsensusBlock :: "NodeID \<Rightarrow> Digest list \<Rightarrow> int \<Rightarrow> ConsensusBlock" where
  "NewConsensusBlock proposer payloads epoch =
     \<lparr>cbProposer = proposer, cbPayLoads = payloads, cbEpoch = epoch\<rparr>"

definition ConsensusBlock_Encode :: "('a consensus_env_scheme) \<Rightarrow> ConsensusBlock \<Rightarrow> go_error + bytes" where
  "ConsensusBlock_Encode E b = gob_enc_CB E b"

definition ConsensusBlock_Decode :: "('a consensus_env_scheme) \<Rightarrow> bytes \<Rightarrow> go_error + ConsensusBlock" where
  "ConsensusBlock_Decode E d = gob_dec_CB E d"

definition ConsensusBlock_Hash :: "('a crypto_env_scheme) \<Rightarrow> ConsensusBlock \<Rightarrow> Digest" where
  "ConsensusBlock_Hash E b =
     hash_parts E ([AppendInt (cbProposer b)] @ cbPayLoads b @ [AppendInt (cbEpoch b)])"

section \<open>Proposals and votes of the provable broadcast\<close>

record SPBProposal =
  pAuthor :: NodeID
  pB :: "ConsensusBlock option"
  pEpoch :: int
  pRound :: int
  pPhase :: int
  pSignature :: Signature

definition SPBProposal_Hash :: "('a crypto_env_scheme) \<Rightarrow> SPBProposal \<Rightarrow> Digest" where
  "SPBProposal_Hash E p =
     hash_parts E ([AppendInt (pAuthor p), AppendInt (pEpoch p), AppendInt (pRound p), AppendInt (pPhase p)]
       @ (case pB p of None \<Rightarrow> [] | Some b \<Rightarrow> [ConsensusBlock_Hash E b]))"

definition NewSPBProposal ::
  "('a crypto_env_scheme) \<Rightarrow> NodeID \<Rightarrow> ConsensusBlock option \<Rightarrow> int \<Rightarrow> int \<Rightarrow> int \<Rightarrow> SigService
   \<Rightarrow> go_error + SPBProposal" where
  "NewSPBProposal E author b epoch round phase sigService =
     (let proposal = \<lparr>pAuthor = author, pB = b, pEpoch = epoch, pRound = round, pPhase = phase,
                      pSignature = no_sig\<rparr> in
      case RequestSignature E sigService (SPBProposal_Hash E proposal) of
        Inl e \<Rightarrow> Inl e
      | Inr sig \<Rightarrow> Inr (proposal\<lparr>pSignature := sig\<rparr>))"

definition SPBProposal_Verify :: "('a crypto_env_scheme) \<Rightarrow> Committee \<Rightarrow> SPBProposal \<Rightarrow> bool outcome" where
  "SPBProposal_Verify E c p =
     Signature_Verify E (pSignature p) (Committee_Name c (pAuthor p)) (SPBProposal_Hash E p)"

record SPBVote =
  vAuthor :: NodeID
  vProposer :: NodeID
  vBlockHash :: Digest
  vEpoch :: int
  vRound :: int
  vPhase :: int
  vSignature :: Signature

definition SPBVote_Hash :: "('a crypto_env_scheme) \<Rightarrow> SPBVote \<Rightarrow> Digest" where
  "SPBVote_Hash E v =
     hash_parts E [AppendInt (vAuthor v), AppendInt (vEpoch v), AppendInt (vRound v),
       AppendInt (vPhase v), vBlockHash v]"

definition NewSPBVote ::
  "('a crypto_env_scheme) \<Rightarrow> NodeID \<Rightarrow> NodeID \<Rightarrow> Digest \<Rightarrow> int \<Rightarrow> int \<Rightarrow> int \<Rightarrow> SigService
   \<Rightarrow> go_error + SPBVote" where
  "NewSPBVote E author proposer blockHash epoch round phase sigService =
     (let vote = \<lparr>vAuthor = author, vProposer = proposer, vBlockHash = blockHash, vEpoch = epoch,
                  vRound = round, vPhase = phase, vSignature = no_sig\<rparr> in
      case RequestSignature E sigService (SPBVote_Hash E vote) of
        Inl e \<Rightarrow> Inl e
      | Inr sig \<Rightarrow> Inr (vote\<lparr>vSignature := sig\<rparr>))"

definition SPBVote_Verify :: "('a crypto_env_scheme) \<Rightarrow> Committee \<Rightarrow> SPBVote \<Rightarrow> bool outcome" where
  "SPBVote_Verify E c v =
     Signature_Verify E (vSignature v) (Committee_Name c (vAuthor v)) (SPBVote_Hash E v)"

section \<open>Finish and Done\<close>

record Finish =
  fAuthor :: NodeID
  fBlockHash :: Digest
  fEpoch :: int
  fRound :: int
  fSignature :: Signature

definition Finish_Hash :: "('a crypto_env_scheme) \<Rightarrow> Finish \<Rightarrow> Digest" where
  "Finish_Hash E f =
     hash_parts E [fBlockHash f, AppendInt (fAuthor f), AppendInt (fEpoch f), AppendInt (fRound f)]"

definition NewFinish ::
  "('a crypto_env_scheme) \<Rightarrow> NodeID \<Rightarrow> Digest \<Rightarrow> int \<Rightarrow> int \<Rightarrow> SigService \<Rightarrow> go_error + Finish" where
  "NewFinish E author blockHash epoch round sigService =
     (let finish = \<lparr>fAuthor = author, fBlockHash = blockHash, fEpoch = epoch, fRound = round,
                    fSignature = no_sig\<rparr> in
      case RequestSignature E sigService (Finish_Hash E finish) of
        Inl e \<Rightarrow> Inl e
      | Inr sig \<Rightarrow> Inr (finish\<lparr>fSignature := sig\<rparr>))"

definition Finish_Verify :: "('a crypto_env_scheme) \<Rightarrow> Committee \<Rightarrow> Finish \<Rightarrow> bool outcome" where
  "Finish_Verify E c f =
     Signature_Verify E (fSignature f) (Committee_Name c (fAuthor f)) (Finish_Hash E f)"

record Done =
  dAuthor :: NodeID
  dEpoch :: int
  dRound :: int
  dSignature :: Signature

definition Done_Hash :: "('a crypto_env_scheme) \<Rightarrow> Done \<Rightarrow> Digest" where
  "Done_Hash E d = hash_parts E [AppendInt (dAuthor d), AppendInt (dEpoch d), AppendInt (dRound d)]"

definition NewDone ::
  "('a crypto_env_scheme) \<Rightarrow> NodeID \<Rightarrow> int \<Rightarrow> int \<Rightarrow> SigService \<Rightarrow> go_error + Done" where
  "NewDone E author epoch round sigService =
     (let done = \<lparr>dAuthor = author, dEpoch = epoch, dRound = round, dSignature = no_sig\<rparr> in
      case RequestSignature E sigService (Done_Hash E done) of
        Inl e \<Rightarrow> Inl e
      | Inr sig \<Rightarrow> Inr (done\<lparr>dSignature := sig\<rparr>))"

definition Done_Verify :: "('a crypto_env_scheme) \<Rightarrow> Committee \<Rightarrow> Done \<Rightarrow> bool outcome" where
  "Done_Verify E c d =
     Signature_Verify E (dSignature d) (Committee_Name c (dAuthor d)) (Done_Hash E d)"

section \<open>Coin shares\<close>

record ElectShare =
  eAuthor :: NodeID
  eEpoch :: int
  eRound :: int
  eSigShare :: SignatureShare

definition ElectShare_Hash :: "('a crypto_env_scheme) \<Rightarrow> ElectShare \<Rightarrow> Digest" where
  "ElectShare_Hash E e = hash_parts E [AppendInt (eEpoch e), AppendInt (eRound e)]"

definition NewElectShare ::
  "('a crypto_env_scheme) \<Rightarrow> NodeID \<Rightarrow> int \<Rightarrow> int \<Rightarrow> SigService \<Rightarrow> go_error + ElectShare" where
  "NewElectShare E author epoch round sigService =
     (let elect = \<lparr>eAuthor = author, eEpoch = epoch, eRound = round, eSigShare = \<lparr>PartialSig = []\<rparr>\<rparr> in
      case RequestTsSugnature E sigService (ElectShare_Hash E elect) of
        Inl e \<Rightarrow> Inl e
      | Inr sig \<Rightarrow> Inr (elect\<lparr>eSigShare := sig\<rparr>))"

definition ElectShare_Verify :: "('a crypto_env_scheme) \<Rightarrow> Committee \<Rightarrow> ElectShare \<Rightarrow> bool outcome" where
  "ElectShare_Verify E c e = Ret (SignatureShare_Verify (eSigShare e) (ElectShare_Hash E e))"

section \<open>Prevotes and final votes\<close>

record Prevote =
  pvAuthor :: NodeID
  pvLeader :: NodeID
  pvEpoch :: int
  pvRound :: int
  pvFlag :: int
  pvBlockHash :: Digest
  pvSignature :: Signature

definition Prevote_Hash :: "('a crypto_env_scheme) \<Rightarrow> Prevote \<Rightarrow> Digest" where
  "Prevote_Hash E p =
     hash_parts E [AppendInt (pvAuthor p), AppendInt (pvLeader p), AppendInt (pvEpoch p),
       AppendInt (pvRound p), AppendInt (pvFlag p), pvBlockHash p]"

definition NewPrevote ::
  "('a crypto_env_scheme) \<Rightarrow> NodeID \<Rightarrow> NodeID \<Rightarrow> int \<Rightarrow> int \<Rightarrow> int \<Rightarrow> Digest \<Rightarrow> SigService
   \<Rightarrow> go_error + Prevote" where
  "NewPrevote E author leader epoch round flag blockHash sigService =
     (let prevote = \<lparr>pvAuthor = author, pvLeader = leader, pvEpoch = epoch, pvRound = round,
                     pvFlag = flag, pvBlockHash = blockHash, pvSignature = no_sig\<rparr> in
      case RequestSignature E sigService (Prevote_Hash E prevote) of
        Inl e \<Rightarrow> Inl e
      | Inr sig \<Rightarrow> Inr (prevote\<lparr>pvSignature := sig\<rparr>))"

definition Prevote_Verify :: "('a crypto_env_scheme) \<Rightarrow> Committee \<Rightarrow> Prevote \<Rightarrow> bool outcome" where
  "Prevote_Verify E c p =
     Signature_Verify E (pvSignature p) (Committee_Name c (pvAuthor p)) (Prevote_Hash E p)"

record FinVote =
  fvAuthor :: NodeID
  fvLeader :: NodeID
  fvEpoch :: int
  fvRound :: int
  fvFlag :: int
  fvBlockHash :: Digest
  fvSignature :: Signature

definition FinVote_Hash :: "('a crypto_env_scheme) \<Rightarrow> FinVote \<Rightarrow> Digest" where
  "FinVote_Hash E p =
     hash_parts E [AppendInt (fvAuthor p), AppendInt (fvLeader p), AppendInt (fvEpoch p),
       AppendInt (fvRound p), AppendInt (fvFlag p), fvBlockHash p]"

text \<open>The composite literal sets no \<^verbatim>\<open>Leader\<close>: the field keeps its zero value.\<close>

definition NewFinVote ::
  "('a crypto_env_scheme) \<Rightarrow> NodeID \<Rightarrow> NodeID \<Rightarrow> int \<Rightarrow> int \<Rightarrow> int \<Rightarrow> Digest \<Rightarrow> SigService
   \<Rightarrow> go_error + FinVote" where
  "NewFinVote E author leader epoch round flag blockHash sigService =
     (let prevote = \<lparr>fvAuthor = author, fvLeader = 0, fvEpoch = epoch, fvRound = round,
                     fvFlag = flag, fvBlockHash = blockHash, fvSignature = no_sig\<rparr> in
      case RequestSignature E sigService (FinVote_Hash E prevote) of
        Inl e \<Rightarrow> Inl e
      | Inr sig \<Rightarrow> Inr (prevote\<lparr>fvSignature := sig\<rparr>))"

definition FinVote_Verify :: "('a crypto_env_scheme) \<Rightarrow> Committee \<Rightarrow> FinVote \<Rightarrow> bool outcome" where
  "FinVote_Verify E c p =
     Signature_Verify E (fvSignature p) (Committee_Name c (fvAuthor p)) (FinVote_Hash E p)"

section \<open>Halt\<close>

record Halt =
  hAuthor :: NodeID
  hEpoch :: int
  hRound :: int
  hLeader :: NodeID
  hBlockHash :: Digest
  hSignature :: Signature

definition Halt_Hash :: "('a crypto_env_scheme) \<Rightarrow> Halt \<Rightarrow> Digest" where
  "Halt_Hash E h =
     hash_parts E [AppendInt (hAuthor h), AppendInt (hEpoch h), AppendInt (hLeader h), hBlockHash h]"

definition NewHalt ::
  "('a crypto_env_scheme) \<Rightarrow> NodeID \<Rightarrow> NodeID \<Rightarrow> Digest \<Rightarrow> int \<Rightarrow> int \<Rightarrow> SigService \<Rightarrow> go_error + Halt" where
  "NewHalt E author leader blockHash epoch round sigService =
     (let h = \<lparr>hAuthor = author, hEpoch = epoch, hRound = round, hLeader = leader,
               hBlockHash = blockHash, hSignature = no_sig\<rparr> in
      case RequestSignature E sigService (Halt_Hash E h) of
        Inl e \<Rightarrow> Inl e
      | Inr sig \<Rightarrow> Inr (h\<lparr>hSignature := sig\<rparr>))"

definition Halt_Verify :: "('a crypto_env_scheme) \<Rightarrow> Committee \<Rightarrow> Halt \<Rightarrow> bool outcome" where
  "Halt_Verify E c h =
     Signature_Verify E (hSignature h) (Committee_Name c (hAuthor h)) (Halt_Hash E h)"

section \<open>The message union\<close>

datatype message =
    MProposal SPBProposal
  | MVote SPBVote
  | MFinish Finish
  | MDone Done
  | MElectShare "ElectShare option"
  | MPrevote Prevote
  | MFinVote FinVote
  | MHalt Halt

text \<open>The methods of the \<^verbatim>\<open>Messgae\<close> interface; they do not read their receiver, which may be nil.\<close>

definition SPBProposal_MsgType :: "SPBProposal \<Rightarrow> int" where
  "SPBProposal_MsgType _ = SPBProposalType"

definition SPBProposal_Module :: "SPBProposal \<Rightarrow> string" where
  "SPBProposal_Module _ = ''consensus''"

definition SPBVote_MsgType :: "SPBVote \<Rightarrow> int" where
  "SPBVote_MsgType _ = SPBVoteType"

definition SPBVote_Module :: "SPBVote \<Rightarrow> string" where
  "SPBVote_Module _ = ''consensus''"

definition Finish_MsgType :: "Finish \<Rightarrow> int" where
  "Finish_MsgType _ = FinishType"

definition Finish_Module :: "Finish \<Rightarrow> string" where
  "Finish_Module _ = ''consensus''"

definition Done_MsgType :: "Done \<Rightarrow> int" where
  "Done_MsgType _ = DoneType"

definition Done_Module :: "Done \<Rightarrow> string" where
  "Done_Module _ = ''consensus''"

definition ElectShare_MsgType :: "ElectShare option \<Rightarrow> int" where
  "ElectShare_MsgType _ = ElectShareType"

definition ElectShare_Module :: "ElectShare option \<Rightarrow> string" where
  "ElectShare_Module _ = ''consensus''"

definition Prevote_MsgType :: "Prevote \<Rightarrow> int" where
  "Prevote_MsgType _ = PrevoteType"

definition Prevote_Module :: "Prevote \<Rightarrow> string" where
  "Prevote_Module _ = ''consensus''"

definition FinVote_MsgType :: "FinVote \<Rightarrow> int" where
  "FinVote_MsgType _ = FinVoteType"

definition FinVote_Module :: "FinVote \<Rightarrow> string" where
  "FinVote_Module _ = ''consensus''"

definition Halt_MsgType :: "Halt \<Rightarrow> int" where
  "Halt_MsgType _ = HaltType"

definition Halt_Module :: "Halt \<Rightarrow> string" where
  "Halt_Module _ = ''consensus''"

fun MsgType :: "message \<Rightarrow> int" where
  "MsgType (MProposal m) = SPBProposal_MsgType m"
| "MsgType (MVote m) = SPBVote_MsgType m"
| "MsgType (MFinish m) = Finish_MsgType m"
| "MsgType (MDone m) = Done_MsgType m"
| "MsgType (MElectShare m) = ElectShare_MsgType m"
| "MsgType (MPrevote m) = Prevote_MsgType m"
| "MsgType (MFinVote m) = FinVote_MsgType m"
| "MsgType (MHalt m) = Halt_MsgType m"

fun Module :: "message \<Rightarrow> string" where
  "Module (MProposal m) = SPBProposal_Module m"
| "Module (MVote m) = SPBVote_Module m"
| "Module (MFinish m) = Finish_Module m"
| "Module (MDone m) = Done_Module m"
| "Module (MElectShare m) = ElectShare_Module m"
| "Module (MPrevote m) = Prevote_Module m"
| "Module (MFinVote m) = FinVote_Module m"
| "Module (MHalt m) = Halt_Module m"

text \<open>The keys of \<^verbatim>\<open>DefaultMessageTypeMap\<close>.\<close>

definition consensus_types :: "int set" where
  "consensus_types = {0, 1, 2, 3, 4, 5, 6, 7}"

lemmas MsgType_defs = SPBProposal_MsgType_def SPBVote_MsgType_def Finish_MsgType_def Done_MsgType_def
  ElectShare_MsgType_def Prevote_MsgType_def FinVote_MsgType_def Halt_MsgType_def

lemmas Module_defs = SPBProposal_Module_def SPBVote_Module_def Finish_Module_def Done_Module_def
  ElectShare_Module_def Prevote_Module_def FinVote_Module_def Halt_Module_def

lemma Module_consensus: "Module m = ''consensus''"
  by (cases m) (simp_all add: Module_defs)

lemma MsgType_registered: "MsgType m \<in> consensus_types"
  by (cases m) (simp_all add: MsgType_defs consensus_types_def)

text \<open>The \<^verbatim>\<open>Validator\<close> interface; a nil receiver is dereferenced.\<close>

fun message_Verify :: "('a crypto_env_scheme) \<Rightarrow> Committee \<Rightarrow> message \<Rightarrow> bool outcome" where
  "message_Verify E c (MProposal p) = SPBProposal_Verify E c p"
| "message_Verify E c (MVote v) = SPBVote_Verify E c v"
| "message_Verify E c (MFinish f) = Finish_Verify E c f"
| "message_Verify E c (MDone d) = Done_Verify E c d"
| "message_Verify E c (MElectShare None) = Panic ''nil pointer dereference''"
| "message_Verify E c (MElectShare (Some e)) = ElectShare_Verify E c e"
| "message_Verify E c (MPrevote p) = Prevote_Verify E c p"
| "message_Verify E c (MFinVote p) = FinVote_Verify E c p"
| "message_Verify E c (MHalt h) = Halt_Verify E c h"

text \<open>Who a message says it is from.\<close>

fun message_author :: "message \<Rightarrow> NodeID" where
  "message_author (MProposal p) = pAuthor p"
| "message_author (MVote v) = vAuthor v"
| "message_author (MFinish f) = fAuthor f"
| "message_author (MDone d) = dAuthor d"
| "message_author (MElectShare e) = (case e of None \<Rightarrow> NONE | Some s \<Rightarrow> eAuthor s)"
| "message_author (MPrevote p) = pvAuthor p"
| "message_author (MFinVote p) = fvAuthor p"
| "message_author (MHalt h) = hAuthor h"

fun is_share :: "message \<Rightarrow> bool" where
  "is_share (MElectShare _) = True"
| "is_share _ = False"

section \<open>The signature contract\<close>

text \<open>
  Every signed message is checked the same way: the author's key of the committee over the
  message's digest. A message of an author the committee does not have reaches
  \<^verbatim>\<open>ed25519.Verify\<close> with an empty key.
\<close>

locale signed_message =
  fixes E :: "'e crypto_env_scheme"
    and msg_author :: "'m \<Rightarrow> NodeID"
    and msg_sig :: "'m \<Rightarrow> Signature"
    and msg_hash :: "'m \<Rightarrow> Digest"
    and msg_verify :: "Committee \<Rightarrow> 'm \<Rightarrow> bool outcome"
  assumes verify_checks_author:
    "msg_verify c m = Signature_Verify E (msg_sig m) (Committee_Name c (msg_author m)) (msg_hash m)"
begin

lemma foreign_author_panics:
  "msg_author m \<notin> members c \<Longrightarrow> msg_verify c m = Panic ''ed25519: bad public key length''"
  by (simp add: verify_checks_author Signature_Verify_def Committee_Name_not_member)

lemma signed_verifies:
  assumes "ed25519_ok E pri (Pubkey (Committee_Name c (msg_author m)))"
    and "msg_sig m = \<lparr>Sig = ed_sign E pri (msg_hash m)\<rparr>"
  shows "msg_verify c m = Ret True"
  using assms by (simp add: verify_checks_author Signature_Verify_def ed25519_ok_def)

lemma verified_from_member:
  "msg_verify c m = Ret b \<Longrightarrow> msg_author m \<in> members c"
  using foreign_author_panics [of m c] by (cases "msg_author m \<in> members c") auto

end

interpretation smProposal: signed_message E pAuthor pSignature "SPBProposal_Hash E" "SPBProposal_Verify E" for E
  by unfold_locales (simp add: SPBProposal_Verify_def)

interpretation smVote: signed_message E vAuthor vSignature "SPBVote_Hash E" "SPBVote_Verify E" for E
  by unfold_locales (simp add: SPBVote_Verify_def)

interpretation smFinish: signed_message E fAuthor fSignature "Finish_Hash E" "Finish_Verify E" for E
  by unfold_locales (simp add: Finish_Verify_def)

interpretation smDone: signed_message E dAuthor dSignature "Done_Hash E" "Done_Verify E" for E
  by unfold_locales (simp add: Done_Verify_def)

interpretation smPrevote: signed_message E pvAuthor pvSignature "Prevote_Hash E" "Prevote_Verify E" for E
  by unfold_locales (simp add: Prevote_Verify_def)

interpretation smFinVote: signed_message E fvAuthor fvSignature "FinVote_Hash E" "FinVote_Verify E" for E
  by unfold_locales (simp add: FinVote_Verify_def)

interpretation smHalt: signed_message E hAuthor hSignature "Halt_Hash E" "Halt_Verify E" for E
  by unfold_locales (simp add: Halt_Verify_def)

interpretation smBlock: signed_message E bProposer bSignature "Block_Hash E" "Block_Verify E" for E
  by unfold_locales (simp add: Block_Verify_def)

lemma NewBlock_verifies:
  assumes "ed25519_ok E (Prikey (PriKey s)) (Pubkey (Committee_Name c author))"
    and "NewBlock E author batch s = Inr b"
  shows "Block_Verify E c b = Ret True"
proof -
  from assms(2) have "bProposer b = author" "bSignature b = \<lparr>Sig = ed_sign E (Prikey (PriKey s)) (Block_Hash E b)\<rparr>"
    by (auto simp: NewBlock_def RequestSignature_def Block_Hash_def Let_def)
  with assms(1) smBlock.signed_verifies [of E _ c b] show ?thesis by simp
qed

text \<open>A message that carries the signature the given service makes over its digest.\<close>

fun authentic :: "('a crypto_env_scheme) \<Rightarrow> SigService \<Rightarrow> message \<Rightarrow> bool" where
  "authentic E s (MProposal p) \<longleftrightarrow> RequestSignature E s (SPBProposal_Hash E p) = Inr (pSignature p)"
| "authentic E s (MVote v) \<longleftrightarrow> RequestSignature E s (SPBVote_Hash E v) = Inr (vSignature v)"
| "authentic E s (MFinish f) \<longleftrightarrow> RequestSignature E s (Finish_Hash E f) = Inr (fSignature f)"
| "authentic E s (MDone d) \<longleftrightarrow> RequestSignature E s (Done_Hash E d) = Inr (dSignature d)"
| "authentic E s (MElectShare None) \<longleftrightarrow> (\<exists>d. isl (RequestTsSugnature E s d))"
| "authentic E s (MElectShare (Some e)) \<longleftrightarrow>
     RequestTsSugnature E s (ElectShare_Hash E e) = Inr (eSigShare e)"
| "authentic E s (MPrevote p) \<longleftrightarrow> RequestSignature E s (Prevote_Hash E p) = Inr (pvSignature p)"
| "authentic E s (MFinVote p) \<longleftrightarrow> RequestSignature E s (FinVote_Hash E p) = Inr (fvSignature p)"
| "authentic E s (MHalt h) \<longleftrightarrow> RequestSignature E s (Halt_Hash E h) = Inr (hSignature h)"

lemmas message_hash_defs =
  SPBProposal_Hash_def SPBVote_Hash_def Finish_Hash_def Done_Hash_def ElectShare_Hash_def
  Prevote_Hash_def FinVote_Hash_def Halt_Hash_def

text \<open>No digest covers the signature field.\<close>

lemma Hash_signature [simp]:
  "SPBProposal_Hash E (p\<lparr>pSignature := s\<rparr>) = SPBProposal_Hash E p"
  "SPBVote_Hash E (v\<lparr>vSignature := s\<rparr>) = SPBVote_Hash E v"
  "Finish_Hash E (f\<lparr>fSignature := s\<rparr>) = Finish_Hash E f"
  "Done_Hash E (d\<lparr>dSignature := s\<rparr>) = Done_Hash E d"
  "ElectShare_Hash E (e\<lparr>eSigShare := ss\<rparr>) = ElectShare_Hash E e"
  "Prevote_Hash E (pv\<lparr>pvSignature := s\<rparr>) = Prevote_Hash E pv"
  "FinVote_Hash E (fv\<lparr>fvSignature := s\<rparr>) = FinVote_Hash E fv"
  "Halt_Hash E (h\<lparr>hSignature := s\<rparr>) = Halt_Hash E h"
  by (simp_all add: message_hash_defs)

lemmas new_message_defs =
  NewSPBProposal_def NewSPBVote_def NewFinish_def NewDone_def NewElectShare_def NewPrevote_def
  NewFinVote_def NewHalt_def

text \<open>
  What a constructor returns: the arguments in the fields and an authentic signature. Apart
  from the coin share none of them fails.
\<close>

lemma New_not_Inl [simp]:
  "NewSPBProposal E a b e r ph s \<noteq> Inl x"
  "NewSPBVote E a q d e r ph s \<noteq> Inl x"
  "NewFinish E a d e r s \<noteq> Inl x"
  "NewDone E a e r s \<noteq> Inl x"
  "NewPrevote E a l e r fl d s \<noteq> Inl x"
  "NewFinVote E a l e r fl d s \<noteq> Inl x"
  "NewHalt E a l d e r s \<noteq> Inl x"
  by (simp_all add: new_message_defs RequestSignature_def Let_def)

lemma New_Inr:
  "NewSPBProposal E a b e r ph s = Inr (projr (NewSPBProposal E a b e r ph s))"
  "NewSPBVote E a q d e r ph s = Inr (projr (NewSPBVote E a q d e r ph s))"
  "NewFinish E a d e r s = Inr (projr (NewFinish E a d e r s))"
  by (simp_all add: new_message_defs RequestSignature_def Let_def)

lemma projr_NewSPBProposal [simp]:
  "pAuthor (projr (NewSPBProposal E a b e r ph s)) = a"
  "pB (projr (NewSPBProposal E a b e r ph s)) = b"
  "pEpoch (projr (NewSPBProposal E a b e r ph s)) = e"
  "pRound (projr (NewSPBProposal E a b e r ph s)) = r"
  "pPhase (projr (NewSPBProposal E a b e r ph s)) = ph"
  "authentic E s (MProposal (projr (NewSPBProposal E a b e r ph s)))"
  by (simp_all add: new_message_defs message_hash_defs RequestSignature_def Let_def)

lemma projr_NewSPBVote [simp]:
  "vAuthor (projr (NewSPBVote E a q d e r ph s)) = a"
  "vProposer (projr (NewSPBVote E a q d e r ph s)) = q"
  "vBlockHash (projr (NewSPBVote E a q d e r ph s)) = d"
  "vEpoch (projr (NewSPBVote E a q d e r ph s)) = e"
  "vRound (projr (NewSPBVote E a q d e r ph s)) = r"
  "vPhase (projr (NewSPBVote E a q d e r ph s)) = ph"
  "authentic E s (MVote (projr (NewSPBVote E a q d e r ph s)))"
  by (simp_all add: new_message_defs message_hash_defs RequestSignature_def Let_def)

lemma projr_NewFinish [simp]:
  "fAuthor (projr (NewFinish E a d e r s)) = a"
  "fBlockHash (projr (NewFinish E a d e r s)) = d"
  "fEpoch (projr (NewFinish E a d e r s)) = e"
  "fRound (projr (NewFinish E a d e r s)) = r"
  "authentic E s (MFinish (projr (NewFinish E a d e r s)))"
  by (simp_all add: new_message_defs message_hash_defs RequestSignature_def Let_def)

lemma projr_NewDone [simp]:
  "dAuthor (projr (NewDone E a e r s)) = a"
  "dEpoch (projr (NewDone E a e r s)) = e"
  "dRound (projr (NewDone E a e r s)) = r"
  "authentic E s (MDone (projr (NewDone E a e r s)))"
  by (simp_all add: new_message_defs message_hash_defs RequestSignature_def Let_def)

lemma projr_NewPrevote [simp]:
  "pvAuthor (projr (NewPrevote E a l e r fl d s)) = a"
  "pvLeader (projr (NewPrevote E a l e r fl d s)) = l"
  "pvEpoch (projr (NewPrevote E a l e r fl d s)) = e"
  "pvRound (projr (NewPrevote E a l e r fl d s)) = r"
  "pvFlag (projr (NewPrevote E a l e r fl d s)) = fl"
  "pvBlockHash (projr (NewPrevote E a l e r fl d s)) = d"
  "authentic E s (MPrevote (projr (NewPrevote E a l e r fl d s)))"
  by (simp_all add: new_message_defs message_hash_defs RequestSignature_def Let_def)

lemma projr_NewFinVote [simp]:
  "fvAuthor (projr (NewFinVote E a l e r fl d s)) = a"
  "fvLeader (projr (NewFinVote E a l e r fl d s)) = 0"
  "fvEpoch (projr (NewFinVote E a l e r fl d s)) = e"
  "fvRound (projr (NewFinVote E a l e r fl d s)) = r"
  "fvFlag (projr (NewFinVote E a l e r fl d s)) = fl"
  "fvBlockHash (projr (NewFinVote E a l e r fl d s)) = d"
  "authentic E s (MFinVote (projr (NewFinVote E a l e r fl d s)))"
  by (simp_all add: new_message_defs message_hash_defs RequestSignature_def Let_def)

lemma projr_NewHalt [simp]:
  "hAuthor (projr (NewHalt E a l d e r s)) = a"
  "hLeader (projr (NewHalt E a l d e r s)) = l"
  "hBlockHash (projr (NewHalt E a l d e r s)) = d"
  "hEpoch (projr (NewHalt E a l d e r s)) = e"
  "hRound (projr (NewHalt E a l d e r s)) = r"
  "authentic E s (MHalt (projr (NewHalt E a l d e r s)))"
  by (simp_all add: new_message_defs message_hash_defs RequestSignature_def Let_def)

lemma NewElectShare_Inr:
  "NewElectShare E a e r s = Inr x \<Longrightarrow>
   eAuthor x = a \<and> eEpoch x = e \<and> eRound x = r \<and> authentic E s (MElectShare (Some x))"
  by (auto simp: new_message_defs message_hash_defs Let_def split: sum.splits)

lemma NewElectShare_Inl:
  "NewElectShare E a e r s = Inl x \<Longrightarrow> authentic E s (MElectShare None)"
  by (auto simp: new_message_defs Let_def split: sum.splits) (metis isl_def)

lemma authentic_verifies:
  assumes "ed25519_ok E (Prikey (PriKey s)) (Pubkey (Committee_Name c (message_author m)))"
    and "authentic E s m" and "m \<noteq> MElectShare None"
  shows "message_Verify E c m = Ret True"
proof (cases m)
  case (MElectShare e)
  with assms(3) show ?thesis by (cases e) (auto simp: ElectShare_Verify_def SignatureShare_Verify_def)
qed (use assms in \<open>auto simp: RequestSignature_def intro!: smProposal.signed_verifies
    smVote.signed_verifies smFinish.signed_verifies smDone.signed_verifies smPrevote.signed_verifies
    smFinVote.signed_verifies smHalt.signed_verifies\<close>)

lemma foreign_message_panics:
  assumes "message_author m \<notin> members c" and "\<not> is_share m"
  shows "message_Verify E c m = Panic ''ed25519: bad public key length''"
  using assms
  by (cases m) (auto intro!: smProposal.foreign_author_panics smVote.foreign_author_panics
    smFinish.foreign_author_panics smDone.foreign_author_panics smPrevote.foreign_author_panics
    smFinVote.foreign_author_panics smHalt.foreign_author_panics)

declare authentic.simps [simp del]

section \<open>Properties\<close>

text \<open>
  C35. A message, other than a coin share, that names an author outside the committee does not
  fail its check: the check panics on the empty public key.
\<close>

theorem foreign_author_crashes:
  assumes "message_author m \<notin> members c" and "\<not> is_share m"
  shows "message_Verify E c m = Panic ''ed25519: bad public key length''"
  using assms by (rule foreign_message_panics)

theorem foreign_author_crashes_witness:
  "message_Verify sample_store_env committee4
     (MDone \<lparr>dAuthor = 9, dEpoch = 0, dRound = 0, dSignature = no_sig\<rparr>) =
   Panic ''ed25519: bad public key length''"
  by (rule foreign_author_crashes) simp_all

text \<open>
  Digests concatenate binary numerals without separators, so different messages can share one:
  a Done message of epoch 2, round 2 and one of epoch 5, round 0.
\<close>

theorem done_digest_collision:
  "Done_Hash E \<lparr>dAuthor = a, dEpoch = 2, dRound = 2, dSignature = s\<rparr> =
   Done_Hash E \<lparr>dAuthor = a, dEpoch = 5, dRound = 0, dSignature = s\<rparr>"
  proof -
  have "digits 2 2 = [1, 0]" "digits 2 5 = [1, 0, 1]" "digits 2 0 = [0]" by code_simp+
  then show ?thesis by (simp add: Done_Hash_def hash_parts_concat AppendInt_def)
qed

text \<open>The digest of a Halt message does not cover its round.\<close>

theorem halt_digest_ignores_round: "Halt_Hash E (h\<lparr>hRound := r\<rparr>) = Halt_Hash E h"
  by (simp add: Halt_Hash_def)

end
