(* ===== verification/Aggregator.thy ===== *)
theory Aggregator
  imports Messages
begin

text \<open>
  \<^verbatim>\<open>core/smvba/consensus/aggreator.go\<close>: the vote counters of the protocol. Each counter keeps the
  set of authors it has heard (\<^verbatim>\<open>map[NodeID]struct{}\<close>) and answers a second message of an author
  with an error; what it answers to a first message depends on the number of authors or votes.

  The locales \<open>vote_counter\<close> and \<open>threshold_counter\<close> state that contract once; the counters of
  Finish, Done, Prevote and FinVote messages are interpretations. The coin counter may panic and
  is treated in theory \<open>Elector\<close>.
\<close>

section \<open>Finish\<close>

record FinishAggreator =
  faAuthors :: "NodeID set"

definition NewFinishAggreator :: FinishAggreator where
  "NewFinishAggreator = \<lparr>faAuthors = {}\<rparr>"

definition FinishAggreator_Append ::
  "Committee \<Rightarrow> FinishAggreator \<Rightarrow> Finish \<Rightarrow> FinishAggreator \<times> (go_error + bool)" where
  "FinishAggreator_Append c f finish =
     (if fAuthor finish \<in> faAuthors f then
        (f, Inl (ErrOneMoreMessage FinishType (fEpoch finish) (fRound finish) (fAuthor finish)))
      else
        let f' = f\<lparr>faAuthors := insert (fAuthor finish) (faAuthors f)\<rparr> in
        if int (card (faAuthors f')) = HightThreshold c then (f', Inr True) else (f', Inr False))"

section \<open>Done\<close>

abbreviation (input) DONE_LOW_FLAG :: int where "DONE_LOW_FLAG \<equiv> 0"
abbreviation (input) DONE_HIGH_FLAG :: int where "DONE_HIGH_FLAG \<equiv> 1"
abbreviation (input) DONE_NONE_FLAG :: int where "DONE_NONE_FLAG \<equiv> 2"

record DoneAggreator =
  daAuthors :: "NodeID set"

definition NewDoneAggreator :: DoneAggreator where
  "NewDoneAggreator = \<lparr>daAuthors = {}\<rparr>"

definition DoneAggreator_Append ::
  "Committee \<Rightarrow> DoneAggreator \<Rightarrow> Done \<Rightarrow> DoneAggreator \<times> (go_error + int)" where
  "DoneAggreator_Append c d msg =
     (if dAuthor msg \<in> daAuthors d then
        (d, Inl (ErrOneMoreMessage DoneType (dEpoch msg) (dRound msg) (dAuthor msg)))
      else
        let d' = d\<lparr>daAuthors := insert (dAuthor msg) (daAuthors d)\<rparr> in
        if int (card (daAuthors d')) = LowThreshold c then (d', Inr DONE_LOW_FLAG)
        else if int (card (daAuthors d')) = HightThreshold c then (d', Inr DONE_HIGH_FLAG)
        else (d', Inr DONE_NONE_FLAG))"

section \<open>Coin shares\<close>

abbreviation (input) RANDOM_LEN :: nat where "RANDOM_LEN \<equiv> 3"

record ElectAggreator =
  eaShares :: "SignatureShare list"
  eaAuthors :: "NodeID set"

definition NewElectAggreator :: ElectAggreator where
  "NewElectAggreator = \<lparr>eaShares = [], eaAuthors = {}\<rparr>"

text \<open>The loop that folds the first bytes of the coin into an \<^verbatim>\<open>int\<close>.\<close>

definition coin_rand :: "bytes \<Rightarrow> int outcome" where
  "coin_rand coin =
     foldo (\<lambda>rand i.
        if length coin \<le> i then Panic ''index out of range''
        else if 0 < coin ! i then Ret (rand * 256 + uint (coin ! i))
        else Ret (rand * 256 + uint (- (coin ! i)))) 0 [0..<RANDOM_LEN]"

definition ElectAggreator_Append ::
  "('a crypto_env_scheme) \<Rightarrow> Committee \<Rightarrow> SigService \<Rightarrow> ElectAggreator \<Rightarrow> ElectShare
   \<Rightarrow> (ElectAggreator \<times> (go_error + NodeID)) outcome" where
  "ElectAggreator_Append E c sigService e elect =
     (if eAuthor elect \<in> eaAuthors e then
        Ret (e, Inl (ErrOneMoreMessage ElectShareType (eEpoch elect) (eRound elect) (eAuthor elect)))
      else
        let e' = e\<lparr>eaAuthors := insert (eAuthor elect) (eaAuthors e),
                   eaShares := eaShares e @ [eSigShare elect]\<rparr> in
        if int (length (eaShares e')) = HightThreshold c then
          (case CombineIntactTSPartial E (eaShares e') (ShareKey sigService) (ElectShare_Hash E elect) of
             Inl x \<Rightarrow> Ret (e', Inl x)
           | Inr coin \<Rightarrow>
               bind_outcome (coin_rand coin) (\<lambda>rand.
                 if Committee_Size c = 0 then Panic ''integer divide by zero''
                 else Ret (e', Inr (rand smod Committee_Size c))))
        else Ret (e', Inr NONE))"

section \<open>Prevotes and final votes\<close>

abbreviation (input) ACTION_YES :: int where "ACTION_YES \<equiv> 0"
abbreviation (input) ACTION_NO :: int where "ACTION_NO \<equiv> 1"
abbreviation (input) ACTION_COMMIT :: int where "ACTION_COMMIT \<equiv> 2"
abbreviation (input) ACTION_NONE :: int where "ACTION_NONE \<equiv> 3"

record PreVoteAggreator =
  pvaAuthors :: "NodeID set"
  pvaYesNums :: int
  pvaNoNums :: int
  pvaFlag :: bool

definition NewPrevoteAggreator :: PreVoteAggreator where
  "NewPrevoteAggreator = \<lparr>pvaAuthors = {}, pvaYesNums = 0, pvaNoNums = 0, pvaFlag = False\<rparr>"

definition PreVoteAggreator_Append ::
  "Committee \<Rightarrow> PreVoteAggreator \<Rightarrow> Prevote \<Rightarrow> PreVoteAggreator \<times> (go_error + int)" where
  "PreVoteAggreator_Append c p vote =
     (if pvAuthor vote \<in> pvaAuthors p then
        (p, Inl (ErrOneMoreMessage PrevoteType (pvEpoch vote) (pvRound vote) (pvAuthor vote)))
      else
        let p1 = p\<lparr>pvaAuthors := insert (pvAuthor vote) (pvaAuthors p)\<rparr>;
            p2 = (if pvFlag vote = VOTE_FLAG_NO then p1\<lparr>pvaNoNums := pvaNoNums p1 + 1\<rparr>
                  else p1\<lparr>pvaYesNums := pvaYesNums p1 + 1\<rparr>) in
        if 0 < pvaYesNums p2 \<and> \<not> pvaFlag p2 then (p2\<lparr>pvaFlag := True\<rparr>, Inr ACTION_YES)
        else if pvaNoNums p2 = HightThreshold c \<and> \<not> pvaFlag p2 then (p2, Inr ACTION_NO)
        else (p2, Inr ACTION_NONE))"

record FinVoteAggreator =
  fvaAuthors :: "NodeID set"
  fvaYesNums :: int
  fvaNoNums :: int

definition NewFinVoteAggreator :: FinVoteAggreator where
  "NewFinVoteAggreator = \<lparr>fvaAuthors = {}, fvaYesNums = 0, fvaNoNums = 0\<rparr>"

definition FinVoteAggreator_Append ::
  "Committee \<Rightarrow> FinVoteAggreator \<Rightarrow> FinVote \<Rightarrow> FinVoteAggreator \<times> (go_error + int)" where
  "FinVoteAggreator_Append c f vote =
     (if fvAuthor vote \<in> fvaAuthors f then
        (f, Inl (ErrOneMoreMessage FinVoteType (fvEpoch vote) (fvRound vote) (fvAuthor vote)))
      else
        let f1 = f\<lparr>fvaAuthors := insert (fvAuthor vote) (fvaAuthors f)\<rparr>;
            f2 = (if fvFlag vote = VOTE_FLAG_YES then f1\<lparr>fvaYesNums := fvaYesNums f1 + 1\<rparr>
                  else f1\<lparr>fvaNoNums := fvaNoNums f1 + 1\<rparr>);
            th = HightThreshold c in
        if fvaYesNums f2 + fvaNoNums f2 = th then
          (if fvaYesNums f2 = th then (f2, Inr ACTION_COMMIT)
           else if fvaNoNums f2 = th then (f2, Inr ACTION_NO)
           else (f2, Inr ACTION_YES))
        else (f2, Inr ACTION_NONE))"

section \<open>One counter per epoch and round\<close>

record Aggreator =
  aCommittee :: Committee
  finishAggreator :: "int \<rightharpoonup> (int \<rightharpoonup> FinishAggreator)"
  doneAggreator :: "int \<rightharpoonup> (int \<rightharpoonup> DoneAggreator)"
  prevoteAggreator :: "int \<rightharpoonup> (int \<rightharpoonup> PreVoteAggreator)"
  finvoteAggreator :: "int \<rightharpoonup> (int \<rightharpoonup> FinVoteAggreator)"

definition NewAggreator :: "Committee \<Rightarrow> Aggreator" where
  "NewAggreator c =
     \<lparr>aCommittee = c, finishAggreator = Map.empty, doneAggreator = Map.empty,
      prevoteAggreator = Map.empty, finvoteAggreator = Map.empty\<rparr>"

text \<open>The counter of an epoch and round, a new one when there is none yet.\<close>

definition counter_at :: "(int \<rightharpoonup> (int \<rightharpoonup> 'c)) \<Rightarrow> 'c \<Rightarrow> int \<Rightarrow> int \<Rightarrow> 'c" where
  "counter_at m fresh epoch round = (case get2 m epoch round of None \<Rightarrow> fresh | Some item \<Rightarrow> item)"

definition AddFinishVote :: "Aggreator \<Rightarrow> Finish \<Rightarrow> Aggreator \<times> (go_error + bool)" where
  "AddFinishVote a finish =
     (let item = counter_at (finishAggreator a) NewFinishAggreator (fEpoch finish) (fRound finish);
          (item', r) = FinishAggreator_Append (aCommittee a) item finish
      in (a\<lparr>finishAggreator := put2 (finishAggreator a) (fEpoch finish) (fRound finish) item'\<rparr>, r))"

definition AddDoneVote :: "Aggreator \<Rightarrow> Done \<Rightarrow> Aggreator \<times> (go_error + int)" where
  "AddDoneVote a msg =
     (let item = counter_at (doneAggreator a) NewDoneAggreator (dEpoch msg) (dRound msg);
          (item', r) = DoneAggreator_Append (aCommittee a) item msg
      in (a\<lparr>doneAggreator := put2 (doneAggreator a) (dEpoch msg) (dRound msg) item'\<rparr>, r))"

definition AddPreVote :: "Aggreator \<Rightarrow> Prevote \<Rightarrow> Aggreator \<times> (go_error + int)" where
  "AddPreVote a vote =
     (let item = counter_at (prevoteAggreator a) NewPrevoteAggreator (pvEpoch vote) (pvRound vote);
          (item', r) = PreVoteAggreator_Append (aCommittee a) item vote
      in (a\<lparr>prevoteAggreator := put2 (prevoteAggreator a) (pvEpoch vote) (pvRound vote) item'\<rparr>, r))"

definition AddFinVote :: "Aggreator \<Rightarrow> FinVote \<Rightarrow> Aggreator \<times> (go_error + int)" where
  "AddFinVote a vote =
     (let item = counter_at (finvoteAggreator a) NewFinVoteAggreator (fvEpoch vote) (fvRound vote);
          (item', r) = FinVoteAggreator_Append (aCommittee a) item vote
      in (a\<lparr>finvoteAggreator := put2 (finvoteAggreator a) (fvEpoch vote) (fvRound vote) item'\<rparr>, r))"

section \<open>The counting contract\<close>

locale vote_counter =
  fixes add :: "'a \<Rightarrow> 'v \<Rightarrow> 'a \<times> (go_error + 'r)"
    and heard :: "'a \<Rightarrow> NodeID set"
    and voter :: "'v \<Rightarrow> NodeID"
    and inv :: "'a \<Rightarrow> bool"
  assumes add_again: "voter v \<in> heard a \<Longrightarrow> \<exists>e. add a v = (a, Inl e)"
    and add_first: "voter v \<notin> heard a \<Longrightarrow>
      \<exists>a' r. add a v = (a', Inr r) \<and> heard a' = insert (voter v) (heard a) \<and> (inv a \<longrightarrow> inv a')"
    and inv_finite: "inv a \<Longrightarrow> finite (heard a)"
begin

lemma add_again_eq: "voter v \<in> heard a \<Longrightarrow> fst (add a v) = a \<and> isl (snd (add a v))"
  by (drule add_again) (elim exE, simp)

lemma add_first_eq:
  "voter v \<notin> heard a \<Longrightarrow>
   heard (fst (add a v)) = insert (voter v) (heard a) \<and> \<not> isl (snd (add a v)) \<and>
   (inv a \<longrightarrow> inv (fst (add a v)))"
  by (drule add_first) (elim exE conjE, simp)

lemma add_inv: "inv a \<Longrightarrow> inv (fst (add a v))"
  by (cases "voter v \<in> heard a") (simp_all add: add_again_eq add_first_eq)

lemma heard_add: "heard (fst (add a v)) = insert (voter v) (heard a)"
  by (cases "voter v \<in> heard a") (auto simp: add_again_eq add_first_eq)

lemma runs_inv: "inv a \<Longrightarrow> inv (fst (runs add a vs))"
  by (induction vs arbitrary: a) (simp_all add: add_inv)

lemma heard_runs: "heard (fst (runs add a vs)) = heard a \<union> voter ` set vs"
  by (induction vs arbitrary: a) (simp_all add: heard_add)

text \<open>Repeated votes are answered by errors and leave no trace: only first votes count.\<close>

lemma runs_firsts:
  "fst (runs add a vs) = fst (runs add a (firsts voter (heard a) vs))"
proof (induction vs arbitrary: a)
  case Nil
  show ?case by simp
next
  case (Cons v vs)
  show ?case
  proof (cases "voter v \<in> heard a")
    case True
    then show ?thesis using Cons.IH [of a] by (simp add: add_again_eq)
  next
    case False
    then show ?thesis using Cons.IH [of "fst (add a v)"] by (simp add: heard_add)
  qed
qed

lemma answers_firsts:
  "filter (\<lambda>x. \<not> isl x) (snd (runs add a vs)) = snd (runs add a (firsts voter (heard a) vs))"
proof (induction vs arbitrary: a)
  case Nil
  show ?case by simp
next
  case (Cons v vs)
  show ?case
  proof (cases "voter v \<in> heard a")
    case True
    then show ?thesis using Cons.IH [of a] by (simp add: add_again_eq)
  next
    case False
    then show ?thesis
      using Cons.IH [of "fst (add a v)"] by (simp add: heard_add add_first_eq)
  qed
qed

end

text \<open>
  A counter that fires when the number of authors heard reaches the threshold. Over any
  sequence of messages it fires exactly once if enough different authors speak, and never
  otherwise. Threshold 0 stands for a counter that never fires.
\<close>

locale threshold_counter = vote_counter add heard voter inv
  for add :: "'a \<Rightarrow> 'v \<Rightarrow> 'a \<times> (go_error + 'r)"
    and heard :: "'a \<Rightarrow> NodeID set"
    and voter :: "'v \<Rightarrow> NodeID"
    and inv :: "'a \<Rightarrow> bool" +
  fixes fires :: "'r \<Rightarrow> bool"
    and threshold :: nat
  assumes add_fires: "inv a \<Longrightarrow> voter v \<notin> heard a \<Longrightarrow> add a v = (a', Inr r) \<Longrightarrow>
      fires r \<longleftrightarrow> card (heard a') = threshold"
begin

definition fired :: "(go_error + 'r) list \<Rightarrow> nat" where
  "fired rs = length (filter (\<lambda>x. case x of Inl _ \<Rightarrow> False | Inr r \<Rightarrow> fires r) rs)"

lemma fired_Cons [simp]:
  "fired (x # xs) = (case x of Inl _ \<Rightarrow> 0 | Inr r \<Rightarrow> if fires r then 1 else 0) + fired xs"
  by (simp add: fired_def split: sum.splits)

lemma fired_Nil [simp]: "fired [] = 0"
  by (simp add: fired_def)

lemma fired_runs:
  assumes "inv a"
  shows "fired (snd (runs add a vs)) =
    (if card (heard a) < threshold \<and> threshold \<le> card (heard a \<union> voter ` set vs) then 1 else 0)"
  using assms
proof (induction vs arbitrary: a)
  case Nil
  then show ?case by simp
next
  case (Cons v vs)
  have fin: "finite (heard a)" using Cons.prems by (rule inv_finite)
  show ?case
  proof (cases "voter v \<in> heard a")
    case True
    from add_again [OF True] obtain e where "add a v = (a, Inl e)" by blast
    moreover have "heard a \<union> voter ` set (v # vs) = heard a \<union> voter ` set vs" using True by auto
    ultimately show ?thesis
      using Cons.IH [OF Cons.prems] by simp
  next
    case False
    from add_first [OF False] Cons.prems obtain a' r where
      a': "add a v = (a', Inr r)" "heard a' = insert (voter v) (heard a)" "inv a'" by blast
    have f: "fires r \<longleftrightarrow> card (heard a') = threshold"
      using add_fires [OF Cons.prems False a'(1)] .
    have c: "card (heard a') = Suc (card (heard a))" using fin False a'(2) by simp
    have U: "heard a' \<union> voter ` set vs = heard a \<union> voter ` set (v # vs)" using a'(2) by auto
    have le: "card (heard a') \<le> card (heard a' \<union> voter ` set vs)"
      using a'(2) fin by (intro card_mono) auto
    have "fired (snd (runs add a (v # vs))) = (if fires r then 1 else 0) + fired (snd (runs add a' vs))"
      using a'(1) by simp
    then show ?thesis
      using Cons.IH [OF a'(3)] f c le unfolding U by auto
  qed
qed

lemma fires_exactly_once:
  assumes "inv a" and "heard a = {}" and "0 < threshold"
  shows "fired (snd (runs add a vs)) = (if threshold \<le> card (voter ` set vs) then 1 else 0)"
  using fired_runs [OF assms(1), of vs] assms(2,3) by simp

end

text \<open>The committee's thresholds as cardinalities.\<close>

definition hi :: "Committee \<Rightarrow> nat" where "hi c = nat (HightThreshold c)"
definition lo :: "Committee \<Rightarrow> nat" where "lo c = nat (LowThreshold c)"

lemma HightThreshold_hi: "HightThreshold c = int (hi c)"
  using HightThreshold_pos [of c] by (simp add: hi_def)

lemma LowThreshold_lo: "LowThreshold c = int (lo c)"
  using LowThreshold_pos [of c] by (simp add: lo_def)

lemma hi_pos: "0 < hi c" and lo_pos: "0 < lo c"
  using HightThreshold_pos [of c] LowThreshold_pos [of c] by (auto simp: hi_def lo_def)

lemma lo_le_hi: "lo c \<le> hi c"
  using fault_bound_nonneg [of c] by (simp add: lo_def hi_def HightThreshold_eq LowThreshold_eq)

interpretation finc: threshold_counter "FinishAggreator_Append c" faAuthors fAuthor
  "\<lambda>a. finite (faAuthors a)" "\<lambda>b. b" "hi c" for c
  by unfold_locales (auto simp: FinishAggreator_Append_def Let_def HightThreshold_hi split: if_splits)

interpretation donelo: threshold_counter "DoneAggreator_Append c" daAuthors dAuthor
  "\<lambda>a. finite (daAuthors a)" "\<lambda>r. r = DONE_LOW_FLAG" "lo c" for c
  by unfold_locales
    (auto simp: DoneAggreator_Append_def Let_def HightThreshold_hi LowThreshold_lo split: if_splits)

interpretation donehi: threshold_counter "DoneAggreator_Append c" daAuthors dAuthor
  "\<lambda>a. finite (daAuthors a)" "\<lambda>r. r = DONE_HIGH_FLAG" "if lo c = hi c then 0 else hi c" for c
  by unfold_locales
    (auto simp: DoneAggreator_Append_def Let_def HightThreshold_hi LowThreshold_lo split: if_splits)

section \<open>Final votes\<close>

definition yes_votes :: "FinVote list \<Rightarrow> nat" where
  "yes_votes vs = length (filter (\<lambda>v. fvFlag v = VOTE_FLAG_YES) vs)"

definition no_votes :: "FinVote list \<Rightarrow> nat" where
  "no_votes vs = length (filter (\<lambda>v. fvFlag v \<noteq> VOTE_FLAG_YES) vs)"

lemma yes_no_votes: "yes_votes vs + no_votes vs = length vs"
  by (simp add: yes_votes_def no_votes_def sum_length_filter_compl)

definition finvote_inv :: "FinVoteAggreator \<Rightarrow> bool" where
  "finvote_inv f \<longleftrightarrow>
     finite (fvaAuthors f) \<and> 0 \<le> fvaYesNums f \<and> 0 \<le> fvaNoNums f \<and>
     fvaYesNums f + fvaNoNums f = int (card (fvaAuthors f))"

lemma FinVoteAggreator_Append_first:
  assumes "fvAuthor v \<notin> fvaAuthors f"
  shows "\<exists>f' r. FinVoteAggreator_Append c f v = (f', Inr r) \<and>
     fvaAuthors f' = insert (fvAuthor v) (fvaAuthors f) \<and>
     fvaYesNums f' = fvaYesNums f + (if fvFlag v = VOTE_FLAG_YES then 1 else 0) \<and>
     fvaNoNums f' = fvaNoNums f + (if fvFlag v = VOTE_FLAG_YES then 0 else 1) \<and>
     r = (if fvaYesNums f' + fvaNoNums f' \<noteq> HightThreshold c then ACTION_NONE
          else if fvaYesNums f' = HightThreshold c then ACTION_COMMIT
          else if fvaNoNums f' = HightThreshold c then ACTION_NO
          else ACTION_YES)"
  using assms by (simp add: FinVoteAggreator_Append_def Let_def)

lemma FinVoteAggreator_Append_again:
  "fvAuthor v \<in> fvaAuthors f \<Longrightarrow> \<exists>e. FinVoteAggreator_Append c f v = (f, Inl e)"
  by (simp add: FinVoteAggreator_Append_def)

interpretation finv: threshold_counter "FinVoteAggreator_Append c" fvaAuthors fvAuthor
  finvote_inv "\<lambda>r. r \<noteq> ACTION_NONE" "hi c" for c
proof
  fix v :: FinVote and a :: FinVoteAggreator
  assume "fvAuthor v \<in> fvaAuthors a"
  then show "\<exists>e. FinVoteAggreator_Append c a v = (a, Inl e)"
    by (rule FinVoteAggreator_Append_again)
next
  fix v :: FinVote and a :: FinVoteAggreator
  assume v: "fvAuthor v \<notin> fvaAuthors a"
  from FinVoteAggreator_Append_first [OF v, of c]
  show "\<exists>a' r. FinVoteAggreator_Append c a v = (a', Inr r) \<and>
      fvaAuthors a' = insert (fvAuthor v) (fvaAuthors a) \<and> (finvote_inv a \<longrightarrow> finvote_inv a')"
    using v by (auto simp: finvote_inv_def)
next
  fix v :: FinVote and a a' :: FinVoteAggreator and r
  assume inv: "finvote_inv a" and v: "fvAuthor v \<notin> fvaAuthors a"
    and add: "FinVoteAggreator_Append c a v = (a', Inr r)"
  have "fvaYesNums a' + fvaNoNums a' = int (card (fvaAuthors a'))"
    using FinVoteAggreator_Append_first [OF v, of c] add inv v by (auto simp: finvote_inv_def)
  then show "r \<noteq> ACTION_NONE \<longleftrightarrow> card (fvaAuthors a') = hi c"
    using FinVoteAggreator_Append_first [OF v, of c] add by (auto simp: HightThreshold_hi)
qed (simp add: finvote_inv_def)

lemma NewFinVoteAggreator_inv [simp]: "finvote_inv NewFinVoteAggreator"
  by (simp add: finvote_inv_def NewFinVoteAggreator_def)

lemma NewFinVoteAggreator_heard [simp]: "fvaAuthors NewFinVoteAggreator = {}"
  by (simp add: NewFinVoteAggreator_def)

text \<open>The answers that make the caller act.\<close>

definition decisions :: "(go_error + int) list \<Rightarrow> int list" where
  "decisions rs =
     List.map_filter (\<lambda>x. case x of Inl _ \<Rightarrow> None | Inr r \<Rightarrow> if r = ACTION_NONE then None else Some r) rs"

lemma decisions_simps [simp]:
  "decisions [] = []"
  "decisions (Inl e # rs) = decisions rs"
  "decisions (Inr r # rs) = (if r = ACTION_NONE then decisions rs else r # decisions rs)"
  by (simp_all add: decisions_def map_filter_simps)

lemma decisions_append: "decisions (rs @ rs') = decisions rs @ decisions rs'"
  by (simp add: decisions_def map_filter_def)

lemma decisions_answers: "decisions rs = decisions (filter (\<lambda>x. \<not> isl x) rs)"
proof (induction rs)
  case (Cons x rs)
  then show ?case by (cases x) auto
qed simp

text \<open>What the counter answers when it has heard exactly the votes \<open>ds\<close>.\<close>

definition finvote_answer :: "Committee \<Rightarrow> FinVote list \<Rightarrow> int" where
  "finvote_answer c ds =
     (if length ds \<noteq> hi c then ACTION_NONE
      else if yes_votes ds = hi c then ACTION_COMMIT
      else if no_votes ds = hi c then ACTION_NO
      else ACTION_YES)"

text \<open>The specification: the first \<open>2 f + 1\<close> different voters decide.\<close>

definition finvote_decision :: "Committee \<Rightarrow> FinVote list \<Rightarrow> int option" where
  "finvote_decision c vs =
     (let ds = take (hi c) (firsts fvAuthor {} vs) in
      if length ds < hi c then None else Some (finvote_answer c ds))"

lemma yes_votes_snoc: "yes_votes (ds @ [v]) = yes_votes ds + (if fvFlag v = VOTE_FLAG_YES then 1 else 0)"
  by (simp add: yes_votes_def)

lemma no_votes_snoc: "no_votes (ds @ [v]) = no_votes ds + (if fvFlag v = VOTE_FLAG_YES then 0 else 1)"
  by (simp add: no_votes_def)

lemma finvote_state:
  assumes "distinct (map fvAuthor ds)"
  shows "fvaYesNums (fst (runs (FinVoteAggreator_Append c) NewFinVoteAggreator ds)) = int (yes_votes ds)"
    and "fvaNoNums (fst (runs (FinVoteAggreator_Append c) NewFinVoteAggreator ds)) = int (no_votes ds)"
proof -
  have "fvaYesNums (fst (runs (FinVoteAggreator_Append c) NewFinVoteAggreator ds)) = int (yes_votes ds) \<and>
    fvaNoNums (fst (runs (FinVoteAggreator_Append c) NewFinVoteAggreator ds)) = int (no_votes ds)"
    using assms
  proof (induction ds rule: rev_induct)
    case Nil
    show ?case by (simp add: NewFinVoteAggreator_def yes_votes_def no_votes_def)
  next
    case (snoc v ds)
    let ?f = "fst (runs (FinVoteAggreator_Append c) NewFinVoteAggreator ds)"
    have "fvAuthor v \<notin> fvaAuthors ?f" using snoc.prems by (simp add: finv.heard_runs)
    from FinVoteAggreator_Append_first [OF this, of c] obtain f' r where
      "FinVoteAggreator_Append c ?f v = (f', Inr r)"
      "fvaYesNums f' = fvaYesNums ?f + (if fvFlag v = VOTE_FLAG_YES then 1 else 0)"
      "fvaNoNums f' = fvaNoNums ?f + (if fvFlag v = VOTE_FLAG_YES then 0 else 1)" by blast
    then show ?case
      using snoc by (simp add: runs_append yes_votes_snoc no_votes_snoc)
  qed
  then show "fvaYesNums (fst (runs (FinVoteAggreator_Append c) NewFinVoteAggreator ds)) = int (yes_votes ds)"
    and "fvaNoNums (fst (runs (FinVoteAggreator_Append c) NewFinVoteAggreator ds)) = int (no_votes ds)"
    by auto
qed

lemma finvote_next_answer:
  assumes "distinct (map fvAuthor (ds @ [v]))"
  shows "snd (FinVoteAggreator_Append c (fst (runs (FinVoteAggreator_Append c) NewFinVoteAggreator ds)) v)
    = Inr (finvote_answer c (ds @ [v]))"
proof -
  let ?f = "fst (runs (FinVoteAggreator_Append c) NewFinVoteAggreator ds)"
  have d: "distinct (map fvAuthor ds)" using assms by simp
  have "fvAuthor v \<notin> fvaAuthors ?f" using assms by (simp add: finv.heard_runs)
  from FinVoteAggreator_Append_first [OF this, of c] obtain f' r where
    f': "FinVoteAggreator_Append c ?f v = (f', Inr r)"
      "fvaYesNums f' = int (yes_votes (ds @ [v]))" "fvaNoNums f' = int (no_votes (ds @ [v]))" and
    r: "r = (if fvaYesNums f' + fvaNoNums f' \<noteq> HightThreshold c then ACTION_NONE
          else if fvaYesNums f' = HightThreshold c then ACTION_COMMIT
          else if fvaNoNums f' = HightThreshold c then ACTION_NO else ACTION_YES)"
    using finvote_state [OF d, of c] by (auto simp: yes_votes_snoc no_votes_snoc)
  have "fvaYesNums f' + fvaNoNums f' = int (length (ds @ [v]))"
    using f'(2,3) yes_no_votes [of "ds @ [v]"] by linarith
  then show ?thesis using f' r by (simp add: finvote_answer_def HightThreshold_hi)
qed

lemma finvote_decisions_distinct:
  assumes "distinct (map fvAuthor ds)"
  shows "decisions (snd (runs (FinVoteAggreator_Append c) NewFinVoteAggreator ds)) =
    (if hi c \<le> length ds then [finvote_answer c (take (hi c) ds)] else [])"
  using assms
proof (induction ds rule: rev_induct)
  case Nil
  show ?case using hi_pos [of c] by simp
next
  case (snoc v ds)
  then have "decisions (snd (runs (FinVoteAggreator_Append c) NewFinVoteAggreator (ds @ [v]))) =
     (if hi c \<le> length ds then [finvote_answer c (take (hi c) ds)] else [])
     @ decisions [Inr (finvote_answer c (ds @ [v]))]"
    using finvote_next_answer [of ds v c] by (simp add: runs_append decisions_append)
  then show ?case by (auto simp: finvote_answer_def le_Suc_eq)
qed

lemma finvote_decisions:
  "decisions (snd (runs (FinVoteAggreator_Append c) NewFinVoteAggreator vs)) =
     (case finvote_decision c vs of None \<Rightarrow> [] | Some d \<Rightarrow> [d])"
proof -
  have "decisions (snd (runs (FinVoteAggreator_Append c) NewFinVoteAggreator vs)) =
    decisions (snd (runs (FinVoteAggreator_Append c) NewFinVoteAggreator (firsts fvAuthor {} vs)))"
    using finv.answers_firsts [of c NewFinVoteAggreator vs]
    by (subst decisions_answers) simp
  also have "\<dots> = (case finvote_decision c vs of None \<Rightarrow> [] | Some d \<Rightarrow> [d])"
    using finvote_decisions_distinct [OF distinct_firsts [of fvAuthor "{}" vs], of c]
    by (simp add: finvote_decision_def Let_def)
  finally show ?thesis .
qed

text \<open>A decision is backed by a quorum of different voters, all of them in the vote list.\<close>

lemma finvote_decision_quorum:
  assumes "finvote_decision c vs = Some d" and "fvAuthor ` set vs \<subseteq> members c"
  shows "\<exists>ds. set ds \<subseteq> set vs \<and> committee_quorum c (fvAuthor ` set ds) \<and> length ds = hi c \<and>
     d = finvote_answer c ds"
proof -
  let ?ds = "take (hi c) (firsts fvAuthor {} vs)"
  have len: "length ?ds = hi c" and d: "d = finvote_answer c ?ds"
    using assms(1) by (auto simp: finvote_decision_def Let_def split: if_splits)
  have sub: "set ?ds \<subseteq> set vs"
    using set_take_subset set_firsts by (rule subset_trans)
  have "distinct (map fvAuthor ?ds)"
    using distinct_take [OF distinct_firsts [of fvAuthor "{}" vs], of "hi c"] by (simp add: take_map)
  then have "card (fvAuthor ` set ?ds) = hi c"
    using distinct_card [of "map fvAuthor ?ds"] len by simp
  moreover have "fvAuthor ` set ?ds \<subseteq> members c"
    using image_mono [OF sub] assms(2) by (rule subset_trans)
  ultimately have "committee_quorum c (fvAuthor ` set ?ds)"
    by (simp add: committee_quorum_def HightThreshold_hi)
  with sub len d show ?thesis by blast
qed

lemma all_yes: "yes_votes ds = length ds \<Longrightarrow> v \<in> set ds \<Longrightarrow> fvFlag v = VOTE_FLAG_YES"
  using length_filter_less [of v ds "\<lambda>v. fvFlag v = VOTE_FLAG_YES"] by (auto simp: yes_votes_def)

lemma all_no: "no_votes ds = length ds \<Longrightarrow> v \<in> set ds \<Longrightarrow> fvFlag v \<noteq> VOTE_FLAG_YES"
  using length_filter_less [of v ds "\<lambda>v. fvFlag v \<noteq> VOTE_FLAG_YES"] by (auto simp: no_votes_def)

section \<open>Prevotes\<close>

definition prevote_inv :: "PreVoteAggreator \<Rightarrow> bool" where
  "prevote_inv p \<longleftrightarrow>
     finite (pvaAuthors p) \<and> 0 \<le> pvaYesNums p \<and> 0 \<le> pvaNoNums p \<and>
     (pvaFlag p \<longleftrightarrow> 0 < pvaYesNums p)"

lemma PreVoteAggreator_Append_again:
  "pvAuthor v \<in> pvaAuthors p \<Longrightarrow> \<exists>e. PreVoteAggreator_Append c p v = (p, Inl e)"
  by (simp add: PreVoteAggreator_Append_def)

lemma PreVoteAggreator_Append_first:
  assumes "pvAuthor v \<notin> pvaAuthors p" and "prevote_inv p"
  shows "PreVoteAggreator_Append c p v =
    (\<lparr>pvaAuthors = insert (pvAuthor v) (pvaAuthors p),
      pvaYesNums = pvaYesNums p + (if pvFlag v = VOTE_FLAG_NO then 0 else 1),
      pvaNoNums = pvaNoNums p + (if pvFlag v = VOTE_FLAG_NO then 1 else 0),
      pvaFlag = (pvaFlag p \<or> pvFlag v \<noteq> VOTE_FLAG_NO)\<rparr>,
     Inr (if pvaFlag p then ACTION_NONE
          else if pvFlag v \<noteq> VOTE_FLAG_NO then ACTION_YES
          else if pvaNoNums p + 1 = HightThreshold c then ACTION_NO else ACTION_NONE))"
proof (cases p)
  case (fields A y n fl)
  with assms have "pvAuthor v \<notin> A" "fl = (0 < y)" "0 \<le> y" by (simp_all add: prevote_inv_def)
  with fields show ?thesis
    by (cases "pvFlag v = VOTE_FLAG_NO"; cases "0 < y") (simp_all add: PreVoteAggreator_Append_def)
qed

lemma PreVoteAggreator_Append_inv:
  "prevote_inv p \<Longrightarrow> prevote_inv (fst (PreVoteAggreator_Append c p v))"
proof (cases "pvAuthor v \<in> pvaAuthors p")
  case True
  assume "prevote_inv p"
  with PreVoteAggreator_Append_again [OF True, of c] show ?thesis by (elim exE) simp
next
  case False
  assume inv: "prevote_inv p"
  show ?thesis
    unfolding PreVoteAggreator_Append_first [OF False inv] using inv by (simp add: prevote_inv_def)
qed

interpretation prev: vote_counter "PreVoteAggreator_Append c" pvaAuthors pvAuthor
  "\<lambda>p. finite (pvaAuthors p)" for c
  by unfold_locales (auto simp: PreVoteAggreator_Append_def Let_def split: if_splits)

text \<open>Everything a prevote counter can tell its caller to do, from a given state on.\<close>

lemma prevote_decisions_from:
  assumes "prevote_inv p"
  shows "decisions (snd (runs (PreVoteAggreator_Append c) p vs)) \<in>
    (if pvaFlag p then {[]}
     else if HightThreshold c \<le> pvaNoNums p then {[], [ACTION_YES]}
     else {[], [ACTION_NO], [ACTION_YES], [ACTION_NO, ACTION_YES]})"
  using assms
proof (induction vs arbitrary: p)
  case Nil
  then show ?case by simp
next
  case (Cons v vs)
  show ?case
  proof (cases "pvAuthor v \<in> pvaAuthors p")
    case True
    from PreVoteAggreator_Append_again [OF True, of c] obtain e where
      "PreVoteAggreator_Append c p v = (p, Inl e)" by blast
    with Cons.IH [OF Cons.prems] show ?thesis by simp
  next
    case False
    let ?p = "fst (PreVoteAggreator_Append c p v)"
    let ?r = "if pvaFlag p then ACTION_NONE
          else if pvFlag v \<noteq> VOTE_FLAG_NO then ACTION_YES
          else if pvaNoNums p + 1 = HightThreshold c then ACTION_NO else ACTION_NONE"
    note first = PreVoteAggreator_Append_first [OF False Cons.prems, of c]
    have flag: "pvaFlag ?p \<longleftrightarrow> pvaFlag p \<or> pvFlag v \<noteq> VOTE_FLAG_NO"
      and no: "pvaNoNums ?p = pvaNoNums p + (if pvFlag v = VOTE_FLAG_NO then 1 else 0)"
      by (simp_all add: first)
    have "decisions (snd (runs (PreVoteAggreator_Append c) p (v # vs))) =
      decisions (Inr ?r # snd (runs (PreVoteAggreator_Append c) ?p vs))"
      by (simp add: first)
    moreover note Cons.IH [OF PreVoteAggreator_Append_inv [OF Cons.prems, of c v]]
    ultimately show ?thesis
      unfolding flag no
      by (cases "pvaFlag p"; cases "pvFlag v = VOTE_FLAG_NO"; cases "pvaNoNums p + 1 = HightThreshold c")
        (auto split: if_splits)
  qed
qed

section \<open>Properties\<close>

text \<open>Two counts of final votes of one round: quorums meet in a correct member.\<close>

lemma commit_excludes_no:
  assumes tol: "committee_tolerates c F"
    and vs: "fvAuthor ` set vs \<subseteq> members c" and ws: "fvAuthor ` set ws \<subseteq> members c"
    and same: "\<And>v w. v \<in> set vs \<Longrightarrow> w \<in> set ws \<Longrightarrow> fvAuthor v = fvAuthor w \<Longrightarrow> fvAuthor v \<notin> F \<Longrightarrow>
      fvFlag v = fvFlag w"
    and commit: "ACTION_COMMIT \<in> set (decisions (snd (runs (FinVoteAggreator_Append c) NewFinVoteAggreator vs)))"
  shows "ACTION_NO \<notin> set (decisions (snd (runs (FinVoteAggreator_Append c) NewFinVoteAggreator ws)))"
proof
  assume no: "ACTION_NO \<in> set (decisions (snd (runs (FinVoteAggreator_Append c) NewFinVoteAggreator ws)))"
  from commit no have "finvote_decision c vs = Some ACTION_COMMIT" "finvote_decision c ws = Some ACTION_NO"
    by (auto simp: finvote_decisions split: option.splits)
  with finvote_decision_quorum [OF _ vs] finvote_decision_quorum [OF _ ws] obtain ds es where
    ds: "set ds \<subseteq> set vs" "committee_quorum c (fvAuthor ` set ds)" "length ds = hi c" "ACTION_COMMIT = finvote_answer c ds" and
    es: "set es \<subseteq> set ws" "committee_quorum c (fvAuthor ` set es)" "length es = hi c" "ACTION_NO = finvote_answer c es"
    by blast
  have yes: "yes_votes ds = length ds" using ds(3,4) by (simp add: finvote_answer_def split: if_splits)
  have nos: "no_votes es = length es" using es(3,4) by (simp add: finvote_answer_def split: if_splits)
  from cq.quorum_meet [OF tol ds(2) es(2)] obtain v w where
    "v \<in> set ds" "w \<in> set es" "fvAuthor v = fvAuthor w" "fvAuthor v \<notin> F" by auto
  with all_yes [OF yes] all_no [OF nos] same ds(1) es(1) show False by (metis subsetD)
qed

text \<open>
  C7. Agreement of final votes: with at most \<open>f\<close> faulty members of \<open>3 f + 1\<close>, if every correct
  member's final vote is the same wherever it is counted, then no node concludes NO for a round
  in which some node concludes COMMIT.
\<close>

theorem finvote_agreement:
  assumes tol: "committee_tolerates c F"
    and vs: "fvAuthor ` set vs \<subseteq> members c" and ws: "fvAuthor ` set ws \<subseteq> members c"
    and same: "\<And>v w. v \<in> set vs \<Longrightarrow> w \<in> set ws \<Longrightarrow> fvAuthor v = fvAuthor w \<Longrightarrow> fvAuthor v \<notin> F \<Longrightarrow>
      fvFlag v = fvFlag w"
    and commit: "ACTION_COMMIT \<in> set (decisions (snd (runs (FinVoteAggreator_Append c) NewFinVoteAggreator vs)))"
  shows "ACTION_NO \<notin> set (decisions (snd (runs (FinVoteAggreator_Append c) NewFinVoteAggreator ws)))"
  using commit_excludes_no [OF tol vs ws same commit] .

definition finvote_of :: "NodeID \<Rightarrow> int \<Rightarrow> FinVote" where
  "finvote_of a flag = \<lparr>fvAuthor = a, fvLeader = 0, fvEpoch = 0, fvRound = 0, fvFlag = flag,
     fvBlockHash = Digest0, fvSignature = no_sig\<rparr>"

theorem finvote_agreement_witness:
  "ACTION_COMMIT \<in> set (decisions (snd (runs (FinVoteAggreator_Append committee4) NewFinVoteAggreator
      [finvote_of 0 0, finvote_of 1 0, finvote_of 3 0]))) \<and>
   ACTION_NO \<notin> set (decisions (snd (runs (FinVoteAggreator_Append committee4) NewFinVoteAggreator
      [finvote_of 1 0, finvote_of 3 1, finvote_of 2 1])))"
proof -
  have commit: "ACTION_COMMIT \<in> set (decisions (snd (runs (FinVoteAggreator_Append committee4) NewFinVoteAggreator
      [finvote_of 0 0, finvote_of 1 0, finvote_of 3 0])))"
    by (simp add: FinVoteAggreator_Append_def NewFinVoteAggreator_def finvote_of_def)
  have "ACTION_NO \<notin> set (decisions (snd (runs (FinVoteAggreator_Append committee4) NewFinVoteAggreator
      [finvote_of 1 0, finvote_of 3 1, finvote_of 2 1])))"
    by (rule finvote_agreement [OF committee4_tolerates _ _ _ commit]) (auto simp: finvote_of_def)
  with commit show ?thesis by (rule conjI)
qed

text \<open>
  C21. The counter of final votes implements its specification on every sequence of votes: it
  concludes at most once, namely when the first \<open>2 f + 1\<close> different members have voted, and the
  conclusion is COMMIT, NO or YES as all, none or some of these votes say yes.
\<close>

theorem finvote_refines:
  "decisions (snd (runs (FinVoteAggreator_Append c) NewFinVoteAggreator vs)) =
     (case finvote_decision c vs of None \<Rightarrow> [] | Some d \<Rightarrow> [d])"
  by (rule finvote_decisions)

text \<open>
  Over any sequence of Finish messages the counter reports completion exactly once if
  \<open>2 f + 1\<close> different members are among the authors, and never otherwise.
\<close>

theorem finish_fires_once:
  "length (filter (\<lambda>r. r = Inr True) (snd (runs (FinishAggreator_Append c) NewFinishAggreator fs))) =
     (if hi c \<le> card (fAuthor ` set fs) then 1 else 0)"
proof -
  have "(\<lambda>r :: go_error + bool. r = Inr True) = (\<lambda>x. case x of Inl _ \<Rightarrow> False | Inr r \<Rightarrow> r)"
    by (auto simp: fun_eq_iff split: sum.splits)
  then show ?thesis
    using finc.fires_exactly_once [of NewFinishAggreator c fs] hi_pos [of c]
    by (simp add: finc.fired_def NewFinishAggreator_def)
qed

text \<open>
  C22. Over any sequence of Done messages the low flag comes exactly once if \<open>f + 1\<close> different
  members are among the authors; the high flag comes exactly once if \<open>2 f + 1\<close> are and \<open>f > 0\<close>,
  and never when the two thresholds coincide.
\<close>

theorem done_fires_once:
  "length (filter (\<lambda>r. r = Inr DONE_LOW_FLAG) (snd (runs (DoneAggreator_Append c) NewDoneAggreator ds))) =
     (if lo c \<le> card (dAuthor ` set ds) then 1 else 0) \<and>
   length (filter (\<lambda>r. r = Inr DONE_HIGH_FLAG) (snd (runs (DoneAggreator_Append c) NewDoneAggreator ds))) =
     (if lo c \<noteq> hi c \<and> hi c \<le> card (dAuthor ` set ds) then 1 else 0)"
proof -
  have f: "(\<lambda>r :: go_error + int. r = Inr k) = (\<lambda>x. case x of Inl _ \<Rightarrow> False | Inr r \<Rightarrow> r = k)" for k
    by (auto simp: fun_eq_iff split: sum.splits)
  have new: "finite (daAuthors NewDoneAggreator)" "daAuthors NewDoneAggreator = {}"
    by (simp_all add: NewDoneAggreator_def)
  show ?thesis
    using donelo.fires_exactly_once [of NewDoneAggreator c ds] donehi.fired_runs [of NewDoneAggreator c ds]
      lo_pos [of c] hi_pos [of c] new
    by (simp add: donelo.fired_def donehi.fired_def f)
qed

text \<open>
  Whatever prevotes a node counts for a round, the actions it takes are at most one NO and
  at most one YES, and a NO never follows a YES.
\<close>

theorem prevote_actions:
  "decisions (snd (runs (PreVoteAggreator_Append c) NewPrevoteAggreator vs)) \<in>
     {[], [ACTION_NO], [ACTION_YES], [ACTION_NO, ACTION_YES]}"
  using prevote_decisions_from [of NewPrevoteAggreator c vs]
  by (auto simp: prevote_inv_def NewPrevoteAggreator_def split: if_splits)

text \<open>Both actions do occur: a node can vote NO and then YES in the same round.\<close>

definition prevote_by :: "NodeID \<Rightarrow> int \<Rightarrow> Prevote" where
  "prevote_by a flag = \<lparr>pvAuthor = a, pvLeader = 0, pvEpoch = 0, pvRound = 0, pvFlag = flag,
     pvBlockHash = Digest0, pvSignature = no_sig\<rparr>"

theorem prevote_no_then_yes:
  "decisions (snd (runs (PreVoteAggreator_Append committee4) NewPrevoteAggreator
     [prevote_by 0 1, prevote_by 1 1, prevote_by 2 1, prevote_by 3 0])) = [ACTION_NO, ACTION_YES]"
  by (simp add: PreVoteAggreator_Append_def NewPrevoteAggreator_def prevote_by_def)

end
