(* ===== verification/Leader_Election.thy ===== *)
theory Leader_Election
  imports Aggregator
begin

text \<open>
  \<^verbatim>\<open>core/smvba/consensus/elector.go\<close>: the leaders known so far and the coin counters per epoch
  and round. \<^verbatim>\<open>AddShareVote\<close> drops the error of the counter and always returns a nil error, so
  only the node is returned. The lemmas specify the coin: which shares are combined, when a
  leader comes out, and that nodes with the same public polynomial elect the same leader.
\<close>

section \<open>The elector\<close>

record Elector =
  leaders :: "int \<rightharpoonup> (int \<rightharpoonup> NodeID)"
  electAggreators :: "int \<rightharpoonup> (int \<rightharpoonup> ElectAggreator)"
  elSigService :: SigService
  elCommittee :: Committee

definition NewElector :: "SigService \<Rightarrow> Committee \<Rightarrow> Elector" where
  "NewElector sg c =
     \<lparr>leaders = Map.empty, electAggreators = Map.empty, elSigService = sg, elCommittee = c\<rparr>"

definition SetLeader :: "Elector \<Rightarrow> int \<Rightarrow> int \<Rightarrow> NodeID \<Rightarrow> Elector" where
  "SetLeader el epoch round leader = el\<lparr>leaders := put2 (leaders el) epoch round leader\<rparr>"

text \<open>The reader also creates the inner map of the epoch.\<close>

definition Leader :: "Elector \<Rightarrow> int \<Rightarrow> int \<Rightarrow> Elector \<times> NodeID" where
  "Leader el epoch round =
     (let el' = el\<lparr>leaders := init2 (leaders el) epoch\<rparr>
      in (el', case get2 (leaders el') epoch round of Some node \<Rightarrow> node | None \<Rightarrow> NONE))"

definition AddShareVote ::
  "('a crypto_env_scheme) \<Rightarrow> Elector \<Rightarrow> ElectShare \<Rightarrow> (Elector \<times> NodeID) outcome" where
  "AddShareVote E el share =
     bind_outcome
       (ElectAggreator_Append E (elCommittee el) (elSigService el)
          (counter_at (electAggreators el) NewElectAggreator (eEpoch share) (eRound share)) share)
       (\<lambda>(eA, r).
          let el' = el\<lparr>electAggreators := put2 (electAggreators el) (eEpoch share) (eRound share) eA\<rparr> in
          case r of
            Inl _ \<Rightarrow> Ret (el', NONE)
          | Inr node \<Rightarrow>
              if node \<noteq> NONE then Ret (SetLeader el' (eEpoch share) (eRound share) node, node)
              else Ret (el', node))"

section \<open>The coin\<close>

lemma uint_byte: "uint (b :: byte) < 256"
  using uint_bounded [of b] by simp

lemma coin_rand_range: "coin_rand coin = Ret r \<Longrightarrow> 0 \<le> r \<and> r < 2 ^ 24"
  by (auto simp: coin_rand_def upt_rec split: if_splits)
    (use uint_byte in \<open>smt (verit) uint_ge_0\<close>)+

lemma elected_in_committee:
  assumes "ElectAggreator_Append E c sg e s = Ret (e', Inr node)" and "node \<noteq> NONE"
  shows "0 \<le> node \<and> node < Committee_Size c"
proof -
  from assms obtain rand where "coin_rand (projr (CombineIntactTSPartial E (eaShares e') (ShareKey sg)
      (ElectShare_Hash E s))) = Ret rand" and node: "node = rand smod Committee_Size c" "Committee_Size c \<noteq> 0"
    by (auto simp: ElectAggreator_Append_def Let_def split: if_splits sum.splits)
  moreover have "0 \<le> Committee_Size c" by (simp add: Committee_Size_def)
  ultimately show ?thesis using coin_rand_range by (simp add: smod_nonneg)
qed

lemma elected_coin:
  assumes "ElectAggreator_Append E c sg e s = Ret (e', Inr node)" and "node \<noteq> NONE"
  shows "\<exists>coin rand. CombineIntactTSPartial E (eaShares e') (ShareKey sg) (ElectShare_Hash E s) = Inr coin
     \<and> coin_rand coin = Ret rand \<and> node = rand smod Committee_Size c"
  using assms by (auto simp: ElectAggreator_Append_def Let_def split: if_splits sum.splits)

lemma ElectShare_Hash_cong:
  "eEpoch s = eEpoch s' \<Longrightarrow> eRound s = eRound s' \<Longrightarrow> ElectShare_Hash E s = ElectShare_Hash E s'"
  by (simp add: ElectShare_Hash_def)

text \<open>
  Two counters with one public polynomial and one threshold elect the same node, if the coins
  recovered under these are one function of the message.
\<close>

lemma elected_agree:
  assumes "ElectAggreator_Append E c sg e s = Ret (e1, Inr n1)" and "n1 \<noteq> NONE"
    and "ElectAggreator_Append E c sg' e' s' = Ret (e2, Inr n2)" and "n2 \<noteq> NONE"
    and "PubPoly (ShareKey sg) = pub" "PubPoly (ShareKey sg') = pub" "ShareT (ShareKey sg) = t" "ShareT (ShareKey sg') = t"
    and "\<forall>d shares n sig. tbls_recover E pub d shares t n = Inr sig \<longrightarrow> sig = full d"
    and "eEpoch s = eEpoch s'" and "eRound s = eRound s'"
  shows "n1 = n2"
proof -
  from elected_coin [OF assms(1,2)] obtain coin rand where
    1: "CombineIntactTSPartial E (eaShares e1) (ShareKey sg) (ElectShare_Hash E s) = Inr coin"
      "coin_rand coin = Ret rand" "n1 = rand smod Committee_Size c" by blast
  from elected_coin [OF assms(3,4)] obtain coin' rand' where
    2: "CombineIntactTSPartial E (eaShares e2) (ShareKey sg') (ElectShare_Hash E s') = Inr coin'"
      "coin_rand coin' = Ret rand'" "n2 = rand' smod Committee_Size c" by blast
  have "coin = full (ElectShare_Hash E s)" "coin' = full (ElectShare_Hash E s')"
    using 1(1) 2(1) assms(5-9) by (simp_all add: CombineIntactTSPartial_def)
  then have "coin = coin'" using ElectShare_Hash_cong [OF assms(10,11), of E] by simp
  with 1 2 show ?thesis by simp
qed

section \<open>A run of the coin counter\<close>

text \<open>The leaders a counter reports over a sequence of shares.\<close>

fun elects ::
  "('a crypto_env_scheme) \<Rightarrow> Committee \<Rightarrow> SigService \<Rightarrow> ElectAggreator \<Rightarrow> ElectShare list
   \<Rightarrow> NodeID list outcome" where
  "elects E c sg e [] = Ret []"
| "elects E c sg e (s # ss) =
     bind_outcome (ElectAggreator_Append E c sg e s) (\<lambda>(e', r).
       bind_outcome (elects E c sg e' ss) (\<lambda>ls.
         Ret (case r of Inl _ \<Rightarrow> ls | Inr n \<Rightarrow> if n = NONE then ls else n # ls)))"

text \<open>The specification: the first \<open>2 f + 1\<close> different authors decide, once and for all.\<close>

definition coin_leader ::
  "('a crypto_env_scheme) \<Rightarrow> Committee \<Rightarrow> SigService \<Rightarrow> Digest \<Rightarrow> ElectShare list \<Rightarrow> NodeID list outcome" where
  "coin_leader E c sg d fs =
     (if length fs < hi c then Ret []
      else case CombineIntactTSPartial E (map eSigShare (take (hi c) fs)) (ShareKey sg) d of
             Inl _ \<Rightarrow> Ret []
           | Inr coin \<Rightarrow> bind_outcome (coin_rand coin) (\<lambda>rand. Ret [rand smod Committee_Size c]))"

definition coin_state :: "ElectShare list \<Rightarrow> ElectAggreator" where
  "coin_state ds = \<lparr>eaShares = map eSigShare ds, eaAuthors = eAuthor ` set ds\<rparr>"

lemma coin_state_Nil: "coin_state [] = NewElectAggreator"
  by (simp add: coin_state_def NewElectAggreator_def)

lemma Append_again:
  "eAuthor s \<in> eAuthor ` set ds \<Longrightarrow>
   \<exists>x. ElectAggreator_Append E c sg (coin_state ds) s = Ret (coin_state ds, Inl x)"
  by (simp add: ElectAggreator_Append_def coin_state_def)

lemma Append_new:
  "eAuthor s \<notin> eAuthor ` set ds \<Longrightarrow> length ds + 1 \<noteq> hi c \<Longrightarrow>
   ElectAggreator_Append E c sg (coin_state ds) s = Ret (coin_state (ds @ [s]), Inr NONE)"
  by (simp add: ElectAggreator_Append_def coin_state_def HightThreshold_hi)

lemma Append_threshold:
  "eAuthor s \<notin> eAuthor ` set ds \<Longrightarrow> length ds + 1 = hi c \<Longrightarrow> Committee_Size c \<noteq> 0 \<Longrightarrow>
   ElectAggreator_Append E c sg (coin_state ds) s =
     (case CombineIntactTSPartial E (map eSigShare (ds @ [s])) (ShareKey sg) (ElectShare_Hash E s) of
        Inl x \<Rightarrow> Ret (coin_state (ds @ [s]), Inl x)
      | Inr coin \<Rightarrow> bind_outcome (coin_rand coin) (\<lambda>rand.
          Ret (coin_state (ds @ [s]), Inr (rand smod Committee_Size c))))"
  by (simp add: ElectAggreator_Append_def coin_state_def HightThreshold_hi Let_def split: sum.split)

lemma elects_past:
  assumes "hi c \<le> length ds"
  shows "elects E c sg (coin_state ds) ss = Ret []"
  using assms
proof (induction ss arbitrary: ds)
  case (Cons s ss)
  show ?case
  proof (cases "eAuthor s \<in> eAuthor ` set ds")
    case True
    from Append_again [OF this, of E c sg] Cons show ?thesis by auto
  next
    case False
    from Append_new [OF this, of c E sg] Cons.prems Cons.IH [of "ds @ [s]"] show ?thesis by simp
  qed
qed simp

lemma elects_from:
  assumes "length ds < hi c" and "Committee_Size c \<noteq> 0" and "\<forall>s \<in> set ss. ElectShare_Hash E s = d"
  shows "elects E c sg (coin_state ds) ss = coin_leader E c sg d (ds @ firsts eAuthor (eAuthor ` set ds) ss)"
  using assms
proof (induction ss arbitrary: ds)
  case Nil
  then show ?case by (simp add: coin_leader_def)
next
  case (Cons s ss)
  consider "eAuthor s \<in> eAuthor ` set ds" | "eAuthor s \<notin> eAuthor ` set ds" "length ds + 1 = hi c"
    | "eAuthor s \<notin> eAuthor ` set ds" "length ds + 1 \<noteq> hi c" by blast
  then show ?case
  proof cases
    case 1
    from Append_again [OF this, of E c sg] Cons 1 show ?thesis by auto
  next
    case 2
    have "elects E c sg (coin_state (ds @ [s])) ss = Ret []" using 2(2) by (intro elects_past) simp
    moreover have "take (hi c) (ds @ s # fs) = ds @ [s]" for fs using 2(2) [symmetric] by simp
    moreover have "ElectShare_Hash E s = d" using Cons.prems(3) by simp
    moreover have "rand smod Committee_Size c \<noteq> NONE" if "coin_rand coin = Ret rand" for coin rand
    proof -
      have n: "0 < Committee_Size c" using Cons.prems(2) by (simp add: Committee_Size_def)
      from smod_nonneg [OF _ n, of rand] coin_rand_range [OF that] pos_mod_sign [OF n, of rand]
      show ?thesis by linarith
    qed
    ultimately show ?thesis
      using 2 Cons.prems(2)
      by (cases "CombineIntactTSPartial E (map eSigShare (ds @ [s])) (ShareKey sg) d";
          cases "coin_rand (projr (CombineIntactTSPartial E (map eSigShare (ds @ [s])) (ShareKey sg) d))")
        (auto simp: coin_leader_def Append_threshold)
  next
    case 3
    then have "elects E c sg (coin_state ds) (s # ss) = elects E c sg (coin_state (ds @ [s])) ss"
      by (simp add: Append_new)
    also have "\<dots> = coin_leader E c sg d ((ds @ [s]) @ firsts eAuthor (eAuthor ` set (ds @ [s])) ss)"
      using 3 Cons.prems by (intro Cons.IH) simp_all
    finally show ?thesis using 3 by simp
  qed
qed

lemma elects_spec:
  assumes "Committee_Size c \<noteq> 0" and "\<forall>s \<in> set ss. ElectShare_Hash E s = d"
  shows "elects E c sg NewElectAggreator ss = coin_leader E c sg d (firsts eAuthor {} ss)"
  using elects_from [of "[]" c ss E d sg] assms hi_pos [of c] by (simp add: coin_state_Nil)

section \<open>The elector's operations\<close>

lemma Leader_SetLeader [simp]:
  "snd (Leader (SetLeader el e r n) e' r') = (if e' = e \<and> r' = r then n else snd (Leader el e' r'))"
  by (simp add: Leader_def SetLeader_def Let_def)

lemma Leader_pure [simp]: "snd (Leader (fst (Leader el e r)) e' r') = snd (Leader el e' r')"
  by (simp add: Leader_def Let_def)

lemma AddShareVote_cases:
  assumes "AddShareVote E el s = Ret (el', node)"
  obtains (none) eA where "node = NONE"
      "el' = el\<lparr>electAggreators := put2 (electAggreators el) (eEpoch s) (eRound s) eA\<rparr>"
  | (elected) eA where "node \<noteq> NONE"
      "ElectAggreator_Append E (elCommittee el) (elSigService el)
         (counter_at (electAggreators el) NewElectAggreator (eEpoch s) (eRound s)) s = Ret (eA, Inr node)"
      "el' = SetLeader (el\<lparr>electAggreators := put2 (electAggreators el) (eEpoch s) (eRound s) eA\<rparr>)
                (eEpoch s) (eRound s) node"
proof -
  from assms obtain eA r where
    a: "ElectAggreator_Append E (elCommittee el) (elSigService el)
         (counter_at (electAggreators el) NewElectAggreator (eEpoch s) (eRound s)) s = Ret (eA, r)"
    by (auto simp: AddShareVote_def)
  show thesis
  proof (cases r)
    case (Inl x)
    with assms a show thesis by (intro none [of eA]) (auto simp: AddShareVote_def Let_def)
  next
    case (Inr n)
    with assms a show thesis
      by (cases "n = NONE") (auto simp: AddShareVote_def Let_def intro: none [of eA] elected [of eA])
  qed
qed

lemma AddShareVote_leader:
  assumes "AddShareVote E el s = Ret (el', node)"
  shows "snd (Leader el' e r) =
    (if node \<noteq> NONE \<and> e = eEpoch s \<and> r = eRound s then node else snd (Leader el e r))"
  using assms by (cases rule: AddShareVote_cases) (simp_all add: Leader_def SetLeader_def Let_def)

text \<open>No operation changes the keys and the committee the elector works with.\<close>

definition same_keys :: "Elector \<Rightarrow> Elector \<Rightarrow> bool" where
  "same_keys el el' \<longleftrightarrow> elSigService el' = elSigService el \<and> elCommittee el' = elCommittee el"

lemma SetLeader_keys: "same_keys el (SetLeader el e r n)"
  and Leader_keys: "same_keys el (fst (Leader el e r))"
  by (simp_all add: same_keys_def SetLeader_def Leader_def Let_def)

lemma AddShareVote_keys: "AddShareVote E el s = Ret (el', node) \<Longrightarrow> same_keys el el'"
  by (erule AddShareVote_cases) (simp_all add: SetLeader_def same_keys_def)

section \<open>Properties\<close>

text \<open>
  C23. The coin counter implements its specification on every sequence of shares of one epoch
  and round: nothing before the \<open>2 f + 1\<close>-st different author, then the leader the recovered
  coin stands for, or no leader ever when those first shares do not combine.
\<close>

theorem coin_refines:
  assumes "Committee_Size c \<noteq> 0" and "\<And>s. s \<in> set ss \<Longrightarrow> eEpoch s = epoch \<and> eRound s = round"
  shows "elects E c sg NewElectAggreator ss =
    coin_leader E c sg (hash_parts E [AppendInt epoch, AppendInt round]) (firsts eAuthor {} ss)"
  using assms by (intro elects_spec) (simp_all add: ElectShare_Hash_def)

definition sample_share_of :: "NodeID \<Rightarrow> ElectShare" where
  "sample_share_of a = \<lparr>eAuthor = a, eEpoch = 0, eRound = 0, eSigShare = \<lparr>PartialSig = [1]\<rparr>\<rparr>"

theorem coin_refines_witness:
  "elects sample_store_env committee4 sample_sig NewElectAggreator [sample_share_of 0, sample_share_of 0, sample_share_of 1] =
   coin_leader sample_store_env committee4 sample_sig (hash_parts sample_store_env [AppendInt 0, AppendInt 0])
     (firsts eAuthor {} [sample_share_of 0, sample_share_of 0, sample_share_of 1])"
  by (rule coin_refines) (auto simp: sample_share_of_def)

end
