(* ===== verification/Network.thy ===== *)
theory Network
  imports Core_Config
begin

text \<open>
  Package \<^verbatim>\<open>network\<close> and the two transmitters: the sender loop with its table of connections,
  the codec and the receiver loop (\<^verbatim>\<open>network/network.go\<close>, \<^verbatim>\<open>network/codec.go\<close>), and the address
  selection of \<^verbatim>\<open>core/transmitor.go\<close> and \<^verbatim>\<open>mempool/transmit.go\<close>.

  The message type is a type variable. A connection is the list of messages put into its
  channel. Whether a dial succeeds is an argument of the step that dials. A gob stream is the
  list of the values encoded on it; how a value decodes as the struct of a given type is the
  parameter \<open>decode_as\<close>.
\<close>

section \<open>Sending\<close>

record 'm NetMessage =
  Msg :: 'm
  Address :: "string list"

record 'm Sender =
  msgCh :: "'m NetMessage list"
  conns :: "string \<rightharpoonup> 'm list"

definition NewSender :: "'m Sender" where
  "NewSender = \<lparr>msgCh = [], conns = Map.empty\<rparr>"

definition Sender_Send :: "'m Sender \<Rightarrow> 'm NetMessage \<Rightarrow> 'm Sender" where
  "Sender_Send s nm = s\<lparr>msgCh := msgCh s @ [nm]\<rparr>"

text \<open>The inner loop body of \<^verbatim>\<open>Sender.Run\<close> for one address; \<open>dial\<close> says which dials fail.\<close>

definition Sender_deliver ::
  "(string \<Rightarrow> go_error option) \<Rightarrow> 'm \<Rightarrow> 'm Sender \<Rightarrow> string \<Rightarrow> 'm Sender" where
  "Sender_deliver dial m s addr =
     (case conns s addr of
        Some ch \<Rightarrow> s\<lparr>conns := (conns s)(addr \<mapsto> ch @ [m])\<rparr>
      | None \<Rightarrow>
          (case dial addr of
             Some e \<Rightarrow> s
           | None \<Rightarrow> s\<lparr>conns := (conns s)(addr \<mapsto> [m])\<rparr>))"

definition Sender_Run_step ::
  "(string \<Rightarrow> go_error option) \<Rightarrow> 'm Sender \<Rightarrow> 'm NetMessage \<Rightarrow> 'm Sender" where
  "Sender_Run_step dial s msg = foldl (Sender_deliver dial (Msg msg)) s (Address msg)"

definition Transmitor_Send :: "Committee \<Rightarrow> NodeID \<Rightarrow> NodeID \<Rightarrow> 'm \<Rightarrow> 'm NetMessage" where
  "Transmitor_Send c from to m =
     \<lparr>Msg = m,
      Address = (if to = NONE then Committee_BroadCast c from else [Committee_Address c to])\<rparr>"

definition MempoolSend :: "Committee \<Rightarrow> NodeID \<Rightarrow> NodeID \<Rightarrow> 'm \<Rightarrow> 'm NetMessage" where
  "MempoolSend c from to m =
     \<lparr>Msg = m,
      Address = (if to = NONE then Committee_MempoolBroadCast c from
                 else [Committee_MempoolAddress c to])\<rparr>"

section \<open>The codec\<close>

datatype 'm gobval = GobInt int | GobMsg 'm

record 'm Codec =
  types :: "int set"
  decode_as :: "int \<Rightarrow> 'm \<Rightarrow> go_error + 'm"
  msg_type :: "'m \<Rightarrow> int"

text \<open>A value encoded from a struct decodes as a struct of the same type to the same value.\<close>

definition gob_ok :: "'m Codec \<Rightarrow> bool" where
  "gob_ok cc \<longleftrightarrow> (\<forall>m. decode_as cc (msg_type cc m) m = Inr m)"

definition Codec_Write :: "'m Codec \<Rightarrow> 'm gobval list \<Rightarrow> 'm \<Rightarrow> 'm gobval list" where
  "Codec_Write cc w m = w @ [GobInt (msg_type cc m), GobMsg m]"

abbreviation io_EOF :: go_error where "io_EOF \<equiv> ErrExternal ''EOF''"
abbreviation gob_mismatch :: go_error where "gob_mismatch \<equiv> ErrExternal ''gob: type mismatch''"

text \<open>\<^verbatim>\<open>reflect.New(nil)\<close> panics: a type id without an entry in the type map.\<close>

definition Codec_Read :: "'m Codec \<Rightarrow> 'm gobval list \<Rightarrow> (go_error + 'm \<times> 'm gobval list) outcome" where
  "Codec_Read cc w =
     (case w of
        [] \<Rightarrow> Ret (Inl io_EOF)
      | GobMsg _ # w1 \<Rightarrow> Ret (Inl gob_mismatch)
      | GobInt t # w1 \<Rightarrow>
          if t \<notin> types cc then Panic ''reflect: New(nil)''
          else (case w1 of
                  [] \<Rightarrow> Ret (Inl io_EOF)
                | GobInt _ # w2 \<Rightarrow> Ret (Inl gob_mismatch)
                | GobMsg m # w2 \<Rightarrow>
                    Ret (case decode_as cc t m of Inl e \<Rightarrow> Inl e | Inr m' \<Rightarrow> Inr (m', w2))))"

lemma Codec_Read_shorter:
  "Codec_Read cc w = Ret (Inr (m, w')) \<Longrightarrow> length w' < length w"
  by (auto simp: Codec_Read_def split: list.splits gobval.splits if_splits sum.splits)

text \<open>\<^verbatim>\<open>Receiver.serveConn\<close>: the messages put into the receiver's channel until a read fails.\<close>

function serveConn :: "'m Codec \<Rightarrow> 'm gobval list \<Rightarrow> 'm list outcome" where
  "serveConn cc w =
     (case Codec_Read cc w of
        Panic e \<Rightarrow> Panic e
      | Ret (Inl e) \<Rightarrow> Ret []
      | Ret (Inr (m, w')) \<Rightarrow> bind_outcome (serveConn cc w') (\<lambda>ms. Ret (m # ms)))"
  by pat_completeness auto
termination
  by (relation "measure (\<lambda>(cc, w). length w)") (auto dest: Codec_Read_shorter)

declare serveConn.simps [simp del]

section \<open>The receive channels\<close>

text \<open>
  The goroutine of each transmitter that takes the messages of its receiver: those of its own
  module go into its channel, any other is dropped with a warning.
\<close>

definition Transmitor_forward :: "('m \<Rightarrow> string) \<Rightarrow> 'm list \<Rightarrow> 'm \<Rightarrow> 'm list" where
  "Transmitor_forward module recvCh m = (if module m = ''consensus'' then recvCh @ [m] else recvCh)"

definition Transmit_forward :: "('m \<Rightarrow> string) \<Rightarrow> 'm list \<Rightarrow> 'm \<Rightarrow> 'm list" where
  "Transmit_forward module mempoolCh m = (if module m = ''mempool'' then mempoolCh @ [m] else mempoolCh)"

section \<open>Facts\<close>

lemma Sender_deliver_other:
  "a \<noteq> addr \<Longrightarrow> conns (Sender_deliver dial m s addr) a = conns s a"
  by (auto simp: Sender_deliver_def split: option.splits)

lemma Sender_deliver_reachable:
  "dial addr = None \<Longrightarrow>
   conns (Sender_deliver dial m s addr) addr =
     Some ((case conns s addr of None \<Rightarrow> [] | Some ch \<Rightarrow> ch) @ [m])"
  by (auto simp: Sender_deliver_def split: option.splits)

text \<open>What a connection has carried; no connection yet is the empty log.\<close>

definition carried :: "'m Sender \<Rightarrow> string \<Rightarrow> 'm list" where
  "carried s a = (case conns s a of None \<Rightarrow> [] | Some ch \<Rightarrow> ch)"

lemma carried_deliver:
  "dial a = None \<Longrightarrow>
   carried (Sender_deliver dial m s addr) a = carried s a @ (if a = addr then [m] else [])"
  by (auto simp: carried_def Sender_deliver_other Sender_deliver_reachable)

lemma carried_deliver_all:
  "dial a = None \<Longrightarrow>
   carried (foldl (Sender_deliver dial m) s as) a = carried s a @ replicate (count_list as a) m"
  by (induction as arbitrary: s) (simp_all add: carried_deliver replicate_append_same)

lemma carried_step:
  "dial a = None \<Longrightarrow>
   carried (Sender_Run_step dial s nm) a = carried s a @ replicate (count_list (Address nm) a) (Msg nm)"
  by (simp add: Sender_Run_step_def carried_deliver_all)

lemma Codec_Read_written:
  assumes "gob_ok cc" and "msg_type cc m \<in> types cc"
  shows "Codec_Read cc (Codec_Write cc [] m @ w) = Ret (Inr (m, w))"
  using assms by (simp add: Codec_Read_def Codec_Write_def gob_ok_def)

lemma foldl_Codec_Write: "foldl (Codec_Write cc) w ms = w @ concat (map (Codec_Write cc []) ms)"
  by (induction ms arbitrary: w) (auto simp: Codec_Write_def)

lemma serveConn_written:
  assumes "gob_ok cc" and "\<forall>m \<in> set ms. msg_type cc m \<in> types cc"
  shows "serveConn cc (concat (map (Codec_Write cc []) ms)) = Ret ms"
  using assms(2)
proof (induction ms)
  case Nil
  show ?case by (subst serveConn.simps) (simp add: Codec_Read_def)
next
  case (Cons m ms)
  then show ?case
    using Codec_Read_written [OF assms(1), of m] by (subst serveConn.simps) simp
qed

lemma forward_filter:
  "foldl (Transmitor_forward module) ch ms = ch @ filter (\<lambda>m. module m = ''consensus'') ms"
  "foldl (Transmit_forward module) ch ms = ch @ filter (\<lambda>m. module m = ''mempool'') ms"
  by (induction ms arbitrary: ch) (auto simp: Transmitor_forward_def Transmit_forward_def)

text \<open>
  To an address that can be dialled the sender delivers the messages addressed to it in the order
  they were handed over, each once per occurrence of the address.
\<close>

lemma carried_all:
  "dial a = None \<Longrightarrow> carried (foldl (Sender_Run_step dial) s msgs) a =
    carried s a @ concat (map (\<lambda>nm. replicate (count_list (Address nm) a) (Msg nm)) msgs)"
  by (induction msgs arbitrary: s) (simp_all add: carried_step)

lemma count_list_distinct: "distinct xs \<Longrightarrow> count_list xs x = (if x \<in> set xs then 1 else 0)"
  by (induction xs) auto

text \<open>How often an address of a member occurs in what is sent by another member.\<close>

definition addresses_ok :: "(Authority \<Rightarrow> string) \<Rightarrow> Committee \<Rightarrow> bool" where
  "addresses_ok adr c \<longleftrightarrow> wf_committee c \<and> distinct (map (adr \<circ> snd) (Authorities c))"

lemma addresses_inj:
  assumes "addresses_ok adr c" and "i \<in> members c" and "j \<in> members c"
  shows "adr (lookup_authority c i) = adr (lookup_authority c j) \<longleftrightarrow> i = j"
proof -
  obtain a b where ab: "(i, a) \<in> set (Authorities c)" "(j, b) \<in> set (Authorities c)"
    using assms(2,3) by (auto simp: members_def)
  then have "lookup_authority c i = a" "lookup_authority c j = b"
    using assms(1) by (simp_all add: addresses_ok_def wf_committee_def lookup_authority_def)
  moreover have "adr a = adr b \<Longrightarrow> i = j"
    using assms(1) ab inj_onD [of "adr \<circ> snd" "set (Authorities c)" "(i, a)" "(j, b)"]
    by (simp add: addresses_ok_def distinct_map)
  ultimately show ?thesis by auto
qed

lemma broadcast_count:
  assumes "addresses_ok adr c" and "j \<in> members c" and "j \<noteq> from"
  shows "count_list (map (adr \<circ> snd) (filter (\<lambda>(i, a). i \<noteq> from) (Authorities c))) (adr (lookup_authority c j)) = 1"
proof -
  obtain b where b: "(j, b) \<in> set (Authorities c)" using assms(2) by (auto simp: members_def)
  then have "lookup_authority c j = b"
    using assms(1) by (simp add: addresses_ok_def wf_committee_def lookup_authority_def)
  moreover have "adr b \<in> set (map (adr \<circ> snd) (filter (\<lambda>(i, a). i \<noteq> from) (Authorities c)))"
    using b assms(3) by force
  moreover have "distinct (map (adr \<circ> snd) (filter (\<lambda>(i, a). i \<noteq> from) (Authorities c)))"
    using assms(1) unfolding addresses_ok_def by (intro distinct_map_filter) blast
  ultimately show ?thesis by (simp add: count_list_distinct)
qed

text \<open>Sending to all or to one member, seen from the connection to another member.\<close>

lemma to_member_count:
  assumes ok: "addresses_ok adr c" "j \<in> members c" "j \<noteq> from" and to: "to = NONE \<or> to \<in> members c"
  shows "count_list (if to = NONE then map (adr \<circ> snd) (filter (\<lambda>(i, a). i \<noteq> from) (Authorities c))
      else [adr (lookup_authority c to)]) (adr (lookup_authority c j)) = (if to = NONE \<or> to = j then 1 else 0)"
proof (cases "to = NONE")
  case True
  then show ?thesis using broadcast_count [OF ok] by simp
next
  case False
  with to show ?thesis using addresses_inj [OF ok(1) _ ok(2), of to] by auto
qed

lemma to_member_due:
  assumes ok: "addresses_ok adr c" "j \<in> members c" "j \<noteq> from"
    and to: "\<forall>(to, m) \<in> set sends. to = NONE \<or> to \<in> members c"
    and Address: "\<And>to m. Address (send to m) = (if to = NONE
      then map (adr \<circ> snd) (filter (\<lambda>(i, a). i \<noteq> from) (Authorities c)) else [adr (lookup_authority c to)])"
    and Msg: "\<And>to m. Msg (send to m) = m"
  shows "concat (map (\<lambda>nm. replicate (count_list (Address nm) (adr (lookup_authority c j))) (Msg nm))
      (map (\<lambda>(to, m). send to m) sends)) = map snd (filter (\<lambda>(to, m). to = NONE \<or> to = j) sends)"
proof -
  have "count_list (Address (send to m)) (adr (lookup_authority c j)) = (if to = NONE \<or> to = j then 1 else 0)"
    if "to = NONE \<or> to \<in> members c" for to m
    unfolding Address by (rule to_member_count [OF ok that])
  with to show ?thesis by (induction sends) (auto simp: Msg split: if_splits)
qed

lemma carried_to_member:
  assumes ok: "addresses_ok adr c" "j \<in> members c" "j \<noteq> from" and dial: "dial (adr (lookup_authority c j)) = None"
    and to: "\<forall>(to, m) \<in> set sends. to = NONE \<or> to \<in> members c"
    and Address: "\<And>to m. Address (send to m) = (if to = NONE
      then map (adr \<circ> snd) (filter (\<lambda>(i, a). i \<noteq> from) (Authorities c)) else [adr (lookup_authority c to)])"
    and Msg: "\<And>to m. Msg (send to m) = m"
  shows "carried (foldl (Sender_Run_step dial) NewSender (map (\<lambda>(to, m). send to m) sends)) (adr (lookup_authority c j)) =
    map snd (filter (\<lambda>(to, m). to = NONE \<or> to = j) sends)"
  using to_member_due [OF ok to Address Msg]
  by (subst carried_all [of dial "adr (lookup_authority c j)", OF dial]) (simp add: carried_def NewSender_def)

section \<open>Properties\<close>

text \<open>
  What the peer writes with the codec is what the receiver reads: the connection handler
  returns exactly the messages written, in order, when their type ids are registered.
\<close>

theorem connection_roundtrip:
  assumes "gob_ok cc" and "\<forall>m \<in> set ms. msg_type cc m \<in> types cc"
  shows "serveConn cc (foldl (Codec_Write cc) [] ms) = Ret ms"
  using serveConn_written [OF assms] by (simp add: foldl_Codec_Write)

text \<open>
  The transport between two members. Whatever a member sends to all or to single members, the
  receive channel of another member that can be dialled gets exactly the messages sent to all or to
  it, in the order of sending and once each, if the addresses of the committee differ and the
  messages are of registered types: from the choice of addresses through the sender's connection,
  the codec on both sides and the forwarding by module. This holds for the consensus transport and
  for the mempool's.
\<close>

theorem transport_delivers:
  assumes "gob_ok cc" and "j \<in> members c" and "j \<noteq> from"
    and "\<forall>(to, m) \<in> set sends. (to = NONE \<or> to \<in> members c) \<and> msg_type cc m \<in> types cc"
  shows "(addresses_ok Addr c \<and> dial (Committee_Address c j) = None \<longrightarrow>
      bind_outcome (serveConn cc (foldl (Codec_Write cc) [] (carried (foldl (Sender_Run_step dial) NewSender
          (map (\<lambda>(to, m). Transmitor_Send c from to m) sends)) (Committee_Address c j))))
        (\<lambda>ms. Ret (foldl (Transmitor_forward module) [] ms)) =
      Ret (filter (\<lambda>m. module m = ''consensus'') (map snd (filter (\<lambda>(to, m). to = NONE \<or> to = j) sends)))) \<and>
    (addresses_ok MempoolAddr c \<and> dial (Committee_MempoolAddress c j) = None \<longrightarrow>
      bind_outcome (serveConn cc (foldl (Codec_Write cc) [] (carried (foldl (Sender_Run_step dial) NewSender
          (map (\<lambda>(to, m). MempoolSend c from to m) sends)) (Committee_MempoolAddress c j))))
        (\<lambda>ms. Ret (foldl (Transmit_forward module) [] ms)) =
      Ret (filter (\<lambda>m. module m = ''mempool'') (map snd (filter (\<lambda>(to, m). to = NONE \<or> to = j) sends))))"
proof -
  let ?ms = "map snd (filter (\<lambda>(to, m). to = NONE \<or> to = j) sends)"
  have to: "\<forall>(to, m) \<in> set sends. to = NONE \<or> to \<in> members c" using assms(4) by auto
  have "\<forall>m \<in> set ?ms. msg_type cc m \<in> types cc" using assms(4) by auto
  then have written: "serveConn cc (foldl (Codec_Write cc) [] ?ms) = Ret ?ms"
    unfolding foldl_Codec_Write append_Nil by (rule serveConn_written [OF assms(1)])
  have "carried (foldl (Sender_Run_step dial) NewSender (map (\<lambda>(to, m). Transmitor_Send c from to m) sends))
      (Committee_Address c j) = ?ms" if "addresses_ok Addr c \<and> dial (Committee_Address c j) = None"
    unfolding Committee_Address_def
    by (rule carried_to_member [of Addr c j "from" dial sends "Transmitor_Send c from"])
      (use that assms(2,3) to in \<open>simp_all add: Committee_Address_def Transmitor_Send_def Committee_BroadCast_eq\<close>)
  moreover have "carried (foldl (Sender_Run_step dial) NewSender (map (\<lambda>(to, m). MempoolSend c from to m) sends))
      (Committee_MempoolAddress c j) = ?ms" if "addresses_ok MempoolAddr c \<and> dial (Committee_MempoolAddress c j) = None"
    unfolding Committee_MempoolAddress_def
    by (rule carried_to_member [of MempoolAddr c j "from" dial sends "MempoolSend c from"])
      (use that assms(2,3) to in \<open>simp_all add: Committee_MempoolAddress_def MempoolSend_def Committee_MempoolBroadCast_eq\<close>)
  ultimately show ?thesis using written by (simp add: forward_filter del: filter_map map_map)
qed

theorem connection_roundtrip_witness:
  "serveConn \<lparr>types = {0, 1}, decode_as = (\<lambda>t m. Inr m), msg_type = (\<lambda>b. if b then 1 else 0)\<rparr>
     (foldl (Codec_Write \<lparr>types = {0, 1}, decode_as = (\<lambda>t m. Inr m), msg_type = (\<lambda>b. if b then 1 else 0)\<rparr>)
        [] [True, False]) = Ret [True, False]"
  by (rule connection_roundtrip) (simp_all add: gob_ok_def)

definition committee_abc :: Committee where
  "committee_abc = \<lparr>Authorities = [(0, zero_Authority\<lparr>Addr := ''a''\<rparr>), (1, zero_Authority\<lparr>Addr := ''b''\<rparr>),
     (2, zero_Authority\<lparr>Addr := ''c''\<rparr>)]\<rparr>"

definition bool_codec :: "bool Codec" where
  "bool_codec = \<lparr>types = {0, 1}, decode_as = (\<lambda>t m. Inr m), msg_type = (\<lambda>b. if b then 1 else 0)\<rparr>"

theorem transport_delivers_witness:
  "bind_outcome (serveConn bool_codec (foldl (Codec_Write bool_codec) []
        (carried (foldl (Sender_Run_step (\<lambda>_. None)) NewSender
          (map (\<lambda>(to, m). Transmitor_Send committee_abc 0 to m) [(NONE, True), (2, True), (1, False)]))
          (Committee_Address committee_abc 1))))
      (\<lambda>ms. Ret (foldl (Transmitor_forward (\<lambda>_. ''consensus'')) [] ms)) = Ret [True, False]"
proof -
  have "gob_ok bool_codec" "1 \<in> members committee_abc" "(1 :: int) \<noteq> 0"
    "\<forall>(to, m) \<in> set [(NONE, True), (2, True), (1, False)]. (to = NONE \<or> to \<in> members committee_abc) \<and> msg_type bool_codec m \<in> types bool_codec"
    by (simp_all add: gob_ok_def bool_codec_def members_def committee_abc_def)
  from transport_delivers [OF this, of "\<lambda>_. None" "\<lambda>_. ''consensus''", THEN conjunct1]
  show ?thesis by (simp add: addresses_ok_def wf_committee_def committee_abc_def zero_Authority_def)
qed

end
