(* ===== verification/Synchronizer.thy ===== *)
theory Synchronizer
  imports Mempool_Message Network
begin

text \<open>
  \<^verbatim>\<open>mempool/synchronizer.go\<close>: checking that the payloads of a consensus block are stored, and
  fetching the missing ones. The goroutine \<^verbatim>\<open>Run\<close> is split into one function per case of its
  \<^verbatim>\<open>select\<close>; a \<^verbatim>\<open>waiter\<close> goroutine is a record whose list of digests shrinks as its blocking
  reads return. A blocking read is a request to the store goroutine of theory \<open>Store\<close> and returns
  when that has answered, so a step of the synchronizer is a step on the store as well. The reads
  that a cancelled waiter still makes are left out: nothing depends on their answers.
  Times are nanoseconds; the current time is an argument.
\<close>

section \<open>State\<close>

record pendingEntry =
  peEpoch :: int
  peNotify :: nat
  peLastSend :: int
  peMissing :: "Digest list"
  peAuthor :: NodeID

record waiterState =
  wHash :: Digest
  wRemaining :: "Digest list"
  wNotify :: nat
  wAsked :: "nat option"

text \<open>
  \<open>wAsked\<close>: the reply channel of the blocking read the waiter is in. \<open>syClosed\<close>: the notify
  channels that have been closed; \<open>syFresh\<close>: the next of them; \<open>syReads\<close>: the next reply channel;
  \<open>sySent\<close>: what was handed to the transmitter.
\<close>

record Synchronizer =
  syName :: NodeID
  syCommittee :: Committee
  syParameters :: Parameters
  interChan :: "mempool_msg list"
  LoopBackChan :: "Digest list"
  syPending :: "(Digest \<times> pendingEntry) list"
  waiters :: "waiterState list"
  waiting :: "Digest list"
  syClosed :: "nat set"
  syFresh :: nat
  syReads :: nat
  sySent :: "mempool_msg NetMessage list"

definition NewSynchronizer :: "NodeID \<Rightarrow> Committee \<Rightarrow> Parameters \<Rightarrow> Synchronizer" where
  "NewSynchronizer name c ps =
     \<lparr>syName = name, syCommittee = c, syParameters = ps, interChan = [], LoopBackChan = [],
      syPending = [], waiters = [], waiting = [], syClosed = {}, syFresh = 0, syReads = 0, sySent = []\<rparr>"

definition uint64 :: "int \<Rightarrow> int" where
  "uint64 x = x mod 2 ^ 64"

section \<open>Calls from the mempool\<close>

definition Synchronizer_Cleanup :: "Synchronizer \<Rightarrow> int \<Rightarrow> Synchronizer" where
  "Synchronizer_Cleanup s epoch = s\<lparr>interChan := interChan s @ [SyncCleanUpBlockMsg epoch]\<rparr>"

definition missing_payloads :: "('a store_env_scheme) \<Rightarrow> Store \<Rightarrow> Digest list \<Rightarrow> Digest list" where
  "missing_payloads E st digests = filter (\<lambda>d. isl (Store_Read E st d)) digests"

definition Synchronizer_Verify ::
  "('a store_env_scheme) \<Rightarrow> Store \<Rightarrow> Synchronizer \<Rightarrow> NodeID \<Rightarrow> int \<Rightarrow> Digest list \<Rightarrow> Digest
   \<Rightarrow> Synchronizer \<times> VerifyStatus" where
  "Synchronizer_Verify E st s proposer epoch digests consensusblockhash =
     (let missing = missing_payloads E st digests in
      if missing = [] then (s, OK)
      else (s\<lparr>interChan := interChan s @ [SyncBlockMsg missing proposer epoch consensusblockhash]\<rparr>, Wait))"

section \<open>The goroutine\<close>

definition Sync_send :: "Synchronizer \<Rightarrow> NodeID \<Rightarrow> mempool_msg \<Rightarrow> Synchronizer" where
  "Sync_send s to m = s\<lparr>sySent := sySent s @ [MempoolSend (syCommittee s) (syName s) to m]\<rparr>"

definition Sync_handle_SyncBlock ::
  "Synchronizer \<Rightarrow> int \<Rightarrow> Digest list \<Rightarrow> NodeID \<Rightarrow> int \<Rightarrow> Digest \<Rightarrow> Synchronizer" where
  "Sync_handle_SyncBlock s now missing author epoch digest =
     (case map_of (syPending s) digest of
        Some _ \<Rightarrow> s
      | None \<Rightarrow>
          let notify = syFresh s;
              s1 = s\<lparr>syFresh := Suc notify,
                     waiters := waiters s @ [\<lparr>wHash = digest, wRemaining = missing, wNotify = notify, wAsked = None\<rparr>],
                     syPending := (digest, \<lparr>peEpoch = uint64 epoch, peNotify = notify, peLastSend = now,
                                            peMissing = missing, peAuthor = author\<rparr>) # syPending s\<rparr>
          in Sync_send s1 author (RequestBlockMsg 0 missing (syName s)))"

definition Sync_handle_CleanUp :: "Synchronizer \<Rightarrow> int \<Rightarrow> Synchronizer" where
  "Sync_handle_CleanUp s epoch =
     s\<lparr>syClosed := syClosed s \<union> (peNotify \<circ> snd) ` {e \<in> set (syPending s). peEpoch (snd e) \<le> epoch},
       syPending := filter (\<lambda>e. \<not> peEpoch (snd e) \<le> epoch) (syPending s)\<rparr>"

definition Sync_handle_waiting :: "Synchronizer \<Rightarrow> Digest \<Rightarrow> Synchronizer" where
  "Sync_handle_waiting s block =
     (if block \<noteq> Digest0 then
        s\<lparr>syPending := filter (\<lambda>e. fst e \<noteq> block) (syPending s), LoopBackChan := LoopBackChan s @ [block]\<rparr>
      else s)"

definition retry_due :: "Parameters \<Rightarrow> int \<Rightarrow> pendingEntry \<Rightarrow> bool" where
  "retry_due ps now e \<longleftrightarrow> now - peLastSend e > SyncRetryDelay ps * 1000000"

definition Sync_tick :: "Synchronizer \<Rightarrow> int \<Rightarrow> Synchronizer" where
  "Sync_tick s now =
     (let due = filter (\<lambda>e. retry_due (syParameters s) now (snd e)) (syPending s);
          s1 = foldl (\<lambda>s e. Sync_send s NONE (RequestBlockMsg 0 (peMissing (snd e)) (syName s))) s due
      in s1\<lparr>syPending := map (\<lambda>(d, e). (d, if retry_due (syParameters s) now e
                                            then e\<lparr>peLastSend := now\<rparr> else e)) (syPending s)\<rparr>)"

text \<open>The case of an internal message; other message types fall through the inner switch.\<close>

definition Sync_handle_inter :: "Synchronizer \<Rightarrow> int \<Rightarrow> mempool_msg \<Rightarrow> Synchronizer" where
  "Sync_handle_inter s now m =
     (case m of
        SyncBlockMsg missing author epoch digest \<Rightarrow> Sync_handle_SyncBlock s now missing author epoch digest
      | SyncCleanUpBlockMsg epoch \<Rightarrow> Sync_handle_CleanUp s epoch
      | _ \<Rightarrow> s)"

text \<open>
  The interleavings: the goroutine takes an internal message, the result of a waiter or a tick; a
  waiter asks the store for its next digest; its blocking read returns, once the store has answered;
  a waiter whose reads are all done, or whose notify channel is closed, reports.
\<close>

inductive sync_step :: "('a store_env_scheme) \<Rightarrow> Store \<times> Synchronizer \<Rightarrow> Store \<times> Synchronizer \<Rightarrow> bool"
  for E :: "'a store_env_scheme" where
  inter: "interChan s = m # ms \<Longrightarrow> sync_step E (st, s) (st, Sync_handle_inter (s\<lparr>interChan := ms\<rparr>) now m)"
| waited: "waiting s = d # ds \<Longrightarrow> sync_step E (st, s) (st, Sync_handle_waiting (s\<lparr>waiting := ds\<rparr>) d)"
| tick: "sync_step E (st, s) (st, Sync_tick s now)"
| asks: "i < length (waiters s) \<Longrightarrow> wRemaining (waiters s ! i) = d # ds \<Longrightarrow> wAsked (waiters s ! i) = None \<Longrightarrow>
     sync_step E (st, s)
       (Store_NotifyRead E st d (syReads s),
        s\<lparr>waiters := (waiters s)[i := (waiters s ! i)\<lparr>wAsked := Some (syReads s)\<rparr>], syReads := Suc (syReads s)\<rparr>)"
| read_returns: "i < length (waiters s) \<Longrightarrow> wRemaining (waiters s ! i) = d # ds \<Longrightarrow>
     wAsked (waiters s ! i) = Some ch \<Longrightarrow> ch \<in> answered st \<Longrightarrow>
     sync_step E (st, s) (st, s\<lparr>waiters := (waiters s)[i := (waiters s ! i)\<lparr>wRemaining := ds, wAsked := None\<rparr>]\<rparr>)"
| waiter_done: "i < length (waiters s) \<Longrightarrow> wRemaining (waiters s ! i) = [] \<Longrightarrow>
     sync_step E (st, s) (st, s\<lparr>waiting := waiting s @ [wHash (waiters s ! i)],
                                waiters := take i (waiters s) @ drop (Suc i) (waiters s)\<rparr>)"
| waiter_cancelled: "i < length (waiters s) \<Longrightarrow> wNotify (waiters s ! i) \<in> syClosed s \<Longrightarrow>
     sync_step E (st, s) (st, s\<lparr>waiting := waiting s @ [Digest0],
                                waiters := take i (waiters s) @ drop (Suc i) (waiters s)\<rparr>)"

section \<open>Facts\<close>

lemma Synchronizer_Verify_OK:
  "snd (Synchronizer_Verify E st s p e ds h) = OK \<longleftrightarrow> (\<forall>d \<in> set ds. \<not> isl (Store_Read E st d))"
  by (auto simp: Synchronizer_Verify_def missing_payloads_def Let_def filter_empty_conv)

lemma Synchronizer_Verify_cases:
  "Synchronizer_Verify E st s p e ds h = (s, OK) \<and> missing_payloads E st ds = [] \<or>
   Synchronizer_Verify E st s p e ds h =
     (s\<lparr>interChan := interChan s @ [SyncBlockMsg (missing_payloads E st ds) p e h]\<rparr>, Wait) \<and>
   missing_payloads E st ds \<noteq> []"
  by (simp add: Synchronizer_Verify_def Let_def)

lemma Sync_send_simps [simp]:
  "syPending (Sync_send s to m) = syPending s"
  "waiters (Sync_send s to m) = waiters s"
  "waiting (Sync_send s to m) = waiting s"
  "interChan (Sync_send s to m) = interChan s"
  "LoopBackChan (Sync_send s to m) = LoopBackChan s"
  "syClosed (Sync_send s to m) = syClosed s"
  "syFresh (Sync_send s to m) = syFresh s"
  "syReads (Sync_send s to m) = syReads s"
  "syName (Sync_send s to m) = syName s"
  "syParameters (Sync_send s to m) = syParameters s"
  by (simp_all add: Sync_send_def)

lemma foldl_Sync_send [simp]:
  "waiters (foldl (\<lambda>s e. Sync_send s (f e) (g s e)) s es) = waiters s"
  "waiting (foldl (\<lambda>s e. Sync_send s (f e) (g s e)) s es) = waiting s"
  "LoopBackChan (foldl (\<lambda>s e. Sync_send s (f e) (g s e)) s es) = LoopBackChan s"
  "interChan (foldl (\<lambda>s e. Sync_send s (f e) (g s e)) s es) = interChan s"
  "syReads (foldl (\<lambda>s e. Sync_send s (f e) (g s e)) s es) = syReads s"
  by (induction es arbitrary: s) auto

definition readable :: "('a store_env_scheme) \<Rightarrow> Store \<Rightarrow> Digest \<Rightarrow> bool" where
  "readable E st d \<longleftrightarrow> \<not> isl (Store_Read E st d)"

lemma readable_db: "nutsdb_ok E \<Longrightarrow> readable E st d \<longleftrightarrow> map_of (puts (db st)) d \<noteq> None"
  by (simp add: readable_def Store_Read_eq split: option.split)

text \<open>A blocking read stores nothing.\<close>

lemma Store_NotifyRead_db: "db (Store_NotifyRead E st d ch) = db st"
  by (simp add: Store_NotifyRead_def Store_serve_def Let_def split: sum.split)

lemma readable_NotifyRead [simp]: "readable E (Store_NotifyRead E st d ch) d' = readable E st d'"
  by (simp add: readable_def Store_Read_def Store_serve_def Store_NotifyRead_db Let_def)

lemma store_inv_NotifyRead: "store_inv E st \<Longrightarrow> store_inv E (Store_NotifyRead E st d ch)"
  by (simp add: Store_NotifyRead_def Store_serve_inv)

lemma sync_step_store:
  "sync_step E x y \<Longrightarrow> fst y = fst x \<or> (\<exists>d ch. fst y = Store_NotifyRead E (fst x) d ch)"
  by (induction rule: sync_step.induct) auto

section \<open>Answers of the store\<close>

text \<open>The blocking reads made so far, answered or not: the reply channel and the key of each.\<close>

definition blocking_reads :: "Store \<Rightarrow> (nat \<times> bytes) set" where
  "blocking_reads st = (\<lambda>r. (done_ch r, key r)) ` (set (notified st) \<union> \<Union> (set ` ran (pending st)))"

lemma in_blocking_reads:
  "(ch, k) \<in> blocking_reads st \<longleftrightarrow>
    (\<exists>r. done_ch r = ch \<and> key r = k \<and> (r \<in> set (notified st) \<or> (\<exists>k' q. pending st k' = Some q \<and> r \<in> set q)))"
  by (auto simp: blocking_reads_def ran_def image_iff)

lemma blocking_reads_Write: "blocking_reads (fst (Store_Write E st k v)) \<subseteq> blocking_reads st"
  by (fastforce simp: in_blocking_reads Store_Write_def Store_serve_def Let_def split: prod.splits option.splits if_splits)

lemma blocking_reads_NotifyRead: "blocking_reads (Store_NotifyRead E st k ch) \<subseteq> insert (ch, k) (blocking_reads st)"
  by (fastforce simp: in_blocking_reads Store_NotifyRead_def Store_serve_def Let_def split: sum.splits option.splits if_splits)

text \<open>An answer is for a stored key, or for one the database has just been asked to store.\<close>

lemma notified_Write:
  "r \<in> set (notified (fst (Store_Write E st k v))) \<Longrightarrow>
    (\<exists>r' \<in> set (notified st). done_ch r = done_ch r' \<and> key r = key r') \<or>
    (\<exists>q. pending st k = Some q \<and> key r \<in> key ` set q)"
  by (auto simp: Store_Write_def Store_serve_def Let_def split: prod.splits option.splits)

lemma notified_NotifyRead:
  "r \<in> set (notified (Store_NotifyRead E st k ch)) \<Longrightarrow> r \<in> set (notified st) \<or> key r = k \<and> readable E st k"
  by (auto simp: Store_NotifyRead_def Store_serve_def Let_def readable_def Store_Read_def split: sum.splits)

text \<open>
  Every reply channel belongs to one digest, and an answered digest is stored, unless the database
  refused to store it (\<open>refused\<close>).
\<close>

definition reads_inv :: "('a store_env_scheme) \<Rightarrow> Store \<Rightarrow> Digest set \<Rightarrow> Synchronizer \<Rightarrow> bool" where
  "reads_inv E st refused s \<longleftrightarrow>
     store_inv E st \<and>
     (\<forall>r \<in> set (notified st). readable E st (key r) \<or> key r \<in> refused) \<and>
     (\<forall>(ch, k) \<in> blocking_reads st. ch < syReads s) \<and>
     (\<forall>w \<in> set (waiters s). \<forall>ch d ds. wAsked w = Some ch \<and> wRemaining w = d # ds \<longrightarrow>
        ch < syReads s \<and> (\<forall>k. (ch, k) \<in> blocking_reads st \<longrightarrow> k = d))"

lemma reads_invI:
  assumes "store_inv E st" and "\<And>r. r \<in> set (notified st) \<Longrightarrow> readable E st (key r) \<or> key r \<in> refused"
    and "\<And>ch k. (ch, k) \<in> blocking_reads st \<Longrightarrow> ch < syReads s"
    and "\<And>w ch d ds. w \<in> set (waiters s) \<Longrightarrow> wAsked w = Some ch \<Longrightarrow> wRemaining w = d # ds \<Longrightarrow> ch < syReads s"
    and "\<And>w ch d ds k. w \<in> set (waiters s) \<Longrightarrow> wAsked w = Some ch \<Longrightarrow> wRemaining w = d # ds \<Longrightarrow>
      (ch, k) \<in> blocking_reads st \<Longrightarrow> k = d"
  shows "reads_inv E st refused s"
  using assms unfolding reads_inv_def by (auto; blast)

lemma reads_invD:
  assumes "reads_inv E st refused s"
  shows "store_inv E st" and "r \<in> set (notified st) \<Longrightarrow> readable E st (key r) \<or> key r \<in> refused"
    and "(ch, k) \<in> blocking_reads st \<Longrightarrow> ch < syReads s"
    and "w \<in> set (waiters s) \<Longrightarrow> wAsked w = Some ch \<Longrightarrow> wRemaining w = d # ds \<Longrightarrow> ch < syReads s"
    and "w \<in> set (waiters s) \<Longrightarrow> wAsked w = Some ch \<Longrightarrow> wRemaining w = d # ds \<Longrightarrow> (ch, k) \<in> blocking_reads st \<Longrightarrow> k = d"
  using assms unfolding reads_inv_def by (blast | auto)+

text \<open>Fewer waiters, or waiters that are in no read, need nothing more.\<close>

lemma reads_inv_same:
  assumes "reads_inv E st refused s" and "syReads s' = syReads s"
    and "\<And>w. w \<in> set (waiters s') \<Longrightarrow> w \<in> set (waiters s) \<or> wAsked w = None"
  shows "reads_inv E st refused s'"
  using reads_invD [OF assms(1)] assms(2,3) by (intro reads_invI) fastforce+

lemma reads_inv_Write:
  assumes "reads_inv E st refused s" and "Store_Write E st k v = (st', x)"
  shows "reads_inv E st' (if x = None then refused else insert k refused) s"
proof -
  note I = reads_invD [OF assms(1)]
  have ok: "nutsdb_ok E" using I(1) by (simp add: store_inv_def)
  have st': "st' = fst (Store_Write E st k v)" "x = snd (Store_Write E st k v)" using assms(2) by simp_all
  have read: "readable E st' d \<longleftrightarrow> readable E st d \<or> d = k \<and> x = None" for d
    using kv.read_after_write [OF I(1), of k v d] unfolding st' readable_def by auto
  note b = blocking_reads_Write [of E st k v, folded st'(1)]
  show ?thesis
  proof (rule reads_invI)
    show "store_inv E st'" unfolding st'(1) by (rule kv.inv_write [OF I(1)])
    show "readable E st' (key r) \<or> key r \<in> (if x = None then refused else insert k refused)"
      if r: "r \<in> set (notified st')" for r
    proof -
      consider r' where "r' \<in> set (notified st)" "key r = key r'" | q where "pending st k = Some q" "key r \<in> key ` set q"
        using notified_Write [OF r [unfolded st'(1)]] by blast
      then show ?thesis
      proof cases
        case 1
        then show ?thesis using I(2) [of r'] read by auto
      next
        case 2
        then have "key r = k" using I(1) by (auto simp: store_inv_def)
        then show ?thesis using read by auto
      qed
    qed
  qed (use I(3-5) b in blast)+
qed

lemma reads_inv_asks:
  assumes "reads_inv E st refused s" and "i < length (waiters s)" and "wRemaining (waiters s ! i) = d # ds"
  shows "reads_inv E (Store_NotifyRead E st d (syReads s)) refused
    (s\<lparr>waiters := (waiters s)[i := (waiters s ! i)\<lparr>wAsked := Some (syReads s)\<rparr>], syReads := Suc (syReads s)\<rparr>)"
    (is "reads_inv E ?st refused ?s")
proof -
  note I = reads_invD [OF assms(1)]
  note b = blocking_reads_NotifyRead [of E st d "syReads s"]
  have w: "w \<in> set (waiters s) \<or> w = (waiters s ! i)\<lparr>wAsked := Some (syReads s)\<rparr>" if "w \<in> set (waiters ?s)" for w
    using that set_update_subset_insert [of "waiters s" i] by auto
  show ?thesis
  proof (rule reads_invI)
    show "store_inv E ?st" by (rule store_inv_NotifyRead [OF I(1)])
    show "readable E ?st (key r) \<or> key r \<in> refused" if "r \<in> set (notified ?st)" for r
      using notified_NotifyRead [OF that] I(2) by auto
    show "ch < syReads ?s" if "(ch, k) \<in> blocking_reads ?st" for ch k
      using that b I(3) [of ch k] by auto
    show "ch < syReads ?s" if "w' \<in> set (waiters ?s)" "wAsked w' = Some ch" "wRemaining w' = d' # ds'" for w' ch d' ds'
      using w [OF that(1)] that(2,3) I(4) by fastforce
    show "k = d'" if "w' \<in> set (waiters ?s)" "wAsked w' = Some ch" "wRemaining w' = d' # ds'" "(ch, k) \<in> blocking_reads ?st"
      for w' ch d' ds' k
      using w [OF that(1)]
    proof
      assume "w' \<in> set (waiters s)"
      with that(2-4) b I(4,5) [of w' ch d' ds'] show ?thesis by auto
    next
      assume "w' = (waiters s ! i)\<lparr>wAsked := Some (syReads s)\<rparr>"
      with that(2-4) b I(3) [of ch k] assms(3) show ?thesis by auto
    qed
  qed
qed

lemma reads_inv_inter:
  assumes "reads_inv E st refused s"
  shows "reads_inv E st refused (Sync_handle_inter s now m)"
  by (rule reads_inv_same [OF assms]; cases m)
    (auto simp: Sync_handle_inter_def Sync_handle_SyncBlock_def Sync_handle_CleanUp_def Let_def split: option.splits)

lemma sync_step_reads:
  assumes "sync_step E (st, s) (st', s')" and inv: "reads_inv E st refused s"
  shows "reads_inv E st' refused s'"
  using assms(1)
proof cases
  case (inter m ms now)
  have "reads_inv E st refused (s\<lparr>interChan := ms\<rparr>)" by (rule reads_inv_same [OF inv]) simp_all
  then show ?thesis unfolding inter(1,2) by (rule reads_inv_inter)
next
  case (waited d ds)
  then show ?thesis by (auto simp: Sync_handle_waiting_def intro: reads_inv_same [OF inv])
next
  case (tick now)
  then show ?thesis by (auto simp: Sync_tick_def Let_def intro: reads_inv_same [OF inv])
next
  case (asks i d ds)
  then show ?thesis using reads_inv_asks [OF inv] by simp
next
  case (read_returns i d ds ch)
  show ?thesis unfolding read_returns(1,2)
    by (rule reads_inv_same [OF inv]) (auto dest!: set_update_subset_insert [THEN subsetD])
next
  case (waiter_done i)
  show ?thesis unfolding waiter_done(1,2) by (rule reads_inv_same [OF inv]) (auto dest: in_set_takeD in_set_dropD)
next
  case (waiter_cancelled i)
  show ?thesis unfolding waiter_cancelled(1,2) by (rule reads_inv_same [OF inv]) (auto dest: in_set_takeD in_set_dropD)
qed

text \<open>So a blocking read that returns is for a stored digest, or for a refused one.\<close>

lemma read_answered:
  assumes "reads_inv E st refused s" and "w \<in> set (waiters s)" and "wAsked w = Some ch" and "wRemaining w = d # ds"
    and "ch \<in> answered st"
  shows "readable E st d \<or> d \<in> refused"
proof -
  from assms(5) obtain r where r: "r \<in> set (notified st)" "done_ch r = ch" by (auto simp: answered_def)
  then have "(ch, key r) \<in> blocking_reads st" by (auto simp: in_blocking_reads)
  with reads_invD(2) [OF assms(1) r(1)] reads_invD(5) [OF assms(1-4)] show ?thesis by blast
qed

section \<open>Obligations\<close>

text \<open>
  The wait-for obligations: \<open>asked\<close> records the block digests with the payloads that were checked
  for them. What is neither requested nor waited for any more is stored, or was refused.
\<close>

definition covered ::
  "('a store_env_scheme) \<Rightarrow> Store \<Rightarrow> (Digest \<times> Digest list) set \<Rightarrow> Digest set \<Rightarrow> Digest \<Rightarrow> Digest list \<Rightarrow> bool" where
  "covered E st asked refused h missing \<longleftrightarrow>
     (\<exists>ds. (h, ds) \<in> asked \<and> (\<forall>d \<in> set ds. d \<in> set missing \<or> readable E st d \<or> d \<in> refused))"

definition request_ok ::
  "('a store_env_scheme) \<Rightarrow> Store \<Rightarrow> (Digest \<times> Digest list) set \<Rightarrow> Digest set \<Rightarrow> mempool_msg \<Rightarrow> bool" where
  "request_ok E st asked refused m \<longleftrightarrow>
     (case m of SyncBlockMsg missing p e h \<Rightarrow> covered E st asked refused h missing | _ \<Rightarrow> True)"

definition sync_inv ::
  "('a store_env_scheme) \<Rightarrow> Store \<Rightarrow> (Digest \<times> Digest list) set \<Rightarrow> Digest set \<Rightarrow> Synchronizer \<Rightarrow> bool" where
  "sync_inv E st asked refused s \<longleftrightarrow>
     list_all (\<lambda>w. covered E st asked refused (wHash w) (wRemaining w)) (waiters s) \<and>
     list_all (\<lambda>h. h = Digest0 \<or> covered E st asked refused h []) (waiting s) \<and>
     list_all (\<lambda>h. h \<noteq> Digest0 \<and> covered E st asked refused h []) (LoopBackChan s) \<and>
     list_all (request_ok E st asked refused) (interChan s)"

lemma covered_read:
  "covered E st asked refused h (d # ds) \<Longrightarrow> readable E st d \<or> d \<in> refused \<Longrightarrow> covered E st asked refused h ds"
  by (fastforce simp: covered_def)

lemma covered_mono:
  "covered E st asked refused h m \<Longrightarrow> (\<And>d. readable E st d \<Longrightarrow> readable E st' d) \<Longrightarrow> asked \<subseteq> asked' \<Longrightarrow>
   refused \<subseteq> refused' \<Longrightarrow> covered E st' asked' refused' h m"
  unfolding covered_def by blast

lemma list_all_remove: "list_all P xs \<Longrightarrow> list_all P (take i xs @ drop (Suc i) xs)"
  by (auto simp: list_all_iff dest: in_set_takeD in_set_dropD)

lemma list_all_update: "list_all P xs \<Longrightarrow> P y \<Longrightarrow> list_all P (xs[i := y])"
  by (auto simp: list_all_iff dest!: set_update_subset_insert [THEN subsetD])

text \<open>Storing more, refusing more and asking for more keep the obligations.\<close>

lemma sync_inv_mono:
  assumes "sync_inv E st asked refused s" and "\<And>d. readable E st d \<Longrightarrow> readable E st' d" and "asked \<subseteq> asked'"
    and "refused \<subseteq> refused'"
  shows "sync_inv E st' asked' refused' s"
proof -
  have "covered E st asked refused h m \<Longrightarrow> covered E st' asked' refused' h m" for h m
    using covered_mono [OF _ assms(2-4)] .
  moreover from this have "request_ok E st asked refused m \<Longrightarrow> request_ok E st' asked' refused' m" for m
    by (cases m) (simp_all add: request_ok_def)
  ultimately show ?thesis
    using assms(1) unfolding sync_inv_def by (auto elim!: list.pred_mono_strong)
qed

lemma sync_inv_SyncBlock:
  assumes "sync_inv E st asked refused s" and "covered E st asked refused digest missing"
  shows "sync_inv E st asked refused (Sync_handle_SyncBlock s now missing author epoch digest)"
  using assms by (simp add: Sync_handle_SyncBlock_def sync_inv_def Let_def split: option.split)

lemma sync_inv_inter:
  assumes "sync_inv E st asked refused s" and "request_ok E st asked refused m"
  shows "sync_inv E st asked refused (Sync_handle_inter s now m)"
  using assms
  by (cases m) (simp_all add: Sync_handle_inter_def sync_inv_SyncBlock request_ok_def,
      simp add: Sync_handle_CleanUp_def sync_inv_def)

lemma sync_step_inv:
  assumes "sync_step E (st, s) (st', s')" and inv: "sync_inv E st asked refused s" and reads: "reads_inv E st refused s"
  shows "sync_inv E st' asked refused s'"
  using assms(1)
proof cases
  case (inter m ms now)
  have "sync_inv E st asked refused (s\<lparr>interChan := ms\<rparr>)" and "request_ok E st asked refused m"
    using inv inter(3) by (simp_all add: sync_inv_def)
  then show ?thesis unfolding inter(1,2) by (rule sync_inv_inter)
next
  case (waited d ds)
  then show ?thesis using inv by (auto simp: Sync_handle_waiting_def sync_inv_def)
next
  case (tick now)
  then show ?thesis using inv by (simp add: Sync_tick_def sync_inv_def Let_def)
next
  case (asks i d ds)
  have "sync_inv E st' asked refused s" unfolding asks(1) by (rule sync_inv_mono [OF inv]) simp_all
  moreover from this have "covered E st' asked refused (wHash (waiters s ! i)) (wRemaining (waiters s ! i))"
    using asks(3) by (simp add: sync_inv_def list_all_length)
  ultimately show ?thesis unfolding asks(2) by (simp add: sync_inv_def list_all_update)
next
  case (read_returns i d ds ch)
  have "covered E st asked refused (wHash (waiters s ! i)) (wRemaining (waiters s ! i))"
    using inv read_returns(3) by (simp add: sync_inv_def list_all_length)
  moreover have "readable E st d \<or> d \<in> refused"
    using read_answered [OF reads _ read_returns(5,4,6)] read_returns(3) by simp
  ultimately have "covered E st asked refused (wHash (waiters s ! i)) ds"
    using read_returns(4) covered_read by simp
  then show ?thesis using inv unfolding read_returns(1,2) by (simp add: sync_inv_def list_all_update)
next
  case (waiter_done i)
  have "covered E st asked refused (wHash (waiters s ! i)) []"
    using inv waiter_done(3,4) by (fastforce simp: sync_inv_def list_all_length)
  then show ?thesis
    using inv list_all_remove [of _ "waiters s" i]
    unfolding waiter_done(1,2) by (simp add: sync_inv_def)
next
  case (waiter_cancelled i)
  then show ?thesis
    using inv list_all_remove [of _ "waiters s" i] by (simp add: sync_inv_def)
qed

lemma sync_inv_Verify:
  assumes "sync_inv E st asked refused s" and "Synchronizer_Verify E st s p e ds h = (s', status)"
  shows "sync_inv E st (insert (h, ds) asked) refused s'"
proof -
  have "sync_inv E st (insert (h, ds) asked) refused s" by (rule sync_inv_mono [OF assms(1)]) auto
  moreover have "covered E st (insert (h, ds) asked) refused h (missing_payloads E st ds)"
    by (auto simp: covered_def missing_payloads_def readable_def)
  ultimately show ?thesis
    using Synchronizer_Verify_cases [of E st s p e ds h] assms(2)
    by (auto simp: sync_inv_def request_ok_def)
qed

section \<open>The synchronizer in operation\<close>

text \<open>
  The store, the checks made so far, the keys the database refused to store, and the synchronizer:
  the mempool checks blocks and cleans up, the goroutines run, and blocks are written to the store.
\<close>

type_synonym sync_state = "Store \<times> (Digest \<times> Digest list) set \<times> Digest set \<times> Synchronizer"

inductive sync_sys :: "('a store_env_scheme) \<Rightarrow> sync_state \<Rightarrow> sync_state \<Rightarrow> bool"
  for E :: "'a store_env_scheme" where
  check: "Synchronizer_Verify E st s p e ds h = (s', status) \<Longrightarrow>
    sync_sys E (st, asked, refused, s) (st, insert (h, ds) asked, refused, s')"
| cleanup: "sync_sys E (st, asked, refused, s) (st, asked, refused, Synchronizer_Cleanup s e)"
| runs: "sync_step E (st, s) (st', s') \<Longrightarrow> sync_sys E (st, asked, refused, s) (st', asked, refused, s')"
| writes: "Store_Write E st k v = (st', x) \<Longrightarrow>
    sync_sys E (st, asked, refused, s) (st', asked, if x = None then refused else insert k refused, s)"

definition sync_start :: "NutsDB \<Rightarrow> NodeID \<Rightarrow> Committee \<Rightarrow> Parameters \<Rightarrow> sync_state" where
  "sync_start d name c ps = (NewStore d, {}, {}, NewSynchronizer name c ps)"

lemma sync_sys_inv:
  assumes "sync_sys E (st, asked, refused, s) (st', asked', refused', s')"
    and "sync_inv E st asked refused s" and "reads_inv E st refused s"
  shows "sync_inv E st' asked' refused' s' \<and> reads_inv E st' refused' s'"
  using assms(1)
proof cases
  case (check p e ds h status)
  have "waiters s' = waiters s" "syReads s' = syReads s"
    using Synchronizer_Verify_cases [of E st s p e ds h] check by auto
  then have "reads_inv E st refused s'" by (intro reads_inv_same [OF assms(3)]) simp_all
  then show ?thesis using check sync_inv_Verify [OF assms(2)] by simp
next
  case (cleanup e)
  have "reads_inv E st refused s'" unfolding cleanup by (rule reads_inv_same [OF assms(3)]) (simp_all add: Synchronizer_Cleanup_def)
  then show ?thesis using cleanup assms(2) by (simp add: Synchronizer_Cleanup_def sync_inv_def request_ok_def)
next
  case runs
  then show ?thesis using sync_step_inv [OF runs(3) assms(2,3)] sync_step_reads [OF runs(3) assms(3)] by simp
next
  case (writes k v x)
  have "readable E st d \<Longrightarrow> readable E st' d" for d
    using kv.read_after_write [OF reads_invD(1) [OF assms(3)], of k v d] writes(4) by (auto simp: readable_def)
  then have "sync_inv E st' asked refused' s" unfolding writes by (intro sync_inv_mono [OF assms(2)]) auto
  then show ?thesis using reads_inv_Write [OF assms(3) writes(4)] writes by simp
qed

lemma sync_sys_reach:
  assumes "(sync_sys E)\<^sup>*\<^sup>* (sync_start d name c ps) (st, asked, refused, s)" and "nutsdb_ok E"
  shows "sync_inv E st asked refused s \<and> reads_inv E st refused s"
  using assms(1)
proof (induction "(st, asked, refused, s)" arbitrary: st asked refused s rule: rtranclp_induct)
  case base
  then show ?case
    using assms(2) by (auto simp: sync_start_def sync_inv_def NewSynchronizer_def reads_inv_def store_inv_def
        NewStore_def in_blocking_reads)
next
  case (step y)
  obtain st1 asked1 refused1 s1 where y: "y = (st1, asked1, refused1, s1)" using prod_cases4 by blast
  from step(3) [OF y] sync_sys_inv [OF step(2) [unfolded y]] show ?case by blast
qed

section \<open>Properties\<close>

text \<open>
  C27. When the synchronizer hands a block digest back to the core, that block was checked before,
  and each of its payloads is stored now or is one that the database refused to store; so if none of
  them was refused, checking the block again succeeds. This holds whatever was interleaved in
  between.
\<close>

theorem loopback_complete:
  assumes "(sync_sys E)\<^sup>*\<^sup>* (sync_start d name c ps) (st, asked, refused, s)" and "nutsdb_ok E"
    and "h \<in> set (LoopBackChan s)"
  shows "\<exists>ds. (h, ds) \<in> asked \<and> (\<forall>d \<in> set ds. readable E st d \<or> d \<in> refused) \<and>
    (set ds \<inter> refused = {} \<longrightarrow> snd (Synchronizer_Verify E st s p e ds h) = OK)"
proof -
  have "covered E st asked refused h []"
    using sync_sys_reach [OF assms(1,2)] assms(3) by (auto simp: sync_inv_def list_all_iff)
  then obtain ds where ds: "(h, ds) \<in> asked" "\<forall>d \<in> set ds. readable E st d \<or> d \<in> refused" by (auto simp: covered_def)
  then have "set ds \<inter> refused = {} \<longrightarrow> snd (Synchronizer_Verify E st s p e ds h) = OK"
    by (auto simp: Synchronizer_Verify_OK readable_def)
  with ds show ?thesis by blast
qed

text \<open>
  A run: block \<open>[9]\<close> lacks payload \<open>[1]\<close>, which is written while its waiter is in the blocking read.
  The waiter is woken whether or not the database takes the payload.
\<close>

definition sync_at :: "waiterState list \<Rightarrow> Digest list \<Rightarrow> (Digest \<times> pendingEntry) list \<Rightarrow> Digest list \<Rightarrow> nat \<Rightarrow> Synchronizer" where
  "sync_at ws wt pend lb reads =
     (NewSynchronizer 0 committee4 DefaultParameters)\<lparr>waiters := ws, waiting := wt, syPending := pend,
        LoopBackChan := lb, syFresh := 1, syReads := reads,
        sySent := [MempoolSend committee4 0 1 (RequestBlockMsg 0 [[1]] 0)]\<rparr>"

definition sample_pending :: "(Digest \<times> pendingEntry) list" where
  "sample_pending = [([9], \<lparr>peEpoch = 0, peNotify = 0, peLastSend = 0, peMissing = [[1]], peAuthor = 1\<rparr>)]"

abbreviation asked1 :: "('a store_env_scheme) \<Rightarrow> Store" where
  "asked1 E \<equiv> Store_NotifyRead E (NewStore NewDefaultNutsDB) [1] 0"

abbreviation offered1 :: "('a store_env_scheme) \<Rightarrow> Store" where
  "offered1 E \<equiv> fst (Store_Write E (asked1 E) [1] [5])"

lemma asked1_eq:
  assumes "nutsdb_ok E"
  shows "asked1 E = (NewStore NewDefaultNutsDB)\<lparr>pending :=
    [[1] \<mapsto> [\<lparr>rtyp = NOTIFYREAD, key = [1], val = [], err = None, done_ch = 0\<rparr>]]\<rparr>"
  using assms by (simp add: Store_NotifyRead_def Store_serve_def NutsDB_Get_eq NewStore_def NewDefaultNutsDB_def)

lemma offered1_answers: "nutsdb_ok E \<Longrightarrow> 0 \<in> answered (offered1 E)"
  by (simp add: asked1_eq Store_Write_def Store_serve_def answered_def case_prod_beta Let_def)

lemma offered1_pending: "nutsdb_ok E \<Longrightarrow> pending (offered1 E) = Map.empty"
  by (simp only: asked1_eq) (simp add: Store_Write_def Store_serve_def NewStore_def case_prod_beta Let_def)

lemma sample_sync_reach:
  assumes ok: "nutsdb_ok E"
  shows "(sync_sys E)\<^sup>*\<^sup>* (sync_start NewDefaultNutsDB 0 committee4 DefaultParameters)
     (offered1 E, {([9], [[1]])}, if snd (Store_Write E (asked1 E) [1] [5]) = None then {} else {[1]}, sync_at [] [] [] [[9]] 1)"
proof -
  let ?st = "NewStore NewDefaultNutsDB" and ?A = "{([9], [[1]])}"
  let ?R = "if snd (Store_Write E (asked1 E) [1] [5]) = None then {} else {[1]}"
  let ?s0 = "NewSynchronizer 0 committee4 DefaultParameters" and ?m = "SyncBlockMsg [[1]] 1 0 [9]"
  let ?w = "\<lambda>ds a. \<lparr>wHash = [9], wRemaining = ds, wNotify = 0, wAsked = a\<rparr>"
  have "isl (Store_Read E ?st [1])" using ok by (simp add: Store_Read_eq NewStore_def NewDefaultNutsDB_def)
  then have 1: "sync_sys E (?st, {}, {}, ?s0) (?st, ?A, {}, ?s0\<lparr>interChan := [?m]\<rparr>)"
    by (intro sync_sys.check [of _ _ _ 1 0]) (simp add: Synchronizer_Verify_def missing_payloads_def Let_def NewSynchronizer_def)
  have 2: "sync_sys E (?st, ?A, {}, ?s0\<lparr>interChan := [?m]\<rparr>) (?st, ?A, {}, sync_at [?w [[1]] None] [] sample_pending [] 0)"
    using sync_step.inter [of "?s0\<lparr>interChan := [?m]\<rparr>" ?m "[]" E ?st 0]
    by (intro sync_sys.runs) (simp add: Sync_handle_inter_def Sync_handle_SyncBlock_def Sync_send_def sync_at_def
        sample_pending_def NewSynchronizer_def uint64_def Let_def)
  have 3: "sync_sys E (?st, ?A, {}, sync_at [?w [[1]] None] [] sample_pending [] 0)
      (asked1 E, ?A, {}, sync_at [?w [[1]] (Some 0)] [] sample_pending [] 1)"
    using sync_step.asks [of 0 "sync_at [?w [[1]] None] [] sample_pending [] 0" "[1]" "[]" E ?st]
    by (intro sync_sys.runs) (simp add: sync_at_def NewSynchronizer_def)
  have 4: "sync_sys E (asked1 E, ?A, {}, sync_at [?w [[1]] (Some 0)] [] sample_pending [] 1)
      (offered1 E, ?A, ?R, sync_at [?w [[1]] (Some 0)] [] sample_pending [] 1)"
    using sync_sys.writes [of E "asked1 E" "[1]" "[5]" "offered1 E" "snd (Store_Write E (asked1 E) [1] [5])"] by simp
  have 5: "sync_sys E (offered1 E, ?A, ?R, sync_at [?w [[1]] (Some 0)] [] sample_pending [] 1)
      (offered1 E, ?A, ?R, sync_at [?w [] None] [] sample_pending [] 1)"
    using sync_step.read_returns [of 0 "sync_at [?w [[1]] (Some 0)] [] sample_pending [] 1" "[1]" "[]" 0 "offered1 E" E]
      offered1_answers [OF ok]
    by (intro sync_sys.runs) (simp add: sync_at_def NewSynchronizer_def)
  have 6: "sync_sys E (offered1 E, ?A, ?R, sync_at [?w [] None] [] sample_pending [] 1)
      (offered1 E, ?A, ?R, sync_at [] [[9]] sample_pending [] 1)"
    using sync_step.waiter_done [of 0 "sync_at [?w [] None] [] sample_pending [] 1" E "offered1 E"]
    by (intro sync_sys.runs) (simp add: sync_at_def NewSynchronizer_def)
  have "Digest0 \<noteq> [9]" by (auto simp: Digest0_def HashSize_def dest: arg_cong [where f = length])
  then have 7: "sync_sys E (offered1 E, ?A, ?R, sync_at [] [[9]] sample_pending [] 1) (offered1 E, ?A, ?R, sync_at [] [] [] [[9]] 1)"
    using sync_step.waited [of "sync_at [] [[9]] sample_pending [] 1" "[9]" "[]" E "offered1 E"]
    by (intro sync_sys.runs) (simp add: sync_at_def NewSynchronizer_def Sync_handle_waiting_def sample_pending_def)
  from 1 2 3 4 5 6 7 show ?thesis
    unfolding sync_start_def by (meson converse_rtranclp_into_rtranclp rtranclp.rtrancl_refl)
qed

lemma sample_nuts: "nutsdb_ok sample_store_env" "nutsdb_ok (sample_store_env\<lparr>nuts_put := f\<rparr>)"
  by (simp_all add: nutsdb_ok_def sample_store_env_def split: option.split)

theorem loopback_complete_witness:
  "snd (Synchronizer_Verify sample_store_env (offered1 sample_store_env) (sync_at [] [] [] [[9]] 1) 1 0 [[1]] [9]) = OK"
proof -
  have "snd (Store_Write sample_store_env (asked1 sample_store_env) [1] [5]) = None"
    by (simp add: Store_Write_err NutsDB_Put_def sample_store_env_def)
  with loopback_complete [OF sample_sync_reach [OF sample_nuts(1)] sample_nuts(1), of "[9]" 1 0] show ?thesis
    by (simp add: sync_at_def)
qed

text \<open>
  C28. Without that condition the block may be incomplete: a database that refuses a payload still
  has its waiter woken, so the block is handed back although checking it again fails, and nothing
  asks for the payload any more.
\<close>

theorem loopback_incomplete:
  "\<exists>(E :: store_env) st s. nutsdb_ok E \<and>
    (sync_sys E)\<^sup>*\<^sup>* (sync_start NewDefaultNutsDB 0 committee4 DefaultParameters) (st, {([9], [[1]])}, {[1]}, s) \<and>
    [9] \<in> set (LoopBackChan s) \<and> snd (Synchronizer_Verify E st s 1 0 [[1]] [9]) = Wait \<and>
    waiters s = [] \<and> syPending s = [] \<and> pending st = Map.empty"
proof -
  let ?E = "sample_store_env\<lparr>nuts_put := \<lambda>_ _ _. Some (ErrExternal ''disk full'')\<rparr>"
  note ok = sample_nuts(2) [of "\<lambda>_ _ _. Some (ErrExternal ''disk full'')"]
  have "snd (Store_Write ?E (asked1 ?E) [1] [5]) = Some (ErrExternal ''disk full'')"
    by (simp add: Store_Write_err NutsDB_Put_def)
  then have r: "(sync_sys ?E)\<^sup>*\<^sup>* (sync_start NewDefaultNutsDB 0 committee4 DefaultParameters)
      (offered1 ?E, {([9], [[1]])}, {[1]}, sync_at [] [] [] [[9]] 1)" using sample_sync_reach [OF ok] by simp
  have st: "db (offered1 ?E) = NewDefaultNutsDB" "pending (offered1 ?E) = Map.empty"
    using offered1_pending [OF ok] by (simp_all add: Store_Write_db Store_NotifyRead_db NutsDB_Put_def NewStore_def)
  then have "isl (Store_Read ?E (offered1 ?E) [1])" using ok by (simp add: Store_Read_eq NewDefaultNutsDB_def)
  then show ?thesis
    by (intro exI [of _ ?E] exI [of _ "offered1 ?E"] exI [of _ "sync_at [] [] [] [[9]] 1"] conjI ok r st(2))
      (simp_all add: sync_at_def NewSynchronizer_def Synchronizer_Verify_def missing_payloads_def Let_def)
qed

end
