(* ===== verification/Mempool.thy ===== *)
theory Mempool
  imports Synchronizer
begin

text \<open>
  \<^verbatim>\<open>mempool/mempool.go\<close>: the mempool of blocks of transactions. Its state owns the store that the
  node shares (\<^verbatim>\<open>mStore\<close>), the transaction pool and the synchronizer. \<^verbatim>\<open>mSent\<close> is what was handed
  to the mempool transmitter and \<^verbatim>\<open>mChannel\<close> the blocks the mempool put on its own channel, both
  oldest first. A request from the consensus core and its reply are one call.
\<close>

section \<open>State\<close>

record Mempool =
  mName :: NodeID
  mCommittee :: Committee
  mParameters :: Parameters
  mSigService :: SigService
  mStore :: Store
  mTxPool :: PoolState
  mQueue :: "Digest set"
  mActualQueue :: "Digest list"
  mOwnPayLoad :: "Block list"
  mSync :: Synchronizer
  mSent :: "mempool_msg NetMessage list"
  mChannel :: "mempool_msg list"

definition NewMempool ::
  "NodeID \<Rightarrow> Committee \<Rightarrow> Parameters \<Rightarrow> SigService \<Rightarrow> Store \<Rightarrow> PoolState \<Rightarrow> Mempool" where
  "NewMempool name c ps sg st txpool =
     \<lparr>mName = name, mCommittee = c, mParameters = ps, mSigService = sg, mStore = st, mTxPool = txpool,
      mQueue = {}, mActualQueue = [], mOwnPayLoad = [], mSync = NewSynchronizer name c ps,
      mSent = [], mChannel = []\<rparr>"

definition Mempool_send :: "Mempool \<Rightarrow> NodeID \<Rightarrow> mempool_msg \<Rightarrow> Mempool" where
  "Mempool_send m to msg = m\<lparr>mSent := mSent m @ [MempoolSend (mCommittee m) (mName m) to msg]\<rparr>"

section \<open>Blocks in the store\<close>

definition StoreBlock :: "('a mempool_env_scheme) \<Rightarrow> Store \<Rightarrow> Block \<Rightarrow> Store \<times> go_error option" where
  "StoreBlock E st block =
     (case Block_Encode E block of
        Inl e \<Rightarrow> (st, Some e)
      | Inr value \<Rightarrow> Store_Write E st (Block_Hash E block) value)"

definition GetBlock :: "('a mempool_env_scheme) \<Rightarrow> Store \<Rightarrow> Digest \<Rightarrow> go_error + Block option" where
  "GetBlock E st digest =
     (case Store_Read E st digest of
        Inl e \<Rightarrow> if e = ErrNotFoundKey then Inr None else Inl e
      | Inr value \<Rightarrow>
          (case Block_Decode E value of
             Inl e \<Rightarrow> Inl e
           | Inr b \<Rightarrow> Inr (Some b)))"

section \<open>Handlers\<close>

definition queue_full :: "Mempool \<Rightarrow> bool" where
  "queue_full m \<longleftrightarrow> MaxQueenSize (mParameters m) \<le> card (mQueue m)"

definition payloadProcess :: "('a mempool_env_scheme) \<Rightarrow> Mempool \<Rightarrow> Block \<Rightarrow> Mempool \<times> go_error option" where
  "payloadProcess E m block =
     (if queue_full m then (m, Some (ErrFullMemory (mName m)))
      else
        case StoreBlock E (mStore m) block of
          (st, Some e) \<Rightarrow> (m\<lparr>mStore := st\<rparr>, Some e)
        | (st, None) \<Rightarrow> (Mempool_send (m\<lparr>mStore := st\<rparr>) NONE (OtherBlockMsg (Some block)), None))"

definition enqueue :: "Mempool \<Rightarrow> Digest \<Rightarrow> Mempool" where
  "enqueue m digest =
     m\<lparr>mQueue := insert digest (mQueue m), mActualQueue := mActualQueue m @ [digest]\<rparr>"

definition HandleOwnBlock ::
  "('a mempool_env_scheme) \<Rightarrow> Mempool \<Rightarrow> Block option \<Rightarrow> (Mempool \<times> go_error option) outcome" where
  "HandleOwnBlock E m block =
     (if queue_full m then Ret (m, Some (ErrFullMemory (mName m)))
      else
        case block of
          None \<Rightarrow> Panic ''nil pointer dereference''
        | Some b \<Rightarrow>
            (case payloadProcess E m b of
               (m', Some e) \<Rightarrow> Ret (m', Some e)
             | (m', None) \<Rightarrow> Ret (enqueue m' (Block_Hash E b), None)))"

definition HandleOthorBlock ::
  "('a mempool_env_scheme) \<Rightarrow> Mempool \<Rightarrow> Block option \<Rightarrow> (Mempool \<times> go_error option) outcome" where
  "HandleOthorBlock E m block =
     (case block of
        None \<Rightarrow> Panic ''nil pointer dereference''
      | Some b \<Rightarrow>
          if queue_full m then Ret (m, Some (ErrFullMemory (mName m)))
          else
            let digest = Block_Hash E b in
            bind_outcome (Block_Verify E (mCommittee m) b)
              (\<lambda>flag.
                 if \<not> flag then Ret (m, None)
                 else
                   case GetBlock E (mStore m) digest of
                     Inr _ \<Rightarrow> Ret (m, None)
                   | Inl _ \<Rightarrow>
                       (case StoreBlock E (mStore m) b of
                          (st, Some e) \<Rightarrow> Ret (m\<lparr>mStore := st\<rparr>, Some e)
                        | (st, None) \<Rightarrow> Ret (enqueue (m\<lparr>mStore := st\<rparr>) digest, None))))"

fun HandleRequestBlock ::
  "('a mempool_env_scheme) \<Rightarrow> Mempool \<Rightarrow> Digest list \<Rightarrow> NodeID \<Rightarrow> Mempool \<times> go_error option" where
  "HandleRequestBlock E m [] author = (m, None)"
| "HandleRequestBlock E m (digest # ds) author =
     (case GetBlock E (mStore m) digest of
        Inl e \<Rightarrow> (m, Some e)
      | Inr b \<Rightarrow> HandleRequestBlock E (Mempool_send m author (OtherBlockMsg b)) ds author)"

text \<open>The loop over the queue, which stops when its counter reaches zero.\<close>

fun take_keys :: "Digest list \<Rightarrow> int \<Rightarrow> Digest list" where
  "take_keys [] n = []"
| "take_keys (k # ks) n = k # (if n - 1 = 0 then [] else take_keys ks (n - 1))"

text \<open>On an error the returned slice is nil.\<close>

definition HandleMakeBlockMsg ::
  "('a mempool_env_scheme) \<Rightarrow> Mempool \<Rightarrow> int \<Rightarrow> Mempool \<times> Digest list \<times> go_error option" where
  "HandleMakeBlockMsg E m maxBlockSize =
     (if mQueue m = {} then
        let (batch, pool') = Pool_GetBatch (mTxPool m);
            m1 = m\<lparr>mTxPool := pool'\<rparr>;
            block = projr (NewBlock E (mName m) batch (mSigService m))
        in case payloadProcess E m1 block of
             (m2, Some e) \<Rightarrow> (m2, [], Some e)
           | (m2, None) \<Rightarrow> (m2, [Block_Hash E block], None)
      else
        let ret = take_keys (map_order E (mQueue m)) maxBlockSize
        in (m\<lparr>mQueue := mQueue m - set ret\<rparr>, ret, None))"

definition HandleCleanBlock :: "Mempool \<Rightarrow> Digest list \<Rightarrow> int \<Rightarrow> Mempool" where
  "HandleCleanBlock m digests epoch =
     m\<lparr>mQueue := mQueue m - set digests, mSync := Synchronizer_Cleanup (mSync m) (uint64 epoch)\<rparr>"

definition HandleVerifyMsg ::
  "('a mempool_env_scheme) \<Rightarrow> Mempool \<Rightarrow> NodeID \<Rightarrow> int \<Rightarrow> Digest list \<Rightarrow> Digest \<Rightarrow> Mempool \<times> VerifyStatus" where
  "HandleVerifyMsg E m proposer epoch payloads h =
     (let (s, status) = Synchronizer_Verify E (mStore m) (mSync m) proposer epoch payloads h
      in (m\<lparr>mSync := s\<rparr>, status))"

text \<open>One batch of \<^verbatim>\<open>generateBlocks\<close>.\<close>

definition generateBlock :: "('a mempool_env_scheme) \<Rightarrow> Mempool \<Rightarrow> Mempool" where
  "generateBlock E m =
     (case Pool_BatchChannel (mTxPool m) of
        [] \<Rightarrow> m
      | batch # rest \<Rightarrow>
          let m1 = m\<lparr>mTxPool := (mTxPool m)\<lparr>txqueue := (txqueue (mTxPool m))\<lparr>batchChannel := rest\<rparr>\<rparr>\<rparr>;
              block = projr (NewBlock E (mName m) batch (mSigService m))
          in if ID (bBatch block) \<noteq> - 1
             then m1\<lparr>mOwnPayLoad := mOwnPayLoad m @ [block],
                     mChannel := mChannel m @ [OwnBlockMsg (Some block)]\<rparr>
             else m1)"

text \<open>The cases of \<^verbatim>\<open>Run\<close> for a message of the mempool channel; an error is only logged.\<close>

definition Mempool_dispatch ::
  "('a mempool_env_scheme) \<Rightarrow> Mempool \<Rightarrow> mempool_msg \<Rightarrow> (Mempool \<times> go_error option) outcome" where
  "Mempool_dispatch E m msg =
     (case msg of
        OwnBlockMsg b \<Rightarrow> HandleOwnBlock E m b
      | OtherBlockMsg b \<Rightarrow> HandleOthorBlock E m b
      | RequestBlockMsg t ds author \<Rightarrow> Ret (HandleRequestBlock E m ds author)
      | _ \<Rightarrow> Ret (m, None))"

text \<open>
  The cases of \<^verbatim>\<open>Run\<close> for a request of the core on the connect channel, with the value sent back on
  the channel of the request.
\<close>

datatype connect_reply = MadeBlocks "Digest list" | Verified VerifyStatus | NoReply

definition Mempool_connect ::
  "('a mempool_env_scheme) \<Rightarrow> Mempool \<Rightarrow> mempool_msg \<Rightarrow> Mempool \<times> connect_reply \<times> go_error option" where
  "Mempool_connect E m msg =
     (case msg of
        MakeConsensusBlockMsg maxBlockSize \<Rightarrow>
          let (m1, ds, e) = HandleMakeBlockMsg E m maxBlockSize in (m1, MadeBlocks ds, e)
      | VerifyBlockMsg proposer epoch payloads h \<Rightarrow>
          let (m1, status) = HandleVerifyMsg E m proposer epoch payloads h in (m1, Verified status, None)
      | CleanBlockMsg ds epoch \<Rightarrow> (HandleCleanBlock m ds epoch, NoReply, None)
      | _ \<Rightarrow> (m, NoReply, None))"

definition Mempool_runs :: "Mempool \<Rightarrow> bool" where
  "Mempool_runs m \<longleftrightarrow> \<not> mName m < Faults (mParameters m)"

section \<open>The contract with the consensus core\<close>

text \<open>
  What the core relies on: the payloads it is given are available, and availability is never
  lost over further calls.
\<close>

locale payload_service =
  fixes make :: "'m \<Rightarrow> int \<Rightarrow> 'm \<times> Digest list \<times> go_error option"
    and check :: "'m \<Rightarrow> NodeID \<Rightarrow> int \<Rightarrow> Digest list \<Rightarrow> Digest \<Rightarrow> 'm \<times> VerifyStatus"
    and clean :: "'m \<Rightarrow> Digest list \<Rightarrow> int \<Rightarrow> 'm"
    and available :: "'m \<Rightarrow> Digest \<Rightarrow> bool"
    and inv :: "'m \<Rightarrow> bool"
  assumes make_inv: "inv m \<Longrightarrow> inv (fst (make m k))"
    and check_inv: "inv m \<Longrightarrow> inv (fst (check m p e ds h))"
    and clean_inv: "inv m \<Longrightarrow> inv (clean m ds e)"
    and make_available: "inv m \<Longrightarrow> make m k = (m', ds, r) \<Longrightarrow> d \<in> set ds \<Longrightarrow> available m' d"
    and make_keeps: "inv m \<Longrightarrow> available m d \<Longrightarrow> available (fst (make m k)) d"
    and check_keeps: "available (fst (check m p e ds h)) d = available m d"
    and clean_keeps: "available (clean m ds e) d = available m d"
    and check_ok: "snd (check m p e ds h) = OK \<longleftrightarrow> (\<forall>d \<in> set ds. available m d)"
begin

text \<open>A block made of the payloads handed out passes the check, at once and after later calls.\<close>

lemma made_checks:
  assumes "inv m" and "make m k = (m', ds, r)"
  shows "snd (check m' p e ds h) = OK"
  using make_available [OF assms] by (auto simp: check_ok)

lemma check_stable:
  assumes "inv m" and "snd (check m p e ds h) = OK"
  shows "snd (check (fst (make m k)) p' e' ds h') = OK"
    and "snd (check (clean m ds' e'') p' e' ds h') = OK"
    and "snd (check (fst (check m p'' e'' ds'' h'')) p' e' ds h') = OK"
  using assms make_keeps by (auto simp: check_ok check_keeps clean_keeps)

end

section \<open>Facts\<close>

interpretation mb: block_store "Store_Read E" "Store_Write E" "store_inv E"
    "Block_Hash E" "Block_Encode E" "Block_Decode E" "gob_Block_ok E" for E
  by unfold_locales (simp add: gob_Block_ok_def Block_Encode_def Block_Decode_def)

lemma readable_iff: "readable E st d \<longleftrightarrow> (\<exists>v. Store_Read E st d = Inr v)"
  by (cases "Store_Read E st d") (simp_all add: readable_def)

lemma readable_Write:
  assumes "store_inv E st"
  shows "readable E (fst (Store_Write E st k v)) d \<longleftrightarrow>
    readable E st d \<or> d = k \<and> snd (Store_Write E st k v) = None"
  using kv.read_after_write [OF assms, of k v d] by (auto simp: readable_def)

lemma StoreBlock_inv: "store_inv E st \<Longrightarrow> store_inv E (fst (StoreBlock E st b))"
  by (simp add: StoreBlock_def kv.inv_write split: sum.split)

lemma StoreBlock_keeps: "store_inv E st \<Longrightarrow> readable E st d \<Longrightarrow> readable E (fst (StoreBlock E st b)) d"
  by (simp add: StoreBlock_def readable_Write split: sum.split)

lemma StoreBlock_readable:
  "store_inv E st \<Longrightarrow> StoreBlock E st b = (st', None) \<Longrightarrow> readable E st' (Block_Hash E b)"
  using readable_Write [of E st "Block_Hash E b"]
  by (auto simp: StoreBlock_def split: sum.splits) (metis fst_conv snd_conv)

lemma GetBlock_stored:
  assumes "store_inv E st" and "gob_Block_ok E" and "StoreBlock E st b = (st', None)"
  shows "GetBlock E st' (Block_Hash E b) = Inr (Some b)"
proof -
  from assms(3) obtain v where "Block_Encode E b = Inr v" "Store_Write E st (Block_Hash E b) v = (st', None)"
    by (auto simp: StoreBlock_def split: sum.splits)
  from mb.load_stored [OF assms(1,2) this] show ?thesis by (auto simp: GetBlock_def)
qed

lemma take_keys_eq: "take_keys ks n = (if 0 < n then take (nat n) ks else ks)"
proof (induction ks n rule: take_keys.induct)
  case (2 k ks n)
  then show ?case by (cases "n = 1") (auto simp: take_Cons' nat_diff_distrib)
qed simp

lemma set_take_keys: "set (take_keys ks n) \<subseteq> set ks"
  by (simp add: take_keys_eq set_take_subset)

text \<open>
  The invariant of the mempool: the queue is bounded, and whatever is queued can be served
  from the store.
\<close>

definition mempool_inv :: "('a mempool_env_scheme) \<Rightarrow> Mempool \<Rightarrow> bool" where
  "mempool_inv E m \<longleftrightarrow>
     store_inv E (mStore m) \<and> finite (mQueue m) \<and> card (mQueue m) \<le> MaxQueenSize (mParameters m) \<and>
     (\<forall>d \<in> mQueue m. readable E (mStore m) d)"

lemma NewMempool_inv: "store_inv E st \<Longrightarrow> mempool_inv E (NewMempool name c ps sg st p)"
  by (simp add: NewMempool_def mempool_inv_def)

lemma Mempool_send_simps [simp]:
  "mStore (Mempool_send m to x) = mStore m"
  "mQueue (Mempool_send m to x) = mQueue m"
  "mParameters (Mempool_send m to x) = mParameters m"
  "mActualQueue (Mempool_send m to x) = mActualQueue m"
  "mSync (Mempool_send m to x) = mSync m"
  "mCommittee (Mempool_send m to x) = mCommittee m"
  "mName (Mempool_send m to x) = mName m"
  by (simp_all add: Mempool_send_def)

lemma mempool_inv_send [simp]: "mempool_inv E (Mempool_send m to x) = mempool_inv E m"
  by (simp add: mempool_inv_def)

text \<open>Replacing the store by a larger one.\<close>

lemma mempool_inv_store:
  assumes "mempool_inv E m" and "store_inv E st" and "\<And>d. readable E (mStore m) d \<Longrightarrow> readable E st d"
  shows "mempool_inv E (m\<lparr>mStore := st\<rparr>)"
  using assms by (simp add: mempool_inv_def)

lemma mempool_inv_StoreBlock:
  assumes "mempool_inv E m"
  shows "mempool_inv E (m\<lparr>mStore := fst (StoreBlock E (mStore m) b)\<rparr>)"
proof -
  from assms have "store_inv E (mStore m)" by (simp add: mempool_inv_def)
  then show ?thesis using StoreBlock_inv StoreBlock_keeps assms by (intro mempool_inv_store)
qed

lemma mempool_inv_enqueue:
  assumes "mempool_inv E m" and "\<not> queue_full m" and "readable E (mStore m) d"
  shows "mempool_inv E (enqueue m d)"
  using assms by (auto simp: mempool_inv_def queue_full_def enqueue_def card_insert_if)

lemma payloadProcess_cases:
  obtains (full) "queue_full m" "payloadProcess E m b = (m, Some (ErrFullMemory (mName m)))"
  | (fails) st e where "\<not> queue_full m" "StoreBlock E (mStore m) b = (st, Some e)"
      "payloadProcess E m b = (m\<lparr>mStore := st\<rparr>, Some e)"
  | (stores) st where "\<not> queue_full m" "StoreBlock E (mStore m) b = (st, None)"
      "payloadProcess E m b = (Mempool_send (m\<lparr>mStore := st\<rparr>) NONE (OtherBlockMsg (Some b)), None)"
  by (cases "StoreBlock E (mStore m) b"; cases "snd (StoreBlock E (mStore m) b)"; cases "queue_full m")
    (auto simp: payloadProcess_def)

lemma payloadProcess_inv: "mempool_inv E m \<Longrightarrow> mempool_inv E (fst (payloadProcess E m b))"
  by (cases rule: payloadProcess_cases [of m E b])
    (auto dest: mempool_inv_StoreBlock [of E m b])

lemma payloadProcess_keeps:
  assumes "mempool_inv E m" and "readable E (mStore m) d"
  shows "readable E (mStore (fst (payloadProcess E m b))) d"
proof -
  have "store_inv E (mStore m)" using assms(1) by (simp add: mempool_inv_def)
  from StoreBlock_keeps [OF this assms(2), of b] assms(2) show ?thesis
    by (cases rule: payloadProcess_cases [of m E b]) simp_all
qed

lemma payloadProcess_stores:
  assumes "mempool_inv E m" and "payloadProcess E m b = (m', None)"
  shows "readable E (mStore m') (Block_Hash E b) \<and> mQueue m' = mQueue m \<and> mParameters m' = mParameters m"
proof -
  have "store_inv E (mStore m)" using assms(1) by (simp add: mempool_inv_def)
  from StoreBlock_readable [OF this, of b] assms(2) show ?thesis
    by (cases rule: payloadProcess_cases [of m E b]) auto
qed

lemma HandleOwnBlock_cases:
  assumes "HandleOwnBlock E m b = Ret (m', r)"
  obtains (full) "queue_full m" "m' = m" "r = Some (ErrFullMemory (mName m))"
  | (fails) e blk where "\<not> queue_full m" "b = Some blk" "payloadProcess E m blk = (m', Some e)" "r = Some e"
  | (queued) m1 blk where "\<not> queue_full m" "b = Some blk" "payloadProcess E m blk = (m1, None)"
      "m' = enqueue m1 (Block_Hash E blk)" "r = None"
  using assms by (auto simp: HandleOwnBlock_def split: if_splits option.splits prod.splits)

lemma HandleOwnBlock_inv:
  assumes "mempool_inv E m" and "HandleOwnBlock E m b = Ret (m', r)"
  shows "mempool_inv E m'"
  using assms(2)
proof (cases rule: HandleOwnBlock_cases)
  case full
  with assms(1) show ?thesis by simp
next
  case (fails e blk)
  with payloadProcess_inv [OF assms(1), of blk] show ?thesis by simp
next
  case (queued m1 blk)
  have "mempool_inv E m1" using payloadProcess_inv [OF assms(1), of blk] queued(3) by simp
  moreover have "\<not> queue_full m1" and "readable E (mStore m1) (Block_Hash E blk)"
    using payloadProcess_stores [OF assms(1) queued(3)] queued(1) by (simp_all add: queue_full_def)
  ultimately show ?thesis unfolding queued(4) by (rule mempool_inv_enqueue)
qed

lemma HandleOthorBlock_cases:
  assumes "HandleOthorBlock E m b = Ret (m', r)"
  obtains (full) blk where "b = Some blk" "queue_full m" "m' = m" "r = Some (ErrFullMemory (mName m))"
  | (refused) blk where "b = Some blk" "\<not> queue_full m" "Block_Verify E (mCommittee m) blk = Ret False"
      "m' = m" "r = None"
  | (known) blk found where "b = Some blk" "\<not> queue_full m" "Block_Verify E (mCommittee m) blk = Ret True"
      "GetBlock E (mStore m) (Block_Hash E blk) = Inr found" "m' = m" "r = None"
  | (fails) blk st e where "b = Some blk" "\<not> queue_full m" "Block_Verify E (mCommittee m) blk = Ret True"
      "StoreBlock E (mStore m) blk = (st, Some e)" "m' = m\<lparr>mStore := st\<rparr>" "r = Some e"
  | (queued) blk st where "b = Some blk" "\<not> queue_full m" "Block_Verify E (mCommittee m) blk = Ret True"
      "StoreBlock E (mStore m) blk = (st, None)"
      "m' = enqueue (m\<lparr>mStore := st\<rparr>) (Block_Hash E blk)" "r = None"
  using assms
  by (auto simp: HandleOthorBlock_def Let_def
      split: if_splits option.splits prod.splits sum.splits)

lemma HandleOthorBlock_inv:
  assumes "mempool_inv E m" and "HandleOthorBlock E m b = Ret (m', r)"
  shows "mempool_inv E m'"
  using assms(2)
proof (cases rule: HandleOthorBlock_cases)
  case (fails blk st e)
  with mempool_inv_StoreBlock [OF assms(1), of blk] show ?thesis by simp
next
  case (queued blk st)
  have "store_inv E (mStore m)" using assms(1) by (simp add: mempool_inv_def)
  from StoreBlock_readable [OF this queued(4)] mempool_inv_StoreBlock [OF assms(1), of blk] queued(2,4)
  show ?thesis unfolding queued(5) by (intro mempool_inv_enqueue) (simp_all add: queue_full_def)
qed (use assms(1) in simp_all)

lemma HandleOthorBlock_new:
  assumes "mempool_inv E m" and "gob_Block_ok E" and "Block_Verify E (mCommittee m) b = Ret True"
    and "\<not> queue_full m" and "isl (GetBlock E (mStore m) (Block_Hash E b))"
    and "snd (StoreBlock E (mStore m) b) = None"
  shows "\<exists>st. HandleOthorBlock E m (Some b) = Ret (enqueue (m\<lparr>mStore := st\<rparr>) (Block_Hash E b), None) \<and>
    GetBlock E st (Block_Hash E b) = Inr (Some b)"
proof -
  obtain st where st: "StoreBlock E (mStore m) b = (st, None)" using assms(6) by (metis prod.collapse)
  obtain x where "GetBlock E (mStore m) (Block_Hash E b) = Inl x"
    using assms(5) by (cases "GetBlock E (mStore m) (Block_Hash E b)") auto
  with st assms(3,4) have "HandleOthorBlock E m (Some b) = Ret (enqueue (m\<lparr>mStore := st\<rparr>) (Block_Hash E b), None)"
    by (simp add: HandleOthorBlock_def Let_def)
  moreover have "GetBlock E st (Block_Hash E b) = Inr (Some b)"
    using assms(1) by (intro GetBlock_stored [OF _ assms(2) st]) (simp add: mempool_inv_def)
  ultimately show ?thesis by blast
qed

lemma HandleRequestBlock_same:
  "mStore (fst (HandleRequestBlock E m ds a)) = mStore m \<and>
   mQueue (fst (HandleRequestBlock E m ds a)) = mQueue m \<and>
   mParameters (fst (HandleRequestBlock E m ds a)) = mParameters m \<and>
   mSync (fst (HandleRequestBlock E m ds a)) = mSync m"
  by (induction ds arbitrary: m) (simp_all split: sum.split)

lemma HandleRequestBlock_inv: "mempool_inv E m \<Longrightarrow> mempool_inv E (fst (HandleRequestBlock E m ds a))"
  by (simp add: mempool_inv_def HandleRequestBlock_same)

lemma Mempool_dispatch_inv:
  assumes "mempool_inv E m" and "Mempool_dispatch E m msg = Ret (m', r)"
  shows "mempool_inv E m'"
proof (cases msg)
  case (OwnBlockMsg b)
  with assms show ?thesis by (auto simp: Mempool_dispatch_def elim: HandleOwnBlock_inv)
next
  case (OtherBlockMsg b)
  with assms show ?thesis by (auto simp: Mempool_dispatch_def elim: HandleOthorBlock_inv)
next
  case (RequestBlockMsg t ds a)
  with assms(2) HandleRequestBlock_inv [OF assms(1), of ds a] show ?thesis
    by (simp add: Mempool_dispatch_def)
qed (use assms in \<open>simp_all add: Mempool_dispatch_def\<close>)

lemma mempool_inv_fewer: "mempool_inv E m \<Longrightarrow> mempool_inv E (m\<lparr>mQueue := mQueue m - D\<rparr>)"
  using card_mono [of "mQueue m" "mQueue m - D"] by (auto simp: mempool_inv_def)

lemma mempool_inv_other [simp]:
  "mempool_inv E (m\<lparr>mSync := s\<rparr>) = mempool_inv E m"
  "mempool_inv E (m\<lparr>mTxPool := p\<rparr>) = mempool_inv E m"
  "mempool_inv E (m\<lparr>mOwnPayLoad := bs\<rparr>) = mempool_inv E m"
  "mempool_inv E (m\<lparr>mChannel := ch\<rparr>) = mempool_inv E m"
  by (simp_all add: mempool_inv_def)

lemma HandleMakeBlockMsg_cases:
  obtains (empty_full) e m1 blk where "mQueue m = {}" "mempool_inv E m \<longrightarrow> mempool_inv E m1"
      "mStore m1 = mStore m" "payloadProcess E m1 blk = (fst (HandleMakeBlockMsg E m k), Some e)"
      "HandleMakeBlockMsg E m k = (fst (HandleMakeBlockMsg E m k), [], Some e)"
  | (empty) m1 blk where "mQueue m = {}" "mempool_inv E m \<longrightarrow> mempool_inv E m1"
      "mStore m1 = mStore m" "payloadProcess E m1 blk = (fst (HandleMakeBlockMsg E m k), None)"
      "HandleMakeBlockMsg E m k = (fst (HandleMakeBlockMsg E m k), [Block_Hash E blk], None)"
  | (queued) ret where "mQueue m \<noteq> {}" "ret = take_keys (map_order E (mQueue m)) k"
      "HandleMakeBlockMsg E m k = (m\<lparr>mQueue := mQueue m - set ret\<rparr>, ret, None)"
proof (cases "mQueue m = {}")
  case True
  obtain batch p where b: "Pool_GetBatch (mTxPool m) = (batch, p)" by fastforce
  let ?m1 = "m\<lparr>mTxPool := p\<rparr>" and ?blk = "projr (NewBlock E (mName m) batch (mSigService m))"
  obtain m2 r where p: "payloadProcess E ?m1 ?blk = (m2, r)" by fastforce
  show thesis
  proof (cases r)
    case None
    with True b p show thesis by (intro empty [of ?m1 ?blk]) (simp_all add: HandleMakeBlockMsg_def Let_def)
  next
    case (Some e)
    with True b p show thesis
      by (intro empty_full [of ?m1 ?blk e]) (simp_all add: HandleMakeBlockMsg_def Let_def)
  qed
next
  case False
  then show thesis by (intro queued) (simp_all add: HandleMakeBlockMsg_def Let_def)
qed

lemma HandleMakeBlockMsg_inv:
  assumes "mempool_inv E m"
  shows "mempool_inv E (fst (HandleMakeBlockMsg E m k))"
proof (cases rule: HandleMakeBlockMsg_cases [of m E k])
  case (empty_full e m1 blk)
  from payloadProcess_inv [of E m1 blk] empty_full assms show ?thesis by simp
next
  case (empty m1 blk)
  from payloadProcess_inv [of E m1 blk] empty assms show ?thesis by simp
next
  case (queued ret)
  with mempool_inv_fewer [OF assms] show ?thesis by simp
qed

lemma HandleMakeBlockMsg_keeps:
  assumes "mempool_inv E m" and "readable E (mStore m) d"
  shows "readable E (mStore (fst (HandleMakeBlockMsg E m k))) d"
proof (cases rule: HandleMakeBlockMsg_cases [of m E k])
  case (empty_full e m1 blk)
  from payloadProcess_keeps [of E m1 d blk] empty_full assms show ?thesis by simp
next
  case (empty m1 blk)
  from payloadProcess_keeps [of E m1 d blk] empty assms show ?thesis by simp
next
  case (queued ret)
  with assms show ?thesis by simp
qed

lemma HandleMakeBlockMsg_available:
  assumes "mempool_inv E m" and "map_order_ok E" and "HandleMakeBlockMsg E m k = (m', ds, r)"
    and "d \<in> set ds"
  shows "readable E (mStore m') d"
proof (cases rule: HandleMakeBlockMsg_cases [of m E k])
  case (empty_full e m1 blk)
  with assms(3,4) show ?thesis by simp
next
  case (empty m1 blk)
  from payloadProcess_stores [of E m1 blk m'] empty assms show ?thesis by simp
next
  case (queued ret)
  have "d \<in> set (map_order E (mQueue m))"
    using queued(2,3) assms(3,4) set_take_keys [of "map_order E (mQueue m)" k] by auto
  with assms(1,2) have "d \<in> mQueue m" by (simp add: map_order_ok_def mempool_inv_def)
  with assms(1,3) queued(3) show ?thesis by (auto simp: mempool_inv_def)
qed

text \<open>The mempool provides the contract, wherever maps are iterated as documented.\<close>

interpretation ps: payload_service "HandleMakeBlockMsg E" "HandleVerifyMsg E" HandleCleanBlock
    "\<lambda>m. readable E (mStore m)" "\<lambda>m. mempool_inv E m \<and> map_order_ok E" for E
proof
  fix m p e ds h
  show "snd (HandleVerifyMsg E m p e ds h) = OK \<longleftrightarrow> (\<forall>d \<in> set ds. readable E (mStore m) d)"
    using Synchronizer_Verify_OK [of E "mStore m" "mSync m" p e ds h]
    by (simp add: HandleVerifyMsg_def readable_def case_prod_beta)
qed (auto simp: HandleMakeBlockMsg_inv HandleMakeBlockMsg_keeps HandleVerifyMsg_def HandleCleanBlock_def
    mempool_inv_fewer intro: HandleMakeBlockMsg_available split: prod.splits)

text \<open>The invariant is kept, and nothing stored is lost.\<close>

definition mempool_grows :: "('a mempool_env_scheme) \<Rightarrow> Mempool \<Rightarrow> Mempool \<Rightarrow> bool" where
  "mempool_grows E m m' \<longleftrightarrow>
     (mempool_inv E m \<longrightarrow>
        mempool_inv E m' \<and> (\<forall>d. readable E (mStore m) d \<longrightarrow> readable E (mStore m') d))"

lemma mempool_grows_other [simp]:
  "mempool_grows E m (m\<lparr>mSync := s\<rparr>)"
  "mempool_grows E m (m\<lparr>mTxPool := p\<rparr>)"
  by (simp_all add: mempool_grows_def)

lemma mempool_grows_Write: "mempool_grows E m (m\<lparr>mStore := fst (Store_Write E (mStore m) k v)\<rparr>)"
  using mempool_inv_store [of E m "fst (Store_Write E (mStore m) k v)"]
  by (auto simp: mempool_grows_def mempool_inv_def kv.inv_write readable_Write)

lemma mempool_grows_sync:
  assumes "sync_step E (mStore m, mSync m) (st, s)"
  shows "mempool_grows E m (m\<lparr>mStore := st, mSync := s\<rparr>)"
proof -
  from sync_step_store [OF assms] consider "st = mStore m" | d ch where "st = Store_NotifyRead E (mStore m) d ch" by auto
  then show ?thesis
    by cases (auto simp: mempool_grows_def mempool_inv_def store_inv_NotifyRead)
qed

lemma HandleMakeBlockMsg_grows: "mempool_grows E m (fst (HandleMakeBlockMsg E m k))"
  by (simp add: mempool_grows_def HandleMakeBlockMsg_inv HandleMakeBlockMsg_keeps)

lemma generateBlock_grows: "mempool_grows E m (generateBlock E m)"
  by (simp add: mempool_grows_def generateBlock_def Let_def split: list.split)

lemma Mempool_dispatch_grows:
  assumes "Mempool_dispatch E m msg = Ret (m', r)"
  shows "mempool_grows E m m'"
  unfolding mempool_grows_def
proof (intro impI conjI allI)
  fix d
  assume inv: "mempool_inv E m" and d: "readable E (mStore m) d"
  then have st: "store_inv E (mStore m)" by (simp add: mempool_inv_def)
  show "readable E (mStore m') d"
  proof (cases msg)
    case (OwnBlockMsg b)
    with assms have "HandleOwnBlock E m b = Ret (m', r)" by (simp add: Mempool_dispatch_def)
    then show ?thesis
      by (cases rule: HandleOwnBlock_cases)
        (use d payloadProcess_keeps [OF inv d] in \<open>auto simp: enqueue_def dest!: arg_cong [of _ _ fst]\<close>)
  next
    case (OtherBlockMsg b)
    with assms have "HandleOthorBlock E m b = Ret (m', r)" by (simp add: Mempool_dispatch_def)
    then show ?thesis
      by (cases rule: HandleOthorBlock_cases)
        (use d StoreBlock_keeps [OF st d] in \<open>auto simp: enqueue_def dest!: arg_cong [of _ _ fst]\<close>)
  next
    case (RequestBlockMsg t ds a)
    with assms d HandleRequestBlock_same [of E m ds a] show ?thesis by (simp add: Mempool_dispatch_def prod_eq_iff)
  qed (use assms d in \<open>simp_all add: Mempool_dispatch_def\<close>)
qed (use assms Mempool_dispatch_inv in blast)

text \<open>Every request on the connect channel keeps the invariant.\<close>

lemma Mempool_connect_inv: "mempool_inv E m \<Longrightarrow> mempool_inv E (fst (Mempool_connect E m msg))"
  using HandleMakeBlockMsg_inv [of E m]
  by (cases msg) (simp_all add: Mempool_connect_def HandleVerifyMsg_def HandleCleanBlock_def mempool_inv_fewer case_prod_beta Let_def)

end
