(* ===== verification/Commit_Order.thy ===== *)
theory Commit_Order
  imports Messages Mempool "HOL-Library.AList"
begin

text \<open>
  \<^verbatim>\<open>core/smvba/consensus/commitor.go\<close>: blocks are handed in by epoch in any order and go out on
  \<^verbatim>\<open>commitCh\<close> by increasing epoch. The map \<^verbatim>\<open>Blocks\<close> is an association list with distinct keys;
  \<^verbatim>\<open>commitCh\<close> is the list of all blocks sent on the channel. The goroutine \<^verbatim>\<open>run\<close> that reports the
  payloads of a committed block reads the mempool's store and is \<open>Committor_run\<close>, one block per
  call; its result is the list of payload reports.
\<close>

section \<open>The committor\<close>

record Committor =
  Index :: int
  Blocks :: "(int \<times> ConsensusBlock) list"
  commitCh :: "ConsensusBlock list"

definition NewCommittor :: Committor where
  "NewCommittor = \<lparr>Index = 0, Blocks = [], commitCh = []\<rparr>"

definition commit_next :: "Committor \<Rightarrow> ConsensusBlock \<Rightarrow> Committor" where
  "commit_next c b =
     c\<lparr>commitCh := commitCh c @ [b], Blocks := AList.delete (Index c) (Blocks c), Index := i64 (Index c + 1)\<rparr>"

lemma length_delete_less: "map_of xs k = Some v \<Longrightarrow> length (AList.delete k xs) < length xs"
  by (induction xs) (auto split: if_splits intro: le_imp_less_Suc length_delete_le)

function commit_loop :: "Committor \<Rightarrow> Committor" where
  "commit_loop c =
     (case map_of (Blocks c) (Index c) of
        Some b \<Rightarrow> commit_loop (commit_next c b)
      | None \<Rightarrow> c)"
  by pat_completeness auto

termination
  by (relation "measure (\<lambda>c. length (Blocks c))") (auto simp: commit_next_def length_delete_less)

declare commit_loop.simps [simp del]

definition Committor_Commit :: "Committor \<Rightarrow> ConsensusBlock \<Rightarrow> Committor" where
  "Committor_Commit c block =
     (if cbEpoch block < Index c then c
      else commit_loop (c\<lparr>Blocks := AList.update (cbEpoch block) block (Blocks c)\<rparr>))"

definition Committor_run ::
  "('a mempool_env_scheme) \<Rightarrow> Store \<Rightarrow> ConsensusBlock \<Rightarrow> (NodeID \<times> int) list outcome" where
  "Committor_run E st block =
     foldo (\<lambda>reports payload.
        case GetBlock E st payload of
          Inl _ \<Rightarrow> Ret reports
        | Inr None \<Rightarrow> Panic ''nil pointer dereference''
        | Inr (Some b) \<Rightarrow>
            Ret (if Txs (bBatch b) \<noteq> [] then reports @ [(bProposer b, ID (bBatch b))] else reports))
       [] (cbPayLoads block)"

text \<open>The report on one payload; with all payloads in the store, a block's reports are theirs.\<close>

definition block_report :: "('a mempool_env_scheme) \<Rightarrow> Store \<Rightarrow> Digest \<Rightarrow> (NodeID \<times> int) list" where
  "block_report E st d =
     (case GetBlock E st d of
        Inr (Some b) \<Rightarrow> if Txs (bBatch b) \<noteq> [] then [(bProposer b, ID (bBatch b))] else []
      | _ \<Rightarrow> [])"

lemma Committor_run_reports:
  assumes "\<forall>d \<in> set (cbPayLoads b). readable E st d"
  shows "Committor_run E st b = Ret (concat (map (block_report E st) (cbPayLoads b)))"
proof -
  have "GetBlock E st d \<noteq> Inr None" if "readable E st d" for d
    using that by (auto simp: GetBlock_def readable_iff split: sum.split)
  then have "foldo (\<lambda>reports payload.
        case GetBlock E st payload of
          Inl _ \<Rightarrow> Ret reports
        | Inr None \<Rightarrow> Panic ''nil pointer dereference''
        | Inr (Some b) \<Rightarrow>
            Ret (if Txs (bBatch b) \<noteq> [] then reports @ [(bProposer b, ID (bBatch b))] else reports))
       rs ds = Ret (rs @ concat (map (block_report E st) ds))" if "\<forall>d \<in> set ds. readable E st d" for rs ds
    using that by (induction ds arbitrary: rs) (auto simp: block_report_def split: sum.split option.split)
  with assms show ?thesis by (simp add: Committor_run_def)
qed

section \<open>The order of commits\<close>

text \<open>
  After the blocks \<open>bs\<close> have been handed in: the epochs committed are \<open>0, 1, \<dots>\<close>, the blocks
  kept are the later ones, and nothing of a later epoch is forgotten.
\<close>

definition committor_inv :: "ConsensusBlock list \<Rightarrow> Committor \<Rightarrow> bool" where
  "committor_inv bs c \<longleftrightarrow>
     map cbEpoch (commitCh c) = map int [0..<length (commitCh c)] \<and>
     Index c = int (length (commitCh c)) \<and>
     set (commitCh c) \<subseteq> set bs \<and> snd ` set (Blocks c) \<subseteq> set bs \<and>
     distinct (map fst (Blocks c)) \<and>
     (\<forall>e \<in> set (Blocks c). cbEpoch (snd e) = fst e \<and> Index c \<le> fst e) \<and>
     (\<forall>b \<in> set bs. Index c \<le> cbEpoch b \<longrightarrow> map_of (Blocks c) (cbEpoch b) \<noteq> None)"

lemma committed_bounded:
  assumes "map cbEpoch cs = map int [0..<length cs]" and "set cs \<subseteq> set bs"
  shows "length cs \<le> length bs"
proof -
  have "distinct (map cbEpoch cs)" unfolding assms(1) by (simp add: distinct_map)
  then have "length cs = card (set cs)" by (simp add: distinct_map distinct_card)
  also have "\<dots> \<le> card (set bs)" using assms(2) by (intro card_mono) simp_all
  also have "\<dots> \<le> length bs" by (rule card_length)
  finally show ?thesis .
qed

lemma commit_next_inv:
  assumes inv: "committor_inv bs c" and b: "map_of (Blocks c) (Index c) = Some b"
    and small: "length bs < 2 ^ 63"
  shows "committor_inv bs (commit_next c b)"
proof -
  have mem: "(Index c, b) \<in> set (Blocks c)" using b by (rule map_of_SomeD)
  with inv have eb: "cbEpoch b = int (length (commitCh c))" "b \<in> set bs"
    by (auto simp: committor_inv_def)
  with inv have order: "map cbEpoch (commitCh c @ [b]) = map int [0..<length (commitCh c @ [b])]"
    by (simp add: committor_inv_def)
  have "length (commitCh c @ [b]) \<le> length bs"
    using inv eb(2) by (intro committed_bounded [OF order]) (simp add: committor_inv_def)
  then have "i64 (Index c + 1) = int (length (commitCh c @ [b]))"
    using inv small by (subst i64_id) (auto simp: committor_inv_def)
  moreover have "set (AList.delete (Index c) (Blocks c)) = {e \<in> set (Blocks c). fst e \<noteq> Index c}"
    by (auto simp: AList.delete_eq)
  ultimately show ?thesis
    using inv order eb(2)
    by (auto simp: committor_inv_def commit_next_def distinct_delete delete_conv')
qed

lemma commit_loop_inv:
  assumes "committor_inv bs c" and "length bs < 2 ^ 63"
  shows "committor_inv bs (commit_loop c) \<and> map_of (Blocks (commit_loop c)) (Index (commit_loop c)) = None"
  using assms
proof (induction c rule: commit_loop.induct)
  case (1 c)
  show ?case
  proof (cases "map_of (Blocks c) (Index c)")
    case None
    with 1 show ?thesis by (simp add: commit_loop.simps)
  next
    case (Some b)
    have "commit_loop c = commit_loop (commit_next c b)" using Some by (subst commit_loop.simps) simp
    with 1 Some commit_next_inv show ?thesis by simp
  qed
qed

lemma Committor_Commit_inv:
  assumes inv: "committor_inv bs c" and out: "map_of (Blocks c) (Index c) = None"
    and small: "length (bs @ [b]) < 2 ^ 63"
  shows "committor_inv (bs @ [b]) (Committor_Commit c b) \<and>
    map_of (Blocks (Committor_Commit c b)) (Index (Committor_Commit c b)) = None"
proof (cases "cbEpoch b < Index c")
  case True
  with inv out show ?thesis by (auto simp: Committor_Commit_def committor_inv_def)
next
  case False
  let ?c = "c\<lparr>Blocks := AList.update (cbEpoch b) b (Blocks c)\<rparr>"
  have "set (AList.update k v xs) \<subseteq> insert (k, v) (set xs)" for k v and xs :: "(int \<times> ConsensusBlock) list"
    by (induction xs) auto
  then have elems: "set (AList.update (cbEpoch b) b (Blocks c)) \<subseteq> insert (cbEpoch b, b) (set (Blocks c))" .
  have "committor_inv (bs @ [b]) ?c"
    using inv False elems by (fastforce simp: committor_inv_def distinct_update update_conv')
  from commit_loop_inv [OF this small] False show ?thesis by (simp add: Committor_Commit_def)
qed

lemma Committor_runs_inv:
  assumes "length bs < 2 ^ 63"
  shows "committor_inv bs (foldl Committor_Commit NewCommittor bs) \<and>
    map_of (Blocks (foldl Committor_Commit NewCommittor bs)) (Index (foldl Committor_Commit NewCommittor bs)) = None"
  using assms
proof (induction bs rule: rev_induct)
  case Nil
  show ?case by (simp add: committor_inv_def NewCommittor_def)
next
  case (snoc b bs)
  then show ?case using Committor_Commit_inv [of bs "foldl Committor_Commit NewCommittor bs" b] by simp
qed

section \<open>Properties\<close>

text \<open>
  C20. Whatever blocks are handed in and in whatever order, the blocks committed are handed-in
  blocks of the epochs \<open>0, 1, \<dots>, k - 1\<close>, each once and in this order, where \<open>k\<close> is the first
  epoch for which no block was handed in.
\<close>

theorem commit_maximal_prefix:
  assumes "length bs < 2 ^ 63"
  shows "let c = foldl Committor_Commit NewCommittor bs in
    map cbEpoch (commitCh c) = map int [0..<length (commitCh c)] \<and> set (commitCh c) \<subseteq> set bs \<and>
    Index c = int (length (commitCh c)) \<and> Index c \<notin> cbEpoch ` set bs"
  using Committor_runs_inv [OF assms] by (auto simp: committor_inv_def Let_def)

theorem commit_maximal_prefix_witness:
  "let c = foldl Committor_Commit NewCommittor (map (NewConsensusBlock 0 []) [1, 0, 3]) in
    map cbEpoch (commitCh c) = map int [0..<length (commitCh c)] \<and>
    set (commitCh c) \<subseteq> set (map (NewConsensusBlock 0 []) [1, 0, 3]) \<and>
    Index c = int (length (commitCh c)) \<and> Index c \<notin> cbEpoch ` set (map (NewConsensusBlock 0 []) [1, 0, 3])"
  by (rule commit_maximal_prefix) simp

text \<open>
  The report of a committed block never panics as long as the database's error for a missing
  key is not the store's own \<^verbatim>\<open>ErrNotFoundKey\<close>.
\<close>

lemma Committor_run_safe:
  assumes "nutsdb_ok E" and "nuts_nf E \<noteq> ErrNotFoundKey"
  shows "\<exists>reports. Committor_run E st b = Ret reports"
proof -
  have "GetBlock E st d \<noteq> Inr None" for d
    using assms by (auto simp: GetBlock_def Store_Read_eq split: option.splits sum.splits)
  then have "\<exists>rs'. foldo (\<lambda>reports payload. case GetBlock E st payload of
          Inl _ \<Rightarrow> Ret reports
        | Inr None \<Rightarrow> Panic ''nil pointer dereference''
        | Inr (Some b) \<Rightarrow> Ret (if Txs (bBatch b) \<noteq> [] then reports @ [(bProposer b, ID (bBatch b))] else reports))
       rs ds = Ret rs'" for rs ds
    by (induction ds arbitrary: rs) (auto split: sum.split option.split)
  then show ?thesis by (simp add: Committor_run_def)
qed

end
