(* ===== verification/Broadcast.thy ===== *)
theory Broadcast
  imports Aggregator
begin

text \<open>
  \<^verbatim>\<open>core/smvba/consensus/spb.go\<close>: one instance of the strong provable broadcast.

  The core starts every call of \<^verbatim>\<open>processProposal\<close> and \<^verbatim>\<open>processVote\<close> as a goroutine, so calls on the
  same instance interleave. \<open>spb_step\<close> is the code of the two methods cut at its accesses to shared
  memory (the atomic values \<^verbatim>\<open>BlockHash\<close> and \<^verbatim>\<open>LockFlag\<close>, and the sections under \<^verbatim>\<open>uvm\<close> and \<^verbatim>\<open>vm\<close>), one
  program point per access.
  Messages are collected as outputs: \<open>SendTo\<close> for the transmitter, \<open>ToSelf\<close> for the receive
  channel of the node.
\<close>

section \<open>State\<close>

record SPB =
  sProposer :: NodeID
  sEpoch :: int
  sRound :: int
  BlockHash :: "Digest option"
  Votes :: "int \<rightharpoonup> int"
  unHandleVote :: "SPBVote list"
  unHandleProposal :: "SPBProposal list"
  LockFlag :: bool

definition NewSPB :: "int \<Rightarrow> int \<Rightarrow> NodeID \<Rightarrow> SPB" where
  "NewSPB epoch round proposer =
     \<lparr>sProposer = proposer, sEpoch = epoch, sRound = round, BlockHash = None, Votes = Map.empty,
      unHandleVote = [], unHandleProposal = [], LockFlag = False\<rparr>"

definition IsLock :: "SPB \<Rightarrow> bool" where
  "IsLock s = LockFlag s"

definition GetBlockHash :: "SPB \<Rightarrow> Digest option" where
  "GetBlockHash s = BlockHash s"

datatype spb_out = SendTo NodeID message | ToSelf message

text \<open>Program points of the two methods.\<close>

datatype spb_pc =
    PStart SPBProposal
  | PStore SPBProposal Digest
  | PVote SPBProposal Digest
  | PDrain
  | PDefer SPBProposal
  | PLock SPBProposal
  | VStart SPBVote
  | VDefer SPBVote
  | VCount SPBVote
  | VAct SPBVote int

type_synonym spb_result = "(SPB \<times> spb_out list \<times> spb_pc list) outcome"

section \<open>The methods\<close>

text \<open>Sending a vote: to the proposer, or to the node's own channel when it is the proposer.\<close>

definition vote_out ::
  "('a crypto_env_scheme) \<Rightarrow> NodeID \<Rightarrow> SigService \<Rightarrow> SPB \<Rightarrow> SPBProposal \<Rightarrow> Digest \<Rightarrow> spb_out list" where
  "vote_out E name sg s p h =
     (case NewSPBVote E name (pAuthor p) h (sEpoch s) (sRound s) (pPhase p) sg of
        Inl _ \<Rightarrow> []
      | Inr vote \<Rightarrow> [if name \<noteq> sProposer s then SendTo (sProposer s) (MVote vote) else ToSelf (MVote vote)])"

definition vote_num :: "SPB \<Rightarrow> int \<Rightarrow> int" where
  "vote_num s phase = (case Votes s phase of None \<Rightarrow> 0 | Some k \<Rightarrow> k)"

text \<open>What the vote that reaches the threshold triggers.\<close>

definition threshold_out ::
  "('a crypto_env_scheme) \<Rightarrow> NodeID \<Rightarrow> SigService \<Rightarrow> SPB \<Rightarrow> int \<Rightarrow> spb_out list outcome" where
  "threshold_out E name sg s phase =
     (if phase = SPB_ONE_PHASE then
        Ret (case NewSPBProposal E name (Some (NewConsensusBlock (sProposer s) [] (- 1)))
                    (sEpoch s) (sRound s) SPB_TWO_PHASE sg of
               Inl _ \<Rightarrow> []
             | Inr proposal \<Rightarrow> [SendTo NONE (MProposal proposal), ToSelf (MProposal proposal)])
      else if phase = SPB_TWO_PHASE then
        (case BlockHash s of
           None \<Rightarrow> Panic ''interface conversion: interface is nil''
         | Some h \<Rightarrow>
             Ret (case NewFinish E name h (sEpoch s) (sRound s) sg of
                    Inl _ \<Rightarrow> []
                  | Inr finish \<Rightarrow> [SendTo NONE (MFinish finish), ToSelf (MFinish finish)]))
      else Ret [])"

section \<open>Interleaved execution\<close>

text \<open>One step of one goroutine: the new state, its outputs and the program points that follow.\<close>

fun spb_step ::
  "('a crypto_env_scheme) \<Rightarrow> NodeID \<Rightarrow> Committee \<Rightarrow> SigService \<Rightarrow> SPB \<Rightarrow> spb_pc \<Rightarrow> spb_result" where
  "spb_step E name c sg s (PStart p) =
     (if pPhase p = SPB_ONE_PHASE then
        if BlockHash s \<noteq> None then Ret (s, [], [])
        else
          case pB p of
            None \<Rightarrow> Panic ''nil pointer dereference''
          | Some b \<Rightarrow>
              if sProposer s \<noteq> cbProposer b then Ret (s, [], [])
              else Ret (s, [], [PStore p (ConsensusBlock_Hash E b)])
      else if pPhase p = SPB_TWO_PHASE then
        Ret (s, [], [if BlockHash s = None then PDefer p else PLock p])
      else Ret (s, [], []))"
| "spb_step E name c sg s (PStore p h) = Ret (s\<lparr>BlockHash := Some h\<rparr>, [], [PVote p h])"
| "spb_step E name c sg s (PVote p h) =
     Ret (s, vote_out E name sg s p h, if pPhase p = SPB_ONE_PHASE then [PDrain] else [])"
| "spb_step E name c sg s PDrain =
     Ret (s\<lparr>unHandleProposal := [], unHandleVote := []\<rparr>, [],
          map PStart (unHandleProposal s) @ map VStart (unHandleVote s))"
| "spb_step E name c sg s (PDefer p) = Ret (s\<lparr>unHandleProposal := unHandleProposal s @ [p]\<rparr>, [], [])"
| "spb_step E name c sg s (PLock p) = Ret (s\<lparr>LockFlag := True\<rparr>, [], [PVote p Digest0])"
| "spb_step E name c sg s (VStart v) = Ret (s, [], [if BlockHash s = None then VDefer v else VCount v])"
| "spb_step E name c sg s (VDefer v) = Ret (s\<lparr>unHandleVote := unHandleVote s @ [v]\<rparr>, [], [])"
| "spb_step E name c sg s (VCount v) =
     (let num = vote_num s (vPhase v) + 1
      in Ret (s\<lparr>Votes := (Votes s)(vPhase v \<mapsto> num)\<rparr>, [], [VAct v num]))"
| "spb_step E name c sg s (VAct v num) =
     (if num = HightThreshold c then
        bind_outcome (threshold_out E name sg s (vPhase v)) (\<lambda>outs. Ret (s, outs, []))
      else Ret (s, [], []))"

text \<open>
  An instance with its running goroutines and its outputs so far; at any time the core may
  start another call.
\<close>

fun is_call :: "spb_pc \<Rightarrow> bool" where
  "is_call (PStart _) = True"
| "is_call (VStart _) = True"
| "is_call _ = False"

inductive spb_sys ::
  "('a crypto_env_scheme) \<Rightarrow> NodeID \<Rightarrow> Committee \<Rightarrow> SigService \<Rightarrow>
   SPB \<times> spb_pc list \<times> spb_out list \<Rightarrow> SPB \<times> spb_pc list \<times> spb_out list \<Rightarrow> bool"
  for E :: "'a crypto_env_scheme" and name :: NodeID and c :: Committee and sg :: SigService where
  call: "is_call pc \<Longrightarrow> spb_sys E name c sg (s, pcs, outs) (s, pcs @ [pc], outs)"
| run: "spb_step E name c sg s pc = Ret (s', outs', new) \<Longrightarrow>
    spb_sys E name c sg (s, ps @ pc # qs, outs) (s', ps @ qs @ new, outs @ outs')"

inductive_cases spb_sysE: "spb_sys E name c sg st st'"

section \<open>A locked instance has its block\<close>

text \<open>The points that are reached only after \<^verbatim>\<open>BlockHash\<close> was seen set.\<close>

fun past_hash :: "spb_pc \<Rightarrow> bool" where
  "past_hash (PLock _) = True"
| "past_hash (VCount _) = True"
| "past_hash (VAct _ _) = True"
| "past_hash _ = False"

text \<open>Only second-phase proposals are put off or set the lock.\<close>

fun defers_first :: "spb_pc \<Rightarrow> bool" where
  "defers_first (PDefer p) \<longleftrightarrow> pPhase p = SPB_ONE_PHASE"
| "defers_first (PLock p) \<longleftrightarrow> pPhase p = SPB_ONE_PHASE"
| "defers_first _ \<longleftrightarrow> False"

definition spb_safe :: "SPB \<Rightarrow> spb_pc list \<Rightarrow> bool" where
  "spb_safe s pcs \<longleftrightarrow>
     (LockFlag s \<longrightarrow> BlockHash s \<noteq> None) \<and> (\<forall>p \<in> set (unHandleProposal s). pPhase p \<noteq> SPB_ONE_PHASE) \<and>
     (\<forall>pc \<in> set pcs. (past_hash pc \<longrightarrow> BlockHash s \<noteq> None) \<and> \<not> defers_first pc)"

lemma NewSPB_safe: "spb_safe (NewSPB e r n) []"
  by (simp add: spb_safe_def NewSPB_def)

lemma spb_safe_call: "is_call pc \<Longrightarrow> spb_safe s (pcs @ [pc]) = spb_safe s pcs"
  by (cases pc) (auto simp: spb_safe_def)

lemma spb_step_same:
  assumes "spb_step E name c sg s pc = Ret (s', outs, new)"
  shows "sProposer s' = sProposer s \<and> sEpoch s' = sEpoch s \<and> sRound s' = sRound s \<and>
    (BlockHash s \<noteq> None \<longrightarrow> BlockHash s' \<noteq> None)"
  using assms by (cases pc) (auto simp: Let_def split: if_splits option.splits)

lemma spb_step_safe:
  assumes "spb_step E name c sg s pc = Ret (s', outs, new)" and "spb_safe s (pc # pcs)"
  shows "spb_safe s' (pcs @ new)"
  using assms by (cases pc) (auto simp: spb_safe_def Let_def split: if_splits option.splits)

text \<open>The only panic left is the nil block of a first-phase proposal.\<close>

lemma spb_step_panics:
  assumes "spb_step E name c sg s pc = Panic x" and "spb_safe s [pc]"
  shows "\<exists>p. pc = PStart p \<and> pPhase p = SPB_ONE_PHASE \<and> pB p = None"
  using assms
  by (cases pc) (auto simp: spb_safe_def threshold_out_def Let_def split: if_splits option.splits)

lemma spb_safe_perm: "set pcs = set pcs' \<Longrightarrow> spb_safe s pcs = spb_safe s pcs'"
  by (simp add: spb_safe_def)

lemma spb_sys_safe:
  assumes "spb_sys E name c sg st st'" and "spb_safe (fst st) (fst (snd st))"
  shows "spb_safe (fst st') (fst (snd st'))"
  using assms(1)
proof (cases rule: spb_sys.cases)
  case (call pc s pcs outs)
  with assms(2) show ?thesis by (simp add: spb_safe_call)
next
  case (run s pc s' outs' new ps qs outs)
  from assms(2) run(1) have "spb_safe s (pc # ps @ qs)"
    by (simp add: spb_safe_perm [of "ps @ pc # qs" "pc # ps @ qs"])
  from spb_step_safe [OF run(3) this] run(2) show ?thesis by simp
qed

section \<open>Goroutines come to an end\<close>

text \<open>
  Every step either uses up a first-phase call, which alone wakes what was put off, or gets
  closer to the end of its call.
\<close>

fun pc_drains :: "spb_pc \<Rightarrow> nat" where
  "pc_drains (PStart p) = (if pPhase p = SPB_ONE_PHASE then 1 else 0)"
| "pc_drains (PStore p h) = (if pPhase p = SPB_ONE_PHASE then 1 else 0)"
| "pc_drains (PVote p h) = (if pPhase p = SPB_ONE_PHASE then 1 else 0)"
| "pc_drains PDrain = 1"
| "pc_drains _ = 0"

fun pc_weight :: "spb_pc \<Rightarrow> nat" where
  "pc_weight (PStart p) = 4"
| "pc_weight (PStore p h) = 3"
| "pc_weight (PLock p) = 3"
| "pc_weight (PVote p h) = 2"
| "pc_weight (VStart v) = 3"
| "pc_weight (VCount v) = 2"
| "pc_weight _ = 1"

lemma spb_step_decreases:
  assumes "spb_step E name c sg s pc = Ret (s', outs, new)" and "spb_safe s [pc]"
  shows "sum_list (map pc_drains new) < pc_drains pc \<or>
    sum_list (map pc_drains new) = pc_drains pc \<and> sum_list (map pc_weight new) < pc_weight pc"
proof (cases pc)
  case PDrain
  with assms have "\<forall>x \<in> set (map pc_drains new). x = 0" by (auto simp: spb_safe_def)
  then have "sum_list (map pc_drains new) = 0" by (simp only: sum_list_eq_0_iff)
  with PDrain show ?thesis by simp
qed (use assms in \<open>auto simp: spb_safe_def Let_def split: if_splits option.splits\<close>)

section \<open>The threshold triggers once per phase\<close>

fun triggered :: "int \<Rightarrow> spb_out \<Rightarrow> bool" where
  "triggered phase (SendTo _ (MProposal _)) \<longleftrightarrow> phase = SPB_ONE_PHASE"
| "triggered phase (SendTo _ (MFinish _)) \<longleftrightarrow> phase = SPB_TWO_PHASE"
| "triggered phase _ \<longleftrightarrow> False"

text \<open>Goroutines that hold the winning count and have not acted on it yet.\<close>

fun holds_threshold :: "Committee \<Rightarrow> int \<Rightarrow> spb_pc \<Rightarrow> bool" where
  "holds_threshold c phase (VAct v num) \<longleftrightarrow> vPhase v = phase \<and> num = HightThreshold c"
| "holds_threshold c phase _ \<longleftrightarrow> False"

definition trigger_inv :: "Committee \<Rightarrow> int \<Rightarrow> SPB \<times> spb_pc list \<times> spb_out list \<Rightarrow> bool" where
  "trigger_inv c phase st =
     (case st of (s, pcs, outs) \<Rightarrow>
        length (filter (triggered phase) outs) + length (filter (holds_threshold c phase) pcs)
        \<le> (if HightThreshold c \<le> vote_num s phase then 1 else 0))"

lemma vote_out_not_triggered: "filter (triggered phase) (vote_out E name sg s p h) = []"
  by (simp add: vote_out_def split: sum.split)

lemma threshold_out_triggered:
  assumes "threshold_out E name sg s ph = Ret outs"
  shows "length (filter (triggered phase) outs) \<le> (if phase = ph then 1 else 0)"
  using assms by (auto simp: threshold_out_def split: if_splits option.splits sum.splits)

lemma filter_no_threshold [simp]:
  "filter (holds_threshold c phase) (map PStart ps) = []"
  "filter (holds_threshold c phase) (map VStart vs) = []"
  by (simp_all add: filter_empty_conv)

text \<open>A step moves at most what it consumes, plus one when the count reaches the threshold.\<close>

lemma spb_step_trigger:
  assumes "spb_step E name c sg s pc = Ret (s', outs, new)"
  shows "length (filter (triggered phase) outs) + length (filter (holds_threshold c phase) new)
      + (if HightThreshold c \<le> vote_num s phase then 1 else 0)
    \<le> (if holds_threshold c phase pc then 1 else 0)
      + (if HightThreshold c \<le> vote_num s' phase then 1 else (0 :: nat))"
proof (cases pc)
  case (VAct v num)
  with assms threshold_out_triggered [of E name sg s "vPhase v" _ phase] show ?thesis
    by (auto split: if_splits)
qed (use assms in \<open>auto simp: vote_num_def vote_out_not_triggered Let_def split: if_splits option.splits\<close>)

lemma spb_sys_trigger:
  assumes "spb_sys E name c sg st st'" and "trigger_inv c phase st"
  shows "trigger_inv c phase st'"
  using assms(1)
proof (cases rule: spb_sys.cases)
  case (call pc s pcs outs)
  then have "\<not> holds_threshold c phase pc" by (cases pc) auto
  with call assms(2) show ?thesis by (simp add: trigger_inv_def)
next
  case (run s pc s' outs' new ps qs outs)
  from spb_step_trigger [OF run(3), of phase] assms(2) run(1,2) show ?thesis
    by (auto simp: trigger_inv_def split: if_splits)
qed

lemma NewSPB_trigger: "trigger_inv c phase (NewSPB e r n, [], [])"
  by (simp add: trigger_inv_def)

section \<open>Properties\<close>

text \<open>
  C25. In every interleaving of the calls on an instance, the second-phase proposal and the
  Finish message go out at most once each, and only if \<open>2 f + 1\<close> votes of the phase were
  counted.
\<close>

theorem triggers_once:
  assumes "(spb_sys E name c sg)\<^sup>*\<^sup>* (NewSPB e r n, [], []) (s, pcs, outs)"
  shows "length (filter (triggered phase) outs) \<le> (if HightThreshold c \<le> vote_num s phase then 1 else 0)"
proof -
  have "trigger_inv c phase (s, pcs, outs)"
    using assms
    by (induction rule: rtranclp_induct) (auto intro: NewSPB_trigger spb_sys_trigger)
  then show ?thesis by (simp add: trigger_inv_def)
qed

section \<open>Schedules\<close>

text \<open>A schedule: which call starts, or which goroutine takes its next step.\<close>

datatype spb_action = Call spb_pc | Run nat

fun spb_play ::
  "('a crypto_env_scheme) \<Rightarrow> NodeID \<Rightarrow> Committee \<Rightarrow> SigService \<Rightarrow> SPB \<times> spb_pc list \<times> spb_out list
   \<Rightarrow> spb_action list \<Rightarrow> (SPB \<times> spb_pc list \<times> spb_out list) option" where
  "spb_play E name c sg st [] = Some st"
| "spb_play E name c sg (s, pcs, outs) (Call pc # as) =
     (if is_call pc then spb_play E name c sg (s, pcs @ [pc], outs) as else None)"
| "spb_play E name c sg (s, pcs, outs) (Run i # as) =
     (if i < length pcs then
        case spb_step E name c sg s (pcs ! i) of
          Ret (s', outs', new) \<Rightarrow> spb_play E name c sg (s', take i pcs @ drop (Suc i) pcs @ new, outs @ outs') as
        | Panic _ \<Rightarrow> None
      else None)"

lemma play_reaches: "spb_play E name c sg st as = Some st' \<Longrightarrow> (spb_sys E name c sg)\<^sup>*\<^sup>* st st'"
proof (induction E name c sg st as rule: spb_play.induct)
  case (2 E name c sg s pcs outs pc as)
  then show ?case
    using spb_sys.call [of pc E name c sg s pcs outs]
    by (auto split: if_splits intro: converse_rtranclp_into_rtranclp)
next
  case (3 E name c sg s pcs outs i as)
  then obtain s' outs' new where i: "i < length pcs"
    and st: "spb_step E name c sg s (pcs ! i) = Ret (s', outs', new)"
    by (auto split: if_splits outcome.splits)
  have "spb_sys E name c sg (s, pcs, outs) (s', take i pcs @ drop (Suc i) pcs @ new, outs @ outs')"
    using spb_sys.run [OF st, of "take i pcs" "drop (Suc i) pcs" outs] id_take_nth_drop [OF i] by simp
  with 3 i st show ?case by (auto intro: converse_rtranclp_into_rtranclp)
qed simp

definition sample_proposal :: "Digest list \<Rightarrow> SPBProposal" where
  "sample_proposal ds = \<lparr>pAuthor = 0, pB = Some (NewConsensusBlock 0 ds 0), pEpoch = 0, pRound = 0,
     pPhase = SPB_ONE_PHASE, pSignature = no_sig\<rparr>"

definition sample_vote :: "int \<Rightarrow> SPBVote" where
  "sample_vote phase = \<lparr>vAuthor = 0, vProposer = 0, vBlockHash = Digest0, vEpoch = 0, vRound = 0,
     vPhase = phase, vSignature = no_sig\<rparr>"

definition with_hash :: "Digest list \<Rightarrow> SPB" where
  "with_hash ds = (NewSPB 0 0 0)\<lparr>BlockHash := Some (ConsensusBlock_Hash sample_store_env (NewConsensusBlock 0 ds 0))\<rparr>"

lemmas schedule_defs =
  sample_proposal_def sample_vote_def NewSPB_def NewConsensusBlock_def vote_out_def vote_num_def threshold_out_def
  NewSPBVote_def NewFinish_def RequestSignature_def Let_def numeral_eq_Suc

lemma sample_run:
  "\<exists>outs. (spb_sys sample_store_env 0 committee1 sample_sig)\<^sup>*\<^sup>* (NewSPB 0 0 0, [], [])
     ((with_hash [])\<lparr>Votes := [1 \<mapsto> 1]\<rparr>, [], outs) \<and> length (filter (triggered 1) outs) = 1"
proof -
  obtain outs where
    p: "spb_play sample_store_env 0 committee1 sample_sig (NewSPB 0 0 0, [], [])
         [Call (PStart (sample_proposal [])), Run 0, Run 0, Run 0, Run 0, Call (VStart (sample_vote 1)), Run 0, Run 0, Run 0]
       = Some ((with_hash [])\<lparr>Votes := [1 \<mapsto> 1]\<rparr>, [], outs)"
    and "length (filter (triggered 1) outs) = 1"
    by (simp add: schedule_defs with_hash_def)
  with play_reaches [OF p] show ?thesis by blast
qed

theorem triggers_once_witness:
  "\<exists>outs. length (filter (triggered 1) outs) = 1 \<and> length (filter (triggered 1) outs) \<le>
     (if HightThreshold committee1 \<le> vote_num ((with_hash [])\<lparr>Votes := [1 \<mapsto> 1]\<rparr>) 1 then 1 else 0)"
proof -
  obtain outs where "length (filter (triggered 1) outs) = 1"
    and "(spb_sys sample_store_env 0 committee1 sample_sig)\<^sup>*\<^sup>* (NewSPB 0 0 0, [], [])
      ((with_hash [])\<lparr>Votes := [1 \<mapsto> 1]\<rparr>, [], outs)" using sample_run by blast
  from this(1) triggers_once [OF this(2), of 1] show ?thesis by blast
qed

section \<open>Races\<close>

text \<open>
  Two first-phase proposals with different blocks may both pass the check for an earlier one
  before either is recorded: the node then votes for both.
\<close>

theorem double_vote:
  "\<exists>s pcs outs v w. (spb_sys sample_store_env 1 committee4 sample_sig)\<^sup>*\<^sup>* (NewSPB 0 0 0, [], []) (s, pcs, outs) \<and>
     SendTo 0 (MVote v) \<in> set outs \<and> SendTo 0 (MVote w) \<in> set outs \<and>
     vPhase v = SPB_ONE_PHASE \<and> vPhase w = SPB_ONE_PHASE \<and> vBlockHash v \<noteq> vBlockHash w"
proof -
  let ?h = "\<lambda>ds. ConsensusBlock_Hash sample_store_env (NewConsensusBlock 0 ds 0)"
  obtain s pcs v w where
    p: "spb_play sample_store_env 1 committee4 sample_sig (NewSPB 0 0 0, [], [])
         [Call (PStart (sample_proposal [])), Call (PStart (sample_proposal [[1]])), Run 0, Run 0, Run 0, Run 1, Run 0, Run 1]
       = Some (s, pcs, [SendTo 0 (MVote v), SendTo 0 (MVote w)])"
    and votes: "vPhase v = 0" "vPhase w = 0" "vBlockHash v = ?h []" "vBlockHash w = ?h [[1]]"
    by (simp add: schedule_defs)
  have "?h [] \<noteq> ?h [[1]]" by code_simp
  with play_reaches [OF p] votes show ?thesis by (metis list.set_intros)
qed

text \<open>
  A second-phase proposal that sees no block hash can be put aside after the first-phase call
  has emptied the list: nothing takes it up again, although the hash is set and no call is left.
\<close>

theorem lost_wakeup:
  "\<exists>s outs. (spb_sys sample_store_env 1 committee4 sample_sig)\<^sup>*\<^sup>* (NewSPB 0 0 0, [], []) (s, [], outs) \<and>
     BlockHash s \<noteq> None \<and> unHandleProposal s \<noteq> [] \<and> \<not> LockFlag s"
proof -
  obtain s outs where
    p: "spb_play sample_store_env 1 committee4 sample_sig (NewSPB 0 0 0, [], [])
         [Call (PStart ((sample_proposal [])\<lparr>pPhase := SPB_TWO_PHASE\<rparr>)), Run 0,
          Call (PStart (sample_proposal [])), Run 1, Run 1, Run 1, Run 1, Run 0]
       = Some (s, [], outs)"
    and "BlockHash s \<noteq> None" "unHandleProposal s \<noteq> []" "\<not> LockFlag s"
    by (simp add: schedule_defs)
  with play_reaches [OF p] show ?thesis by blast
qed

text \<open>
  Votes are counted, not voters: a single node that repeats its second-phase vote makes a
  committee of four finish.
\<close>

theorem repeated_votes_finish:
  "\<exists>s outs f. (spb_sys sample_store_env 0 committee4 sample_sig)\<^sup>*\<^sup>* (NewSPB 0 0 0, [], []) (s, [], outs) \<and>
     SendTo NONE (MFinish f) \<in> set outs"
proof -
  obtain s outs f where
    p: "spb_play sample_store_env 0 committee4 sample_sig (NewSPB 0 0 0, [], [])
         [Call (PStart (sample_proposal [])), Run 0, Run 0, Run 0, Run 0,
          Call (VStart (sample_vote 1)), Run 0, Run 0, Run 0, Call (VStart (sample_vote 1)), Run 0, Run 0, Run 0,
          Call (VStart (sample_vote 1)), Run 0, Run 0, Run 0]
       = Some (s, [], outs)"
    and "SendTo NONE (MFinish f) \<in> set outs"
    by (simp add: schedule_defs)
  with play_reaches [OF p] show ?thesis by blast
qed

end
