(* ===== verification/Core.thy ===== *)
theory Core
  imports Leader_Election Commit_Order Broadcast Network
begin

text \<open>
  \<^verbatim>\<open>core/smvba/consensus/core.go\<close>: the state of a consensus node and the handlers of its main loop.

  Components shared by pointer are owned once: the store and the transaction pool live in the
  mempool (\<open>cMempool\<close>), which also stands for the mempool goroutine the core calls through
  \<^verbatim>\<open>connectChannel\<close>. \<open>Sent\<close> is what was handed to the transmitter, \<open>RecvCh\<close> the receive channel and
  \<open>Tasks\<close> the goroutines started on broadcast instances, each with the key of its instance
  (instances are never removed or replaced, so the key stands for the pointer). A handler
  returns the new state and its error; \<open>Panic\<close> is a run-time panic, which ends the process.
\<close>

section \<open>State\<close>

type_synonym spb_key = "int \<times> int \<times> NodeID"

record Core =
  cName :: NodeID
  cCommittee :: Committee
  cParameters :: Parameters
  cSigService :: SigService
  cMempool :: Mempool
  cAggreator :: Aggreator
  cElector :: Elector
  cCommitor :: Committor
  FinishFlags :: "int \<rightharpoonup> (int \<rightharpoonup> (NodeID \<rightharpoonup> Digest))"
  SPbInstances :: "int \<rightharpoonup> (int \<rightharpoonup> (NodeID \<rightharpoonup> SPB))"
  DoneFlags :: "int \<rightharpoonup> (int \<rightharpoonup> unit)"
  ReadyFlags :: "int \<rightharpoonup> (int \<rightharpoonup> unit)"
  HaltFlags :: "int set"
  Epoch :: int
  Sent :: "message NetMessage list"
  RecvCh :: "message list"
  Tasks :: "(spb_key \<times> spb_pc) list"

definition NewCore ::
  "NodeID \<Rightarrow> Committee \<Rightarrow> Parameters \<Rightarrow> SigService \<Rightarrow> Mempool \<Rightarrow> Core" where
  "NewCore name c ps sg m =
     \<lparr>cName = name, cCommittee = c, cParameters = ps, cSigService = sg, cMempool = m,
      cAggreator = NewAggreator c, cElector = NewElector sg c, cCommitor = NewCommittor,
      FinishFlags = Map.empty, SPbInstances = Map.empty, DoneFlags = Map.empty,
      ReadyFlags = Map.empty, HaltFlags = {}, Epoch = 0, Sent = [], RecvCh = [], Tasks = []\<rparr>"

section \<open>Effects\<close>

definition core_send :: "Core \<Rightarrow> NodeID \<Rightarrow> message \<Rightarrow> Core" where
  "core_send c to m = c\<lparr>Sent := Sent c @ [Transmitor_Send (cCommittee c) (cName c) to m]\<rparr>"

definition core_self :: "Core \<Rightarrow> message \<Rightarrow> Core" where
  "core_self c m = c\<lparr>RecvCh := RecvCh c @ [m]\<rparr>"

text \<open>The source's idiom: send to everyone else, then to the own receive channel.\<close>

definition core_broadcast :: "Core \<Rightarrow> message \<Rightarrow> Core" where
  "core_broadcast c m = core_self (core_send c NONE m) m"

definition core_go :: "Core \<Rightarrow> spb_key \<Rightarrow> spb_pc \<Rightarrow> Core" where
  "core_go c k pc = c\<lparr>Tasks := Tasks c @ [(k, pc)]\<rparr>"

section \<open>Helpers\<close>

definition messgaeFilter :: "Core \<Rightarrow> int \<Rightarrow> bool" where
  "messgaeFilter c epoch \<longleftrightarrow> epoch < Epoch c"

definition storeConsensusBlock ::
  "('a consensus_env_scheme) \<Rightarrow> Core \<Rightarrow> ConsensusBlock \<Rightarrow> Core \<times> go_error option" where
  "storeConsensusBlock E c block =
     (case ConsensusBlock_Encode E block of
        Inl e \<Rightarrow> (c, Some e)
      | Inr value \<Rightarrow>
          let (st, r) = Store_Write E (mStore (cMempool c)) (ConsensusBlock_Hash E block) value
          in (c\<lparr>cMempool := (cMempool c)\<lparr>mStore := st\<rparr>\<rparr>, r))"

definition getConsensusBlock ::
  "('a consensus_env_scheme) \<Rightarrow> Core \<Rightarrow> Digest \<Rightarrow> go_error + ConsensusBlock option" where
  "getConsensusBlock E c digest =
     (case Store_Read E (mStore (cMempool c)) digest of
        Inl e \<Rightarrow> if e = ErrNotFoundKey then Inr None else Inl e
      | Inr value \<Rightarrow>
          (case ConsensusBlock_Decode E value of
             Inl e \<Rightarrow> Inl e
           | Inr b \<Rightarrow> Inr (Some b)))"

definition getSpbInstance :: "Core \<Rightarrow> int \<Rightarrow> int \<Rightarrow> NodeID \<Rightarrow> Core \<times> SPB" where
  "getSpbInstance c epoch round node =
     (case get3 (SPbInstances c) epoch round node of
        Some instance' \<Rightarrow> (c, instance')
      | None \<Rightarrow>
          let instance' = NewSPB epoch round node
          in (c\<lparr>SPbInstances := put3 (SPbInstances c) epoch round node instance'\<rparr>, instance'))"

definition hasFinish :: "Core \<Rightarrow> int \<Rightarrow> int \<Rightarrow> NodeID \<Rightarrow> bool \<times> Digest" where
  "hasFinish c epoch round node =
     (case get3 (FinishFlags c) epoch round node of
        None \<Rightarrow> (False, Digest0)
      | Some d \<Rightarrow> (True, d))"

definition hasReady :: "Core \<Rightarrow> int \<Rightarrow> int \<Rightarrow> Core \<times> bool" where
  "hasReady c epoch round =
     (c\<lparr>ReadyFlags := init2 (ReadyFlags c) epoch\<rparr>, get2 (ReadyFlags c) epoch round \<noteq> None)"

definition hasDone :: "Core \<Rightarrow> int \<Rightarrow> int \<Rightarrow> Core \<times> bool" where
  "hasDone c epoch round =
     (c\<lparr>DoneFlags := init2 (DoneFlags c) epoch\<rparr>, get2 (DoneFlags c) epoch round \<noteq> None)"

definition generatorBlock :: "('a consensus_env_scheme) \<Rightarrow> Core \<Rightarrow> int \<Rightarrow> Core \<times> ConsensusBlock" where
  "generatorBlock E c epoch =
     (let (m, payloads, r) = HandleMakeBlockMsg E (cMempool c) (MaxPayloadSize (cParameters c))
      in (c\<lparr>cMempool := m\<rparr>, NewConsensusBlock (cName c) payloads epoch))"

definition verifyConsensusBlock ::
  "('a consensus_env_scheme) \<Rightarrow> Core \<Rightarrow> ConsensusBlock option \<Rightarrow> (Core \<times> bool) outcome" where
  "verifyConsensusBlock E c block =
     (case block of
        None \<Rightarrow> Panic ''nil pointer dereference''
      | Some b \<Rightarrow>
          let (m, status) = HandleVerifyMsg E (cMempool c) (cbProposer b) (cbEpoch b) (cbPayLoads b)
                              (ConsensusBlock_Hash E b)
          in Ret (c\<lparr>cMempool := m\<rparr>, status = OK))"

definition core_Leader :: "Core \<Rightarrow> int \<Rightarrow> int \<Rightarrow> Core \<times> NodeID" where
  "core_Leader c epoch round =
     (let (el, node) = Leader (cElector c) epoch round in (c\<lparr>cElector := el\<rparr>, node))"

definition core_commit :: "Core \<Rightarrow> ConsensusBlock \<Rightarrow> Core" where
  "core_commit c b = c\<lparr>cCommitor := Committor_Commit (cCommitor c) b\<rparr>"

text \<open>The opening of \<^verbatim>\<open>handleSpbProposal\<close> and \<^verbatim>\<open>handleLoopBack\<close>: a block of a halted epoch's leader.\<close>

definition commit_halted ::
  "('a consensus_env_scheme) \<Rightarrow> Core \<Rightarrow> SPBProposal \<Rightarrow> Core outcome" where
  "commit_halted E c p =
     (if pPhase p = SPB_ONE_PHASE \<and> pEpoch p \<in> HaltFlags c then
        let (c1, leader) = core_Leader c (pEpoch p) (pRound p) in
        if leader = pAuthor p then
          bind_outcome (verifyConsensusBlock E c1 (pB p))
            (\<lambda>(c2, ok). Ret (if ok then core_commit c2 (the (pB p)) else c2))
        else Ret c1
      else Ret c)"

section \<open>Handlers\<close>

definition startProposal :: "Core \<Rightarrow> SPBProposal \<Rightarrow> Core" where
  "startProposal c p =
     (let (c1, _) = getSpbInstance c (pEpoch p) (pRound p) (pAuthor p)
      in core_go c1 (pEpoch p, pRound p, pAuthor p) (PStart p))"

definition handleSpbProposal ::
  "('a consensus_env_scheme) \<Rightarrow> Core \<Rightarrow> SPBProposal \<Rightarrow> (Core \<times> go_error option) outcome" where
  "handleSpbProposal E c p =
     bind_outcome (commit_halted E c p) (\<lambda>c1.
       if messgaeFilter c1 (pEpoch p) then Ret (c1, None)
       else if pPhase p = SPB_ONE_PHASE then
         case pB p of
           None \<Rightarrow> Panic ''nil pointer dereference''
         | Some b \<Rightarrow>
             (case storeConsensusBlock E c1 b of
                (c2, Some e) \<Rightarrow> Ret (c2, Some e)
              | (c2, None) \<Rightarrow>
                  bind_outcome (verifyConsensusBlock E c2 (Some b)) (\<lambda>(c3, ok).
                    if \<not> ok then Ret (c3, None) else Ret (startProposal c3 p, None)))
       else Ret (startProposal c1 p, None))"

definition handleSpbVote :: "Core \<Rightarrow> SPBVote \<Rightarrow> Core" where
  "handleSpbVote c v =
     (if messgaeFilter c (vEpoch v) then c
      else
        let (c1, _) = getSpbInstance c (vEpoch v) (vRound v) (vProposer v)
        in core_go c1 (vEpoch v, vRound v, vProposer v) (VStart v))"

definition invokeDoneAndShare :: "('a consensus_env_scheme) \<Rightarrow> Core \<Rightarrow> int \<Rightarrow> int \<Rightarrow> Core" where
  "invokeDoneAndShare E c epoch round =
     (let (c1, has_done) = hasDone c epoch round in
      if has_done then c1
      else
        let d = MDone (projr (NewDone E (cName c1) epoch round (cSigService c1)));
            share = MElectShare (case NewElectShare E (cName c1) epoch round (cSigService c1) of
                                   Inl _ \<Rightarrow> None | Inr x \<Rightarrow> Some x);
            c2 = core_send (core_send c1 NONE d) NONE share;
            c3 = core_self (core_self c2 d) share
        in c3\<lparr>DoneFlags := put2 (DoneFlags c3) epoch round ()\<rparr>)"

definition handleFinish ::
  "('a consensus_env_scheme) \<Rightarrow> Core \<Rightarrow> Finish \<Rightarrow> Core \<times> go_error option" where
  "handleFinish E c f =
     (if messgaeFilter c (fEpoch f) then (c, None)
      else
        let (a, r) = AddFinishVote (cAggreator c) f; c1 = c\<lparr>cAggreator := a\<rparr> in
        case r of
          Inl e \<Rightarrow> (c1, Some e)
        | Inr flag \<Rightarrow>
            let c2 = c1\<lparr>FinishFlags := put3 (FinishFlags c1) (fEpoch f) (fRound f) (fAuthor f) (fBlockHash f)\<rparr>
            in (if flag then invokeDoneAndShare E c2 (fEpoch f) (fRound f) else c2, None))"

definition processLeader ::
  "('a consensus_env_scheme) \<Rightarrow> Core \<Rightarrow> int \<Rightarrow> int \<Rightarrow> Core outcome" where
  "processLeader E c0 epoch round =
     (let (c, _) = core_Leader c0 epoch round;
          (c1, ready) = hasReady c epoch round in
      if \<not> ready then Ret c1
      else
        let (c2, leader) = core_Leader c1 epoch round in
        if leader = NONE then Ret c2
        else
          let (ok, d) = hasFinish c2 epoch round leader in
          if ok then
            Ret (core_broadcast c2 (MHalt (projr (NewHalt E (cName c2) leader d epoch round (cSigService c2)))))
          else
            let (c3, spb) = getSpbInstance c2 epoch round leader in
            bind_outcome
              (if IsLock spb then
                 case GetBlockHash spb of
                   None \<Rightarrow> Panic ''block hash is nil''
                 | Some blockHash \<Rightarrow>
                     Ret (NewPrevote E (cName c3) leader epoch round VOTE_FLAG_YES blockHash (cSigService c3))
               else Ret (NewPrevote E (cName c3) leader epoch round VOTE_FLAG_NO Digest0 (cSigService c3)))
              (\<lambda>preVote. Ret (core_broadcast c3 (MPrevote (projr preVote)))))"

definition handleDone ::
  "('a consensus_env_scheme) \<Rightarrow> Core \<Rightarrow> Done \<Rightarrow> (Core \<times> go_error option) outcome" where
  "handleDone E c d =
     (if messgaeFilter c (dEpoch d) then Ret (c, None)
      else
        let (a, r) = AddDoneVote (cAggreator c) d; c1 = c\<lparr>cAggreator := a\<rparr> in
        case r of
          Inl e \<Rightarrow> Ret (c1, Some e)
        | Inr flag \<Rightarrow>
            if flag = DONE_LOW_FLAG then Ret (invokeDoneAndShare E c1 (dEpoch d) (dRound d), None)
            else if flag = DONE_HIGH_FLAG then
              bind_outcome
                (processLeader E (c1\<lparr>ReadyFlags := put2 (ReadyFlags c1) (dEpoch d) (dRound d) ()\<rparr>)
                   (dEpoch d) (dRound d))
                (\<lambda>c2. Ret (c2, None))
            else Ret (c1, None))"

definition handleElectShare ::
  "('a consensus_env_scheme) \<Rightarrow> Core \<Rightarrow> ElectShare \<Rightarrow> (Core \<times> go_error option) outcome" where
  "handleElectShare E c share =
     (if messgaeFilter c (eEpoch share) then Ret (c, None)
      else
        bind_outcome (AddShareVote E (cElector c) share) (\<lambda>(el, leader).
          let c1 = c\<lparr>cElector := el\<rparr> in
          if leader \<noteq> NONE then
            bind_outcome (processLeader E c1 (eEpoch share) (eRound share)) (\<lambda>c2. Ret (c2, None))
          else Ret (c1, None)))"

definition handlePrevote ::
  "('a consensus_env_scheme) \<Rightarrow> Core \<Rightarrow> Prevote \<Rightarrow> Core \<times> go_error option" where
  "handlePrevote E c pv =
     (if messgaeFilter c (pvEpoch pv) then (c, None)
      else
        let (a, r) = AddPreVote (cAggreator c) pv; c1 = c\<lparr>cAggreator := a\<rparr> in
        case r of
          Inl e \<Rightarrow> (c1, Some e)
        | Inr flag \<Rightarrow>
            if flag = ACTION_NO then
              (core_broadcast c1 (MFinVote (projr (NewFinVote E (cName c1) (pvLeader pv) (pvEpoch pv)
                 (pvRound pv) VOTE_FLAG_NO (pvBlockHash pv) (cSigService c1)))), None)
            else if flag = ACTION_YES then
              (core_broadcast c1 (MFinVote (projr (NewFinVote E (cName c1) (pvLeader pv) (pvEpoch pv)
                 (pvRound pv) VOTE_FLAG_YES (pvBlockHash pv) (cSigService c1)))), None)
            else (c1, None))"

definition propose ::
  "('a consensus_env_scheme) \<Rightarrow> Core \<Rightarrow> ConsensusBlock \<Rightarrow> int \<Rightarrow> int \<Rightarrow> Core" where
  "propose E c block epoch round =
     core_broadcast c
       (MProposal (projr (NewSPBProposal E (cName c) (Some block) epoch round SPB_ONE_PHASE (cSigService c))))"

definition advanceNextRound ::
  "('a consensus_env_scheme) \<Rightarrow> Core \<Rightarrow> int \<Rightarrow> int \<Rightarrow> int \<Rightarrow> Digest \<Rightarrow> Core \<times> go_error option" where
  "advanceNextRound E c epoch round flag blockHash0 =
     (if messgaeFilter c epoch then (c, None)
      else
        let (c1, blockHash) =
              (if flag = ACTION_NO then
                 let (c1, spb) = getSpbInstance c epoch round (cName c)
                 in (c1, case GetBlockHash spb of Some inte \<Rightarrow> inte | None \<Rightarrow> blockHash0)
               else (c, blockHash0))
        in case getConsensusBlock E c1 blockHash of
             Inl e \<Rightarrow> (c1, Some e)
           | Inr (Some block) \<Rightarrow> (propose E c1 block epoch (i64 (round + 1)), None)
           | Inr None \<Rightarrow>
               let (c2, block) = generatorBlock E c1 epoch
               in (propose E c2 block epoch (i64 (round + 1)), None))"

definition handleFinvote ::
  "('a consensus_env_scheme) \<Rightarrow> Core \<Rightarrow> FinVote \<Rightarrow> Core \<times> go_error option" where
  "handleFinvote E c fv =
     (if messgaeFilter c (fvEpoch fv) then (c, None)
      else
        let (a, r) = AddFinVote (cAggreator c) fv; c1 = c\<lparr>cAggreator := a\<rparr> in
        case r of
          Inl e \<Rightarrow> (c1, Some e)
        | Inr flag \<Rightarrow>
            if flag = ACTION_YES then
              advanceNextRound E c1 (fvEpoch fv) (fvRound fv) flag (fvBlockHash fv)
            else if flag = ACTION_NO then
              advanceNextRound E c1 (fvEpoch fv) (fvRound fv) flag Digest0
            else if flag = ACTION_COMMIT then
              (core_broadcast c1 (MHalt (projr (NewHalt E (cName c1) (fvLeader fv) (fvBlockHash fv)
                 (fvEpoch fv) (fvRound fv) (cSigService c1)))), None)
            else (c1, None))"

definition advanceNextEpoch :: "('a consensus_env_scheme) \<Rightarrow> Core \<Rightarrow> int \<Rightarrow> Core" where
  "advanceNextEpoch E c epoch =
     (if epoch \<le> Epoch c then c
      else
        let (c1, block) = generatorBlock E (c\<lparr>Epoch := epoch\<rparr>) epoch
        in propose E c1 block epoch 0)"

definition handleOutput ::
  "('a consensus_env_scheme) \<Rightarrow> Core \<Rightarrow> int \<Rightarrow> Digest \<Rightarrow> (Core \<times> go_error option) outcome" where
  "handleOutput E c epoch blockHash =
     (case getConsensusBlock E c blockHash of
        Inl e \<Rightarrow> Ret (c, Some e)
      | Inr None \<Rightarrow> Ret (c, None)
      | Inr (Some b) \<Rightarrow>
          bind_outcome (verifyConsensusBlock E c (Some b))
            (\<lambda>(c1, ok). Ret (if ok then core_commit c1 b else c1, None)))"

definition handleHalt ::
  "('a consensus_env_scheme) \<Rightarrow> Core \<Rightarrow> Halt \<Rightarrow> (Core \<times> go_error option) outcome" where
  "handleHalt E c h =
     (if messgaeFilter c (hEpoch h) then Ret (c, None)
      else if hEpoch h \<in> HaltFlags c then Ret (c, None)
      else
        let c1 = c\<lparr>cElector := SetLeader (cElector c) (hEpoch h) (hRound h) (hLeader h)\<rparr> in
        bind_outcome (handleOutput E c1 (hEpoch h) (hBlockHash h)) (\<lambda>(c2, r).
          case r of
            Some e \<Rightarrow> Ret (c2, Some e)
          | None \<Rightarrow>
              Ret (advanceNextEpoch E (c2\<lparr>HaltFlags := insert (hEpoch h) (HaltFlags c2)\<rparr>)
                     (i64 (hEpoch h + 1)), None)))"

definition handleLoopBack ::
  "('a consensus_env_scheme) \<Rightarrow> Core \<Rightarrow> Digest \<Rightarrow> (Core \<times> go_error option) outcome" where
  "handleLoopBack E c blockhash =
     (case getConsensusBlock E c blockhash of
        Inl e \<Rightarrow> Ret (c, Some e)
      | Inr None \<Rightarrow> Panic ''nil pointer dereference''
      | Inr (Some block) \<Rightarrow>
          let proposal = projr (NewSPBProposal E (cbProposer block) (Some block) (cbEpoch block) 0
                                  SPB_ONE_PHASE (cSigService c)) in
          bind_outcome (commit_halted E c proposal) (\<lambda>c1.
            Ret (if Epoch c1 \<le> cbEpoch block then startProposal c1 proposal else c1, None)))"

text \<open>Both calls of the mempool are requests on the connect channel.\<close>

lemma generatorBlock_connects:
  "Mempool_connect E (cMempool c) (MakeConsensusBlockMsg (MaxPayloadSize (cParameters c))) = (m, MadeBlocks ds, r) \<longleftrightarrow>
    generatorBlock E c epoch = (c\<lparr>cMempool := m\<rparr>, NewConsensusBlock (cName c) ds epoch) \<and>
    r = snd (snd (HandleMakeBlockMsg E (cMempool c) (MaxPayloadSize (cParameters c))))"
  by (cases c) (auto simp: Mempool_connect_def generatorBlock_def NewConsensusBlock_def case_prod_beta Let_def)

lemma verifyConsensusBlock_connects:
  "Mempool_connect E (cMempool c) (VerifyBlockMsg (cbProposer b) (cbEpoch b) (cbPayLoads b) (ConsensusBlock_Hash E b)) =
      (m, Verified status, r) \<Longrightarrow>
    verifyConsensusBlock E c (Some b) = Ret (c\<lparr>cMempool := m\<rparr>, status = OK)"
  by (auto simp: Mempool_connect_def verifyConsensusBlock_def case_prod_beta Let_def)

section \<open>The main loop\<close>

text \<open>The start of \<^verbatim>\<open>Run\<close>: a node configured as faulty takes no part.\<close>

definition Core_start :: "('a consensus_env_scheme) \<Rightarrow> Core \<Rightarrow> Core" where
  "Core_start E c =
     (if cName c < Faults (cParameters c) then c
      else
        let (c1, block) = generatorBlock E c (Epoch c)
        in propose E c1 block (Epoch c) 0)"

text \<open>The case of a received message: check its signature, then dispatch on its type.\<close>

definition Core_dispatch ::
  "('a consensus_env_scheme) \<Rightarrow> Core \<Rightarrow> message \<Rightarrow> (Core \<times> go_error option) outcome" where
  "Core_dispatch E c msg =
     bind_outcome (message_Verify E (cCommittee c) msg) (\<lambda>valid.
       if \<not> valid then Ret (c, Some (ErrSignature (MsgType msg)))
       else case msg of
              MProposal p \<Rightarrow> handleSpbProposal E c p
            | MVote v \<Rightarrow> Ret (handleSpbVote c v, None)
            | MFinish f \<Rightarrow> Ret (handleFinish E c f)
            | MDone d \<Rightarrow> handleDone E c d
            | MElectShare (Some share) \<Rightarrow> handleElectShare E c share
            | MElectShare None \<Rightarrow> Panic ''nil pointer dereference''
            | MPrevote pv \<Rightarrow> Ret (handlePrevote E c pv)
            | MFinVote fv \<Rightarrow> Ret (handleFinvote E c fv)
            | MHalt h \<Rightarrow> handleHalt E c h)"

text \<open>A goroutine's outputs, and one step of the goroutine at position \<open>i\<close>.\<close>

definition core_out :: "Core \<Rightarrow> spb_out \<Rightarrow> Core" where
  "core_out c out = (case out of SendTo to m \<Rightarrow> core_send c to m | ToSelf m \<Rightarrow> core_self c m)"

definition core_task :: "('a consensus_env_scheme) \<Rightarrow> Core \<Rightarrow> nat \<Rightarrow> Core outcome" where
  "core_task E c i =
     (case Tasks c ! i of
        ((epoch, round, node), pc) \<Rightarrow>
          let (c1, s) = getSpbInstance c epoch round node in
          bind_outcome (spb_step E (cName c1) (cCommittee c1) (cSigService c1) s pc)
            (\<lambda>(s', outs, new).
               Ret (foldl core_out
                      (c1\<lparr>SPbInstances := put3 (SPbInstances c1) epoch round node s',
                          Tasks := take i (Tasks c1) @ drop (Suc i) (Tasks c1)
                                   @ map (Pair (epoch, round, node)) new\<rparr>)
                      outs)))"

section \<open>Blocks and payloads\<close>

interpretation cb: block_store "Store_Read E" "Store_Write E" "store_inv E"
    "ConsensusBlock_Hash E" "ConsensusBlock_Encode E" "ConsensusBlock_Decode E" "gob_CB_ok E" for E
  by unfold_locales (simp add: gob_CB_ok_def ConsensusBlock_Encode_def ConsensusBlock_Decode_def)

lemma getConsensusBlock_stored:
  assumes "store_inv E (mStore (cMempool c))" and "gob_CB_ok E" and "storeConsensusBlock E c b = (c', None)"
  shows "getConsensusBlock E c' (ConsensusBlock_Hash E b) = Inr (Some b)"
proof -
  from assms(3) obtain v st where "ConsensusBlock_Encode E b = Inr v"
    "Store_Write E (mStore (cMempool c)) (ConsensusBlock_Hash E b) v = (st, None)" "mStore (cMempool c') = st"
    by (auto simp: storeConsensusBlock_def Let_def split: sum.splits prod.splits)
  with cb.load_stored [OF assms(1,2) this(1,2)] show ?thesis by (auto simp: getConsensusBlock_def)
qed

lemma generated_verifies:
  assumes "mempool_inv E (cMempool c)" and "map_order_ok E" and "generatorBlock E c epoch = (c', b)"
  shows "\<exists>c''. verifyConsensusBlock E c' (Some b) = Ret (c'', True)"
proof -
  obtain m ds r where m: "HandleMakeBlockMsg E (cMempool c) (MaxPayloadSize (cParameters c)) = (m, ds, r)"
    using prod_cases3 by blast
  with assms(3) have "cMempool c' = m" "cbPayLoads b = ds"
    by (auto simp: generatorBlock_def NewConsensusBlock_def)
  with ps.made_checks [OF _ m] assms(1,2) show ?thesis
    by (simp add: verifyConsensusBlock_def case_prod_beta)
qed

text \<open>What leaves epoch, commits and halts alone.\<close>

lemma generatorBlock_same [simp]:
  "Epoch (fst (generatorBlock E c e)) = Epoch c" "HaltFlags (fst (generatorBlock E c e)) = HaltFlags c"
  "cCommitor (fst (generatorBlock E c e)) = cCommitor c"
  by (simp_all add: generatorBlock_def case_prod_beta)

lemma propose_same [simp]:
  "Epoch (propose E c b e r) = Epoch c" "HaltFlags (propose E c b e r) = HaltFlags c"
  "cCommitor (propose E c b e r) = cCommitor c"
  by (simp_all add: propose_def core_broadcast_def core_send_def core_self_def)

lemma advanceNextEpoch_same [simp]:
  "Epoch (advanceNextEpoch E c e) = max e (Epoch c)" "HaltFlags (advanceNextEpoch E c e) = HaltFlags c"
  "cCommitor (advanceNextEpoch E c e) = cCommitor c"
  by (simp_all add: advanceNextEpoch_def case_prod_beta Let_def)

lemma halt_effect:
  assumes "Epoch c \<le> hEpoch h" and "hEpoch h \<notin> HaltFlags c"
    and "getConsensusBlock E c (hBlockHash h) = Inr (Some b)"
    and "\<forall>d \<in> set (cbPayLoads b). readable E (mStore (cMempool c)) d"
  shows "\<exists>c'. handleHalt E c h = Ret (c', None) \<and> Epoch c' = max (i64 (hEpoch h + 1)) (Epoch c) \<and>
    HaltFlags c' = insert (hEpoch h) (HaltFlags c) \<and> cCommitor c' = Committor_Commit (cCommitor c) b"
proof -
  let ?c1 = "c\<lparr>cElector := SetLeader (cElector c) (hEpoch h) (hRound h) (hLeader h)\<rparr>"
  have "getConsensusBlock E ?c1 (hBlockHash h) = Inr (Some b)" using assms(3) by (simp add: getConsensusBlock_def)
  moreover obtain m where "HandleVerifyMsg E (cMempool c) (cbProposer b) (cbEpoch b) (cbPayLoads b)
      (ConsensusBlock_Hash E b) = (m, OK)"
    using ps.check_ok [of E "cMempool c" "cbProposer b" "cbEpoch b" "cbPayLoads b"] assms(4) by (metis prod.collapse)
  ultimately show ?thesis
    using assms(1,2)
    by (simp add: handleHalt_def messgaeFilter_def handleOutput_def verifyConsensusBlock_def core_commit_def)
qed

text \<open>A first-phase proposal that is stored, with its payloads in the store, starts its instance.\<close>

lemma proposal_effect:
  assumes "message_Verify E (cCommittee c) (MProposal p) = Ret True" and "pPhase p = SPB_ONE_PHASE"
    and "pB p = Some b" and "pEpoch p \<notin> HaltFlags c" and "Epoch c \<le> pEpoch p"
    and "storeConsensusBlock E c b = (c1, None)"
    and "\<forall>d \<in> set (cbPayLoads b). readable E (mStore (cMempool c1)) d"
  shows "\<exists>s. Core_dispatch E c (MProposal p) =
    Ret (startProposal (c1\<lparr>cMempool := (cMempool c1)\<lparr>mSync := s\<rparr>\<rparr>) p, None)"
proof -
  obtain m where m: "HandleVerifyMsg E (cMempool c1) (cbProposer b) (cbEpoch b) (cbPayLoads b)
      (ConsensusBlock_Hash E b) = (m, OK)"
    using ps.check_ok [of E "cMempool c1" "cbProposer b" "cbEpoch b" "cbPayLoads b"] assms(7) by (metis prod.collapse)
  then obtain s where "m = (cMempool c1)\<lparr>mSync := s\<rparr>" by (auto simp: HandleVerifyMsg_def split: prod.splits)
  with m assms(1-6) show ?thesis
    by (auto simp: Core_dispatch_def handleSpbProposal_def commit_halted_def messgaeFilter_def
        verifyConsensusBlock_def simp del: message_Verify.simps)
qed

lemma storeConsensusBlock_same:
  "storeConsensusBlock E c b = (c', r) \<Longrightarrow> \<exists>st. c' = c\<lparr>cMempool := (cMempool c)\<lparr>mStore := st\<rparr>\<rparr>"
  by (auto simp: storeConsensusBlock_def Let_def intro: exI [of _ "mStore (cMempool c)"] split: sum.splits prod.splits)

text \<open>Messages of a past epoch, proposals apart, change nothing.\<close>

fun message_epoch :: "message \<Rightarrow> int" where
  "message_epoch (MProposal p) = pEpoch p"
| "message_epoch (MVote v) = vEpoch v"
| "message_epoch (MFinish f) = fEpoch f"
| "message_epoch (MDone d) = dEpoch d"
| "message_epoch (MElectShare s) = (case s of None \<Rightarrow> 0 | Some e \<Rightarrow> eEpoch e)"
| "message_epoch (MPrevote p) = pvEpoch p"
| "message_epoch (MFinVote f) = fvEpoch f"
| "message_epoch (MHalt h) = hEpoch h"

lemma dispatch_filtered:
  assumes "messgaeFilter c (message_epoch m)" and "\<forall>p. m \<noteq> MProposal p" and "Core_dispatch E c m = Ret (c', x)"
  shows "c' = c"
  using assms
  by (cases m) (auto simp: Core_dispatch_def handleSpbVote_def handleFinish_def handleDone_def handleElectShare_def
      handlePrevote_def handleFinvote_def handleHalt_def split: if_splits option.splits)

end
