(* ===== verification/Node.thy ===== *)
theory Node
  imports Core
begin

text \<open>
  A running consensus node in an arbitrary environment. \<open>core_step\<close> interleaves the main loop of
  the core with the goroutines on broadcast instances, the mempool, the synchronizer and the
  transaction queue; any message may arrive on the receive channel and on the mempool channel.

  The locale \<open>core_invariant\<close> proves once that a predicate closed under the elementary effects of
  the handlers is kept by every step; each invariant of the node is an interpretation.
\<close>

section \<open>Steps\<close>

definition pop_loopback :: "Core \<Rightarrow> Digest list \<Rightarrow> Core" where
  "pop_loopback c ds =
     c\<lparr>cMempool := (cMempool c)\<lparr>mSync := (mSync (cMempool c))\<lparr>LoopBackChan := ds\<rparr>\<rparr>\<rparr>"

text \<open>The work of the node apart from the messages its main loop takes.\<close>

inductive core_work :: "('a consensus_env_scheme) \<Rightarrow> Core \<Rightarrow> Core \<Rightarrow> bool"
  for E :: "'a consensus_env_scheme" where
  goroutine: "i < length (Tasks c) \<Longrightarrow> core_task E c i = Ret c' \<Longrightarrow> core_work E c c'"
| loopback: "LoopBackChan (mSync (cMempool c)) = d # ds \<Longrightarrow>
    handleLoopBack E (pop_loopback c ds) d = Ret (c', r) \<Longrightarrow> core_work E c c'"
| mempool: "Mempool_dispatch E (cMempool c) msg = Ret (m, r) \<Longrightarrow> core_work E c (c\<lparr>cMempool := m\<rparr>)"
| batch: "core_work E c (c\<lparr>cMempool := generateBlock E (cMempool c)\<rparr>)"
| transaction: "txQueue_run_step (txqueue (mTxPool (cMempool c))) tx = Ret q \<Longrightarrow>
    core_work E c (c\<lparr>cMempool := (cMempool c)\<lparr>mTxPool := (mTxPool (cMempool c))\<lparr>txqueue := q\<rparr>\<rparr>\<rparr>)"
| synchronizer: "sync_step E (mStore (cMempool c), mSync (cMempool c)) (st, s) \<Longrightarrow>
    core_work E c (c\<lparr>cMempool := (cMempool c)\<lparr>mStore := st, mSync := s\<rparr>\<rparr>)"

text \<open>Everything but the receipt of a message by the main loop: any message may come in.\<close>

inductive core_local :: "('a consensus_env_scheme) \<Rightarrow> Core \<Rightarrow> Core \<Rightarrow> bool"
  for E :: "'a consensus_env_scheme" where
  network: "core_local E c (core_self c m)"
| work: "core_work E c c' \<Longrightarrow> core_local E c c'"

inductive core_step :: "('a consensus_env_scheme) \<Rightarrow> Core \<Rightarrow> Core \<Rightarrow> bool"
  for E :: "'a consensus_env_scheme" where
  receive: "RecvCh c = m # ms \<Longrightarrow> Core_dispatch E (c\<lparr>RecvCh := ms\<rparr>) m = Ret (c', r) \<Longrightarrow> core_step E c c'"
| internal: "core_local E c c' \<Longrightarrow> core_step E c c'"

text \<open>A node started as \<open>name\<close>, and the states it can reach.\<close>

abbreviation core_init ::
  "('a consensus_env_scheme) \<Rightarrow> NodeID \<Rightarrow> Committee \<Rightarrow> Parameters \<Rightarrow> SigService \<Rightarrow> Store \<Rightarrow> PoolState \<Rightarrow> Core" where
  "core_init E name cm ps sg st txs \<equiv> Core_start E (NewCore name cm ps sg (NewMempool name cm ps sg st txs))"

definition core_reachable ::
  "('a consensus_env_scheme) \<Rightarrow> NodeID \<Rightarrow> Committee \<Rightarrow> Parameters \<Rightarrow> SigService \<Rightarrow> Store \<Rightarrow> PoolState
   \<Rightarrow> Core \<Rightarrow> bool" where
  "core_reachable E name cm ps sg st txs c \<longleftrightarrow>
     (core_step E)\<^sup>*\<^sup>* (core_init E name cm ps sg st txs) c"

section \<open>Messages of the node itself\<close>

abbreviation messages :: "Core \<Rightarrow> message list" where
  "messages c \<equiv> map Msg (Sent c)"

lemma messages_send [simp]: "messages (core_send c to m) = messages c @ [m]"
  by (simp add: core_send_def Transmitor_Send_def)

text \<open>What the goroutines on broadcast instances put on the node's own channel.\<close>

fun instance_message :: "message \<Rightarrow> bool" where
  "instance_message (MProposal p) \<longleftrightarrow> pPhase p \<noteq> SPB_ONE_PHASE"
| "instance_message (MVote _) \<longleftrightarrow> True"
| "instance_message (MFinish _) \<longleftrightarrow> True"
| "instance_message _ \<longleftrightarrow> False"

definition own :: "('a consensus_env_scheme) \<Rightarrow> Core \<Rightarrow> message \<Rightarrow> bool" where
  "own E c m \<longleftrightarrow> authentic E (cSigService c) m \<and> (m \<noteq> MElectShare None \<longrightarrow> message_author m = cName c)"

text \<open>Messages that no once-only rule applies to.\<close>

fun plain :: "message \<Rightarrow> bool" where
  "plain (MProposal p) \<longleftrightarrow> pPhase p \<noteq> SPB_ONE_PHASE"
| "plain (MDone _) \<longleftrightarrow> False"
| "plain (MElectShare _) \<longleftrightarrow> False"
| "plain (MFinVote _) \<longleftrightarrow> False"
| "plain _ \<longleftrightarrow> True"

lemma own_New [simp]:
  "own E c (MProposal (projr (NewSPBProposal E (cName c) b e r ph (cSigService c))))"
  "own E c (MVote (projr (NewSPBVote E (cName c) q d e r ph (cSigService c))))"
  "own E c (MFinish (projr (NewFinish E (cName c) d e r (cSigService c))))"
  "own E c (MDone (projr (NewDone E (cName c) e r (cSigService c))))"
  "own E c (MPrevote (projr (NewPrevote E (cName c) l e r fl d (cSigService c))))"
  "own E c (MFinVote (projr (NewFinVote E (cName c) l e r fl d (cSigService c))))"
  "own E c (MHalt (projr (NewHalt E (cName c) l d e r (cSigService c))))"
  by (simp_all add: own_def)

lemma core_send_same [simp]:
  "cName (core_send c to m) = cName c" "cSigService (core_send c to m) = cSigService c"
  "cCommittee (core_send c to m) = cCommittee c" "own E (core_send c to m) = own E c"
  by (simp_all add: core_send_def own_def fun_eq_iff)

lemma core_self_same [simp]:
  "cName (core_self c m) = cName c" "cSigService (core_self c m) = cSigService c"
  "cCommittee (core_self c m) = cCommittee c" "own E (core_self c m) = own E c"
  by (simp_all add: core_self_def own_def fun_eq_iff)

lemma getSpbInstance_same [simp]:
  "cName (fst (getSpbInstance c e r n)) = cName c"
  "cSigService (fst (getSpbInstance c e r n)) = cSigService c"
  "cCommittee (fst (getSpbInstance c e r n)) = cCommittee c"
  "Tasks (fst (getSpbInstance c e r n)) = Tasks c"
  "cMempool (fst (getSpbInstance c e r n)) = cMempool c"
  "Epoch (fst (getSpbInstance c e r n)) = Epoch c"
  by (simp_all add: getSpbInstance_def Let_def split: option.split)

lemma own_getSpbInstance [simp]: "own E (fst (getSpbInstance c e r n)) = own E c"
  by (simp add: own_def fun_eq_iff)

text \<open>What a goroutine puts out.\<close>

definition out_ok :: "('a consensus_env_scheme) \<Rightarrow> Core \<Rightarrow> spb_out \<Rightarrow> bool" where
  "out_ok E c out \<longleftrightarrow> (case out of SendTo to m \<Rightarrow> plain m \<and> own E c m | ToSelf m \<Rightarrow> instance_message m)"

lemma New_sum_case [simp]:
  "(case NewSPBVote E a q d e r ph sg of Inl x \<Rightarrow> f x | Inr y \<Rightarrow> g y) = g (projr (NewSPBVote E a q d e r ph sg))"
  "(case NewSPBProposal E a b e r ph sg of Inl x \<Rightarrow> f x | Inr y \<Rightarrow> h y) = h (projr (NewSPBProposal E a b e r ph sg))"
  "(case NewFinish E a d e r sg of Inl x \<Rightarrow> f x | Inr y \<Rightarrow> k y) = k (projr (NewFinish E a d e r sg))"
  by (subst New_Inr, simp)+

lemma spb_step_out_ok:
  assumes "spb_step E (cName c) cm (cSigService c) s pc = Ret (s', outs, new)" and "out \<in> set outs"
  shows "out_ok E c out"
  using assms
  by (cases pc) (auto simp: out_ok_def vote_out_def threshold_out_def Let_def split: if_splits option.splits)

lemma verifyConsensusBlock_Epoch: "verifyConsensusBlock E c b = Ret (c', ok) \<Longrightarrow> Epoch c' = Epoch c"
  by (auto simp: verifyConsensusBlock_def Let_def split: option.splits prod.splits)

lemma handleOutput_Epoch: "handleOutput E c e d = Ret (c', x) \<Longrightarrow> Epoch c' = Epoch c"
  by (auto simp: handleOutput_def core_commit_def dest!: verifyConsensusBlock_Epoch
      split: sum.splits option.splits if_splits)

lemma verifyConsensusBlock_payloads:
  assumes "verifyConsensusBlock E c (Some b) = Ret (c', True)"
  shows "\<forall>d \<in> set (cbPayLoads b). readable E (mStore (cMempool c')) d"
  using assms ps.check_ok [of E "cMempool c" "cbProposer b" "cbEpoch b" "cbPayLoads b" "ConsensusBlock_Hash E b"]
    ps.check_keeps [of E "cMempool c" "cbProposer b" "cbEpoch b" "cbPayLoads b" "ConsensusBlock_Hash E b"]
  by (auto simp: verifyConsensusBlock_def Let_def split: prod.splits)

section \<open>Invariants of the node\<close>

text \<open>
  \<open>core_frame\<close> has the effects that leave vote counters and flags alone, with the handlers and
  steps made of them; \<open>core_keeps\<close> adds the handlers of the counted messages as a whole, and
  \<open>core_closed\<close> any receive channel. \<open>core_reduced\<close> and \<open>core_invariant\<close> are their
  counterparts with these handlers reduced to elementary effects as well. A node puts on its own
  channel what it has sent to the others or what its broadcast instances are about; a block is
  committed with its payloads in the store, and the store only grows.
  \<open>fresh e r\<close> is what entitles the node to a first-phase proposal for round \<open>r\<close> of epoch \<open>e\<close>.
\<close>

locale core_frame =
  fixes E :: "'a consensus_env_scheme"
    and I :: "Core \<Rightarrow> bool"
    and fresh :: "int \<Rightarrow> int \<Rightarrow> Core \<Rightarrow> bool"
  assumes self: "I c \<Longrightarrow> m \<in> set (messages c) \<or> instance_message m \<Longrightarrow> I (core_self c m)"
    and elector: "I c \<Longrightarrow> same_keys (cElector c) el \<Longrightarrow> I (c\<lparr>cElector := el\<rparr>)"
    and init_ready: "I c \<Longrightarrow> I (c\<lparr>ReadyFlags := init2 (ReadyFlags c) e\<rparr>)"
    and pool: "I c \<Longrightarrow> mempool_grows E (cMempool c) mp \<Longrightarrow> I (c\<lparr>cMempool := mp\<rparr>)"
    and commit: "I c \<Longrightarrow> \<forall>d \<in> set (cbPayLoads b). readable E (mStore (cMempool c)) d \<Longrightarrow> I (core_commit c b)"
    and inst: "I c \<Longrightarrow> I (fst (getSpbInstance c e r n))"
    and spawn: "I c \<Longrightarrow> is_call pc \<Longrightarrow> I (core_go c k pc)"
    and send: "I c \<Longrightarrow> plain m \<Longrightarrow> own E c m \<Longrightarrow> I (core_send c to m)"
    and halted: "I c \<Longrightarrow> Epoch c \<le> e \<Longrightarrow> i64 (e + 1) \<le> Epoch c \<Longrightarrow>
        I (c\<lparr>HaltFlags := insert e (HaltFlags c)\<rparr>)"
    and next_epoch: "I c \<Longrightarrow> Epoch c \<le> e \<Longrightarrow> Epoch c < i64 (e + 1) \<Longrightarrow>
        I (c\<lparr>HaltFlags := insert e (HaltFlags c), Epoch := i64 (e + 1)\<rparr>) \<and>
        fresh (i64 (e + 1)) 0 (c\<lparr>HaltFlags := insert e (HaltFlags c), Epoch := i64 (e + 1)\<rparr>)"
    and fresh_pool: "fresh e r c \<Longrightarrow> fresh e r (c\<lparr>cMempool := mp\<rparr>)"
    and fresh_inst: "fresh e r c \<Longrightarrow> fresh e r (fst (getSpbInstance c e' r' n))"
    and proposal: "I c \<Longrightarrow> fresh e r c \<Longrightarrow>
        I (core_send c NONE (MProposal (projr (NewSPBProposal E (cName c) (Some b) e r SPB_ONE_PHASE (cSigService c)))))"
    and task: "I c \<Longrightarrow> get3 (SPbInstances c) e r n = Some s \<Longrightarrow> i < length (Tasks c) \<Longrightarrow>
        Tasks c ! i = ((e, r, n), pc) \<Longrightarrow>
        spb_step E (cName c) (cCommittee c) (cSigService c) s pc = Ret (s', outs, new) \<Longrightarrow>
        I (c\<lparr>SPbInstances := put3 (SPbInstances c) e r n s',
             Tasks := take i (Tasks c) @ drop (Suc i) (Tasks c) @ map (Pair (e, r, n)) new\<rparr>)"
begin

lemma broadcast: "I c \<Longrightarrow> plain m \<Longrightarrow> own E c m \<Longrightarrow> I (core_broadcast c m)"
  using self [of "core_send c NONE m" m] by (simp add: core_broadcast_def send)

lemma proposes: "I c \<Longrightarrow> fresh e r c \<Longrightarrow> I (propose E c b e r)"
  by (simp add: propose_def core_broadcast_def self proposal)

lemma leader: "I c \<Longrightarrow> I (fst (core_Leader c e r))"
  using elector [OF _ Leader_keys] by (simp add: core_Leader_def case_prod_beta)

lemma generates: "I c \<Longrightarrow> I (fst (generatorBlock E c e))"
  using HandleMakeBlockMsg_grows [of E "cMempool c" "MaxPayloadSize (cParameters c)"]
  by (auto simp: generatorBlock_def intro: pool split: prod.splits)

lemma fresh_generates: "fresh e r c \<Longrightarrow> fresh e r (fst (generatorBlock E c e'))"
  by (simp add: generatorBlock_def fresh_pool split: prod.split)

lemma verifies: "I c \<Longrightarrow> verifyConsensusBlock E c b = Ret (c', ok) \<Longrightarrow> I c'"
  by (auto simp: verifyConsensusBlock_def HandleVerifyMsg_def Let_def intro: pool
      split: option.splits prod.splits)

lemma stores: "I c \<Longrightarrow> I (fst (storeConsensusBlock E c b))"
  using mempool_grows_Write [of E "cMempool c"]
  by (auto simp: storeConsensusBlock_def case_prod_beta Let_def intro: pool split: sum.split)

text \<open>The two places where a block is committed check it first.\<close>

lemma commits_checked:
  assumes "I c" and "verifyConsensusBlock E c b = Ret (c', True)"
  shows "I (core_commit c' (the b))"
proof (cases b)
  case None
  with assms(2) show ?thesis by (simp add: verifyConsensusBlock_def)
next
  case (Some blk)
  with assms commit [OF verifies [OF assms] verifyConsensusBlock_payloads] show ?thesis by simp
qed

lemma commits_halted: "I c \<Longrightarrow> commit_halted E c p = Ret c' \<Longrightarrow> I c'"
  using leader [of c "pEpoch p" "pRound p"]
  by (auto simp: commit_halted_def Let_def intro: commits_checked verifies split: if_splits prod.splits)

lemma starts: "I c \<Longrightarrow> I (startProposal c p)"
  using inst [of c "pEpoch p" "pRound p" "pAuthor p"]
  by (simp add: startProposal_def spawn case_prod_beta Let_def)

lemma handles_proposal: "I c \<Longrightarrow> handleSpbProposal E c p = Ret (c', x) \<Longrightarrow> I c'"
proof -
  assume I: "I c" and h: "handleSpbProposal E c p = Ret (c', x)"
  from h obtain c1 where c1: "commit_halted E c p = Ret c1" by (auto simp: handleSpbProposal_def)
  then have I1: "I c1" by (rule commits_halted [OF I])
  show "I c'"
  proof (cases "pB p")
    case None
    with h c1 I1 starts show ?thesis by (auto simp: handleSpbProposal_def split: if_splits)
  next
    case (Some b)
    obtain c2 y where s: "storeConsensusBlock E c1 b = (c2, y)" by fastforce
    have I2: "I c2" using stores [OF I1, of b] s by simp
    from h c1 Some s I1 I2 starts verifies [OF I2] show ?thesis
      by (auto simp: handleSpbProposal_def split: if_splits option.splits)
  qed
qed

lemma handles_vote: "I c \<Longrightarrow> I (handleSpbVote c v)"
  using inst [of c "vEpoch v" "vRound v" "vProposer v"]
  by (simp add: handleSpbVote_def spawn case_prod_beta Let_def)

lemma advances_round:
  "I c \<Longrightarrow> fresh e (i64 (r + 1)) c \<Longrightarrow> I (fst (advanceNextRound E c e r f h))"
proof -
  assume I: "I c" and fr: "fresh e (i64 (r + 1)) c"
  let ?c1 = "if f = ACTION_NO then fst (getSpbInstance c e r (cName c)) else c"
  have 1: "I ?c1" "fresh e (i64 (r + 1)) ?c1" using I fr inst fresh_inst by auto
  have 2: "I (fst (generatorBlock E ?c1 e))" "fresh e (i64 (r + 1)) (fst (generatorBlock E ?c1 e))"
    using 1 generates fresh_generates by auto
  from I 1 proposes [OF 1] proposes [OF 2] show ?thesis
    by (auto simp: advanceNextRound_def case_prod_beta Let_def split: sum.split option.split)
qed

lemma outputs: "I c \<Longrightarrow> handleOutput E c e d = Ret (c', x) \<Longrightarrow> I c'"
proof -
  assume I: "I c" and h: "handleOutput E c e d = Ret (c', x)"
  show "I c'"
  proof (cases "\<exists>b. getConsensusBlock E c d = Inr (Some b)")
    case True
    with h obtain b c1 ok where v: "verifyConsensusBlock E c (Some b) = Ret (c1, ok)"
      and c': "c' = (if ok then core_commit c1 b else c1)" by (auto simp: handleOutput_def)
    show ?thesis using verifies [OF I v] commits_checked [OF I, of "Some b" c1] v c' by (cases ok) simp_all
  next
    case False
    with h I show ?thesis by (auto simp: handleOutput_def split: sum.splits option.splits)
  qed
qed

lemma advances_epoch:
  assumes "I c" and "Epoch c \<le> e"
  shows "I (advanceNextEpoch E (c\<lparr>HaltFlags := insert e (HaltFlags c)\<rparr>) (i64 (e + 1)))"
proof (cases "i64 (e + 1) \<le> Epoch c")
  case True
  then show ?thesis using halted [OF assms True] by (simp add: advanceNextEpoch_def)
next
  case False
  then have "Epoch c < i64 (e + 1)" by simp
  from next_epoch [OF assms this] False show ?thesis
    by (auto simp: advanceNextEpoch_def case_prod_beta Let_def intro!: proposes generates fresh_generates)
qed

lemma handles_halt: "I c \<Longrightarrow> handleHalt E c h = Ret (c', x) \<Longrightarrow> I c'"
proof -
  assume I: "I c" and h: "handleHalt E c h = Ret (c', x)"
  let ?c1 = "c\<lparr>cElector := SetLeader (cElector c) (hEpoch h) (hRound h) (hLeader h)\<rparr>"
  show "I c'"
  proof (cases "messgaeFilter c (hEpoch h) \<or> hEpoch h \<in> HaltFlags c")
    case True
    with I h show ?thesis by (auto simp: handleHalt_def split: if_splits)
  next
    case False
    with h obtain c2 y where o: "handleOutput E ?c1 (hEpoch h) (hBlockHash h) = Ret (c2, y)"
      by (auto simp: handleHalt_def)
    have I2: "I c2" by (rule outputs [OF elector [OF I SetLeader_keys] o])
    have "Epoch c2 = Epoch c" using handleOutput_Epoch [OF o] by simp
    with False have le: "Epoch c2 \<le> hEpoch h" by (simp add: messgaeFilter_def)
    from h False o I2 advances_epoch [OF I2 le] show ?thesis
      by (auto simp: handleHalt_def split: option.splits)
  qed
qed

lemma handles_loopback: "I c \<Longrightarrow> handleLoopBack E c d = Ret (c', x) \<Longrightarrow> I c'"
proof -
  assume I: "I c" and h: "handleLoopBack E c d = Ret (c', x)"
  from h I commits_halted [OF I] show "I c'"
    by (auto simp: handleLoopBack_def Let_def intro!: starts split: sum.splits option.splits)
qed

lemma puts_out:
  assumes "I c" and "\<forall>out \<in> set outs. out_ok E c out"
  shows "I (foldl core_out c outs)"
  using assms
proof (induction outs arbitrary: c)
  case (Cons out outs)
  have "I (core_out c out)"
    using Cons.prems by (cases out) (auto simp: core_out_def out_ok_def self send)
  moreover have "out_ok E (core_out c out) = out_ok E c"
    by (cases out) (simp_all add: core_out_def out_ok_def fun_eq_iff split: spb_out.split)
  ultimately show ?case using Cons by simp
qed simp

lemma runs_task: "I c \<Longrightarrow> i < length (Tasks c) \<Longrightarrow> core_task E c i = Ret c' \<Longrightarrow> I c'"
proof -
  assume I: "I c" and i: "i < length (Tasks c)" and h: "core_task E c i = Ret c'"
  obtain e r n pc where t: "Tasks c ! i = ((e, r, n), pc)" by (cases "Tasks c ! i") auto
  obtain c1 s where c1: "getSpbInstance c e r n = (c1, s)" by fastforce
  then have s: "get3 (SPbInstances c1) e r n = Some s" and same: "Tasks c1 = Tasks c"
    by (auto simp: getSpbInstance_def Let_def split: option.splits)
  from h t c1 obtain s' outs new where
    st: "spb_step E (cName c1) (cCommittee c1) (cSigService c1) s pc = Ret (s', outs, new)" and
    c': "c' = foldl core_out (c1\<lparr>SPbInstances := put3 (SPbInstances c1) e r n s',
           Tasks := take i (Tasks c1) @ drop (Suc i) (Tasks c1) @ map (Pair (e, r, n)) new\<rparr>) outs"
    by (auto simp: core_task_def)
  have "I c1" using inst [OF I, of e r n] c1 by simp
  from task [OF this s _ _ st, of i] i t same
  have "I (c1\<lparr>SPbInstances := put3 (SPbInstances c1) e r n s',
           Tasks := take i (Tasks c1) @ drop (Suc i) (Tasks c1) @ map (Pair (e, r, n)) new\<rparr>)" by simp
  moreover have "out_ok E (c1\<lparr>SPbInstances := x, Tasks := y\<rparr>) = out_ok E c1" for x y
    by (simp add: out_ok_def own_def fun_eq_iff split: spb_out.split)
  ultimately show "I c'" unfolding c' using spb_step_out_ok [OF st] by (intro puts_out) simp_all
qed

lemma processes_leader: "I c \<Longrightarrow> processLeader E c e r = Ret c' \<Longrightarrow> I c'"
proof -
  assume I: "I c" and h: "processLeader E c e r = Ret c'"
  let ?c1 = "fst (core_Leader c e r)"
  let ?c2 = "fst (hasReady ?c1 e r)"
  let ?c3 = "fst (core_Leader ?c2 e r)" and ?l = "snd (core_Leader ?c2 e r)"
  let ?c4 = "fst (getSpbInstance ?c3 e r ?l)"
  have I2: "I ?c2" using leader [OF I, of e r] by (simp add: hasReady_def init_ready)
  have I3: "I ?c3" by (rule leader [OF I2])
  have I4: "I ?c4" by (rule inst [OF I3])
  from h I2 I3 show "I c'"
    by (auto simp: processLeader_def case_prod_beta Let_def
        intro!: broadcast [OF I3] broadcast [OF I4] split: if_splits option.splits)
qed

lemma handles_share: "I c \<Longrightarrow> handleElectShare E c s = Ret (c', x) \<Longrightarrow> I c'"
  by (auto simp: handleElectShare_def Let_def intro: elector [OF _ AddShareVote_keys]
      processes_leader [OF elector [OF _ AddShareVote_keys]] split: if_splits)

lemma work_keeps:
  assumes "core_work E c c'" and I: "I c"
  shows "I c'"
  using assms(1)
proof (cases rule: core_work.cases)
  case (loopback d ds r)
  have "I (pop_loopback c ds)" unfolding pop_loopback_def by (rule pool [OF I]) simp
  from handles_loopback [OF this loopback(2)] show ?thesis .
next
  case (goroutine i)
  from runs_task [OF I goroutine] show ?thesis .
next
  case (mempool msg mp r)
  from mempool(1) pool [OF I Mempool_dispatch_grows [OF mempool(2)]] show ?thesis by simp
next
  case batch
  with pool [OF I generateBlock_grows] show ?thesis by simp
next
  case (transaction tx q)
  with pool [OF I mempool_grows_other(2)] show ?thesis by simp
next
  case (synchronizer st s)
  with pool [OF I mempool_grows_sync [OF synchronizer(2)]] show ?thesis by simp
qed

lemma local_keeps: "core_local E c c' \<Longrightarrow> I c \<Longrightarrow> (\<And>m. I (core_self c m)) \<Longrightarrow> I c'"
  by (erule core_local.cases) (auto intro: work_keeps)

lemma started:
  assumes "I (NewCore name cm ps sg (NewMempool name cm ps sg st txs))"
    and "fresh 0 0 (NewCore name cm ps sg (NewMempool name cm ps sg st txs))"
  shows "I (Core_start E (NewCore name cm ps sg (NewMempool name cm ps sg st txs)))"
proof -
  have "Epoch (NewCore name cm ps sg (NewMempool name cm ps sg st txs)) = 0" by (simp add: NewCore_def)
  then show ?thesis
    using assms by (auto simp: Core_start_def case_prod_beta Let_def intro!: proposes generates fresh_generates)
qed

end

text \<open>The handlers of counted messages, as a whole.\<close>

locale core_keeps = core_frame +
  assumes handles_finish: "I c \<Longrightarrow> I (fst (handleFinish E c f))"
    and handles_done: "I c \<Longrightarrow> handleDone E c d = Ret (c', x) \<Longrightarrow> I c'"
    and handles_prevote: "I c \<Longrightarrow> I (fst (handlePrevote E c pv))"
    and handles_finvote: "I c \<Longrightarrow> I (fst (handleFinvote E c fv))"
begin

lemma dispatches: "I c \<Longrightarrow> Core_dispatch E c m = Ret (c', x) \<Longrightarrow> I c'"
proof -
  assume I: "I c" and h: "Core_dispatch E c m = Ret (c', x)"
  from h obtain valid where v: "message_Verify E (cCommittee c) m = Ret valid"
    by (auto simp: Core_dispatch_def)
  show "I c'"
  proof (cases valid)
    case False
    with h v I show ?thesis by (simp add: Core_dispatch_def)
  next
    case True
    note d = h [unfolded Core_dispatch_def v bind_outcome.simps]
    show ?thesis
    proof (cases m)
      case (MElectShare s)
      with d True handles_share [OF I] show ?thesis by (cases s) simp_all
    next
      case (MProposal p)
      with d True handles_proposal [OF I] show ?thesis by simp
    next
      case (MDone y)
      with d True handles_done [OF I] show ?thesis by simp
    next
      case (MHalt y)
      with d True handles_halt [OF I] show ?thesis by simp
    next
      case (MFinish f)
      with d True handles_finish [OF I, of f] show ?thesis by simp
    next
      case (MPrevote pv)
      with d True handles_prevote [OF I, of pv] show ?thesis by simp
    next
      case (MFinVote fv)
      with d True handles_finvote [OF I, of fv] show ?thesis by simp
    next
      case (MVote v)
      with d True handles_vote [OF I, of v] show ?thesis by simp
    qed
  qed
qed

end

text \<open>With a receive channel that may hold anything.\<close>

locale core_closed = core_keeps +
  assumes channel: "I c \<Longrightarrow> I (c\<lparr>RecvCh := ms\<rparr>)"
begin

lemma network: "I c \<Longrightarrow> I (core_self c m)"
  by (simp add: core_self_def channel)

lemma step_keeps: "core_step E c c' \<Longrightarrow> I c \<Longrightarrow> I c'"
  by (cases rule: core_step.cases) (auto intro: dispatches channel local_keeps network)

lemma steps_keep: "(core_step E)\<^sup>*\<^sup>* c c' \<Longrightarrow> I c \<Longrightarrow> I c'"
  by (induction rule: rtranclp_induct) (auto intro: step_keeps)

lemma reachable_keep:
  assumes "core_reachable E name cm ps sg st txs c"
    and "I (NewCore name cm ps sg (NewMempool name cm ps sg st txs))"
    and "fresh 0 0 (NewCore name cm ps sg (NewMempool name cm ps sg st txs))"
  shows "I c"
  using assms(1) started [OF assms(2,3)] unfolding core_reachable_def by (rule steps_keep)

end

text \<open>The handlers of counted messages, by their elementary effects.\<close>

locale core_reduced = core_frame +
  assumes ready: "I c \<Longrightarrow> I (c\<lparr>ReadyFlags := rf\<rparr>)"
    and finish: "I c \<Longrightarrow> I (c\<lparr>FinishFlags := ff\<rparr>)"
    and counters: "I c \<Longrightarrow> finvoteAggreator a = finvoteAggreator (cAggreator c) \<Longrightarrow>
        aCommittee a = aCommittee (cAggreator c) \<Longrightarrow> I (c\<lparr>cAggreator := a\<rparr>)"
    and share: "I c \<Longrightarrow> I (invokeDoneAndShare E c e r)"
    and final_vote: "I c \<Longrightarrow> own E c (MFinVote fv) \<Longrightarrow> I (core_send c NONE (MFinVote fv))"
    and finvote: "I c \<Longrightarrow> AddFinVote (cAggreator c) fv = (a, x) \<Longrightarrow> I (c\<lparr>cAggreator := a\<rparr>)"
    and decided: "I c \<Longrightarrow> AddFinVote (cAggreator c) fv = (a, Inr f) \<Longrightarrow> f \<noteq> ACTION_NONE \<Longrightarrow>
        fresh (fvEpoch fv) (i64 (fvRound fv + 1)) (c\<lparr>cAggreator := a\<rparr>)"
begin

lemma finish_handled: "I c \<Longrightarrow> I (fst (handleFinish E c f))"
proof -
  assume I: "I c"
  obtain a x where a: "AddFinishVote (cAggreator c) f = (a, x)" by fastforce
  then have "finvoteAggreator a = finvoteAggreator (cAggreator c)" "aCommittee a = aCommittee (cAggreator c)"
    by (auto simp: AddFinishVote_def Let_def split: prod.splits)
  then have "I (c\<lparr>cAggreator := a\<rparr>)" by (rule counters [OF I])
  then show ?thesis using I a
    by (auto simp: handleFinish_def Let_def split: sum.split intro!: share finish)
qed

lemma done_handled: "I c \<Longrightarrow> handleDone E c d = Ret (c', x) \<Longrightarrow> I c'"
proof -
  assume I: "I c" and h: "handleDone E c d = Ret (c', x)"
  obtain a y where a: "AddDoneVote (cAggreator c) d = (a, y)" by fastforce
  then have "finvoteAggreator a = finvoteAggreator (cAggreator c)" "aCommittee a = aCommittee (cAggreator c)"
    by (auto simp: AddDoneVote_def Let_def split: prod.splits)
  then have I1: "I (c\<lparr>cAggreator := a\<rparr>)" by (rule counters [OF I])
  from h a I I1 ready [OF I1] show "I c'"
    by (auto simp: handleDone_def Let_def intro: share processes_leader split: if_splits sum.splits)
qed

lemma prevote_handled: "I c \<Longrightarrow> I (fst (handlePrevote E c pv))"
proof -
  assume I: "I c"
  obtain a x where a: "AddPreVote (cAggreator c) pv = (a, x)" by fastforce
  then have "finvoteAggreator a = finvoteAggreator (cAggreator c)" "aCommittee a = aCommittee (cAggreator c)"
    by (auto simp: AddPreVote_def Let_def split: prod.splits)
  then have I1: "I (c\<lparr>cAggreator := a\<rparr>)" by (rule counters [OF I])
  have "I (core_broadcast (c\<lparr>cAggreator := a\<rparr>) (MFinVote fv))" if "own E (c\<lparr>cAggreator := a\<rparr>) (MFinVote fv)" for fv
    using final_vote [OF I1 that] self [of "core_send (c\<lparr>cAggreator := a\<rparr>) NONE (MFinVote fv)" "MFinVote fv"]
    by (simp add: core_broadcast_def)
  then show ?thesis using I I1 a own_New(6) [of E "c\<lparr>cAggreator := a\<rparr>"]
    by (auto simp: handlePrevote_def Let_def split: sum.split)
qed

lemma finvote_handled: "I c \<Longrightarrow> I (fst (handleFinvote E c fv))"
proof -
  assume I: "I c"
  obtain a x where a: "AddFinVote (cAggreator c) fv = (a, x)" by fastforce
  let ?c1 = "c\<lparr>cAggreator := a\<rparr>"
  have I1: "I ?c1" by (rule finvote [OF I a])
  have own: "own E ?c1 (MHalt (projr (NewHalt E (cName c) l d e r (cSigService c))))" for l d e r
    using own_New(7) [of E ?c1] by simp
  show ?thesis
  proof (cases x)
    case (Inr f)
    with decided [OF I] a
    have "f \<noteq> ACTION_NONE \<Longrightarrow> fresh (fvEpoch fv) (i64 (fvRound fv + 1)) ?c1" by simp
    from advances_round [OF I1 this] Inr I I1 a broadcast [OF I1 _ own] show ?thesis
      by (simp add: handleFinvote_def Let_def)
  qed (use I I1 a in \<open>simp add: handleFinvote_def Let_def\<close>)
qed

end

sublocale core_reduced \<subseteq> core_keeps E I fresh
  by unfold_locales (auto intro: finish_handled done_handled prevote_handled finvote_handled)

locale core_invariant = core_reduced +
  assumes incoming: "I c \<Longrightarrow> I (c\<lparr>RecvCh := ms\<rparr>)"

sublocale core_invariant \<subseteq> core_closed E I fresh
  by unfold_locales (rule incoming)

end
