(* ===== verification/Files.thy ===== *)
theory Files
  imports Prelude "HOL-Library.AList"
begin

text \<open>
  What the configuration files are made of: JSON values, files found by the components of their
  names, decimal texts and \<^verbatim>\<open>float64\<close> numbers; with \<^verbatim>\<open>savetoFile\<close> and \<^verbatim>\<open>readFromFile\<close> of
  \<^verbatim>\<open>config/config.go\<close>.

  A file holds the first JSON value its text spells, or the decoder's error; how values map to Go
  types is modelled, with object keys matched exactly. A file is overwritten without being
  truncated; its decoder reads one value and ignores what follows.
\<close>

section \<open>JSON values and files\<close>

datatype json =
    JNull
  | JBool bool
  | JNum int
  | JStr string
  | JArr "json list"
  | JObj "(string \<times> json) list"

text \<open>
  \<^verbatim>\<open>strings.Split\<close> at one character. A file is found by the components of its name, so that \<open>./a\<close>
  and \<open>.//a\<close> are the file \<open>a\<close> of the working directory; an absolute name starts with an empty
  component. (Links and \<open>..\<close> are not resolved.)
\<close>

fun strings_Split :: "char \<Rightarrow> string \<Rightarrow> string list" where
  "strings_Split sep [] = [[]]"
| "strings_Split sep (x # xs) =
     (if x = sep then [] # strings_Split sep xs
      else (x # hd (strings_Split sep xs)) # tl (strings_Split sep xs))"

definition resolve :: "string \<Rightarrow> string list" where
  "resolve name =
     (if take 1 name = ''/'' then [[]] else []) @ filter (\<lambda>w. w \<noteq> [] \<and> w \<noteq> ''.'') (strings_Split CHR ''/'' name)"

record filesystem =
  files :: "string list \<rightharpoonup> (go_error + json)"
  denied :: "string list set"

text \<open>A Go map built from the members of an object: a later member replaces an earlier one.\<close>

definition go_map :: "(string \<times> json) list \<Rightarrow> (string \<times> json) list" where
  "go_map kvs = foldl (\<lambda>m kv. AList.update (fst kv) (snd kv) m) [] kvs"

definition savetoFile :: "filesystem \<Rightarrow> string \<Rightarrow> json \<Rightarrow> filesystem outcome" where
  "savetoFile fs filename data' =
     (if resolve filename \<in> denied fs then Panic ''open: permission denied''
      else Ret (fs\<lparr>files := (files fs)(resolve filename \<mapsto> Inr data')\<rparr>))"

definition readFromFile :: "filesystem \<Rightarrow> string \<Rightarrow> (go_error + (string \<times> json) list) outcome" where
  "readFromFile fs filename =
     (if resolve filename \<in> denied fs then Panic ''open: permission denied''
      else case files fs (resolve filename) of
             None \<Rightarrow> Panic ''open: no such file or directory''
           | Some (Inl e) \<Rightarrow> Ret (Inl e)
           | Some (Inr v) \<Rightarrow>
               (case v of
                  JObj kvs \<Rightarrow> Ret (Inr (go_map kvs))
                | JNull \<Rightarrow> Ret (Inr [])
                | _ \<Rightarrow> Ret (Inl (ErrExternal ''json: cannot unmarshal into map''))))"

text \<open>The type assertions on members; a missing member is a nil interface.\<close>

definition as_string :: "json option \<Rightarrow> string outcome" where
  "as_string v = (case v of Some (JStr s) \<Rightarrow> Ret s | _ \<Rightarrow> Panic ''interface conversion: interface {} is not string'')"

definition as_map :: "json \<Rightarrow> (string \<times> json) list outcome" where
  "as_map v = (case v of JObj kvs \<Rightarrow> Ret (go_map kvs) | _ \<Rightarrow> Panic ''interface conversion: interface {} is not map'')"

text \<open>
  A number decoded into an interface is the nearest \<^verbatim>\<open>float64\<close>: rounded to 53 significant bits, to
  even on a tie. (The fuel covers every number in the range of \<^verbatim>\<open>float64\<close>.)
\<close>

definition round_even :: "int \<Rightarrow> int \<Rightarrow> int" where
  "round_even a b =
     (let q = a div b; r = a mod b in if 2 * r < b \<or> 2 * r = b \<and> even q then q else q + 1)"

fun f64_nat :: "nat \<Rightarrow> int \<Rightarrow> int \<Rightarrow> int" where
  "f64_nat 0 ulp n = n"
| "f64_nat (Suc k) ulp n = (if n \<le> 2 ^ 53 * ulp then round_even n ulp * ulp else f64_nat k (2 * ulp) n)"

definition f64 :: "int \<Rightarrow> int" where
  "f64 n = sgn n * f64_nat 1024 1 \<bar>n\<bar>"

definition as_float64 :: "json option \<Rightarrow> int outcome" where
  "as_float64 v = (case v of Some (JNum n) \<Rightarrow> Ret (f64 n)
     | _ \<Rightarrow> Panic ''interface conversion: interface {} is not float64'')"

text \<open>Strings and byte slices.\<close>

definition str_bytes :: "string \<Rightarrow> bytes" where
  "str_bytes s = map (\<lambda>c. of_nat (of_char c)) s"

definition bytes_str :: "bytes \<Rightarrow> string" where
  "bytes_str b = map (\<lambda>x. char_of (unat x)) b"

text \<open>\<^verbatim>\<open>strconv.Atoi\<close>: the value, 0 on a syntax error and the nearest bound out of range.\<close>

definition is_digit :: "char \<Rightarrow> bool" where
  "is_digit c \<longleftrightarrow> 48 \<le> (of_char c :: nat) \<and> (of_char c :: nat) < 58"

definition Atoi :: "string \<Rightarrow> int" where
  "Atoi s =
     (let (neg, ds) = (case s of [] \<Rightarrow> (False, [])
                       | ch # t \<Rightarrow> if ch = CHR ''-'' then (True, t) else if ch = CHR ''+'' then (False, t) else (False, s))
      in if ds = [] \<or> \<not> list_all is_digit ds then 0
         else let n = int (undigits 10 (map (\<lambda>c. of_char c - 48) ds))
              in if neg then max (- (2 ^ 63)) (- n) else min (2 ^ 63 - 1) n)"

section \<open>Texts\<close>

lemma str_bytes_str [simp]: "str_bytes (bytes_str b) = b"
proof -
  have "of_nat (of_char (char_of (unat x) :: char)) = x" for x :: byte
    using unsigned_less [of x, where ?'a = nat] by (simp add: take_bit_eq_mod)
  then show ?thesis by (induction b) (simp_all add: str_bytes_def bytes_str_def)
qed

lemma of_char_digit: "d < 10 \<Longrightarrow> (of_char (digit_char d) :: nat) = 48 + d"
  by (simp add: digit_char_def take_bit_eq_mod)

lemma is_digit_digit: "d < 10 \<Longrightarrow> is_digit (digit_char d)"
  by (simp add: is_digit_def of_char_digit)

lemma digit_not_sign: "d < 10 \<Longrightarrow> digit_char d \<noteq> CHR ''-'' \<and> digit_char d \<noteq> CHR ''+''"
  using of_char_digit [of d] by (auto simp: numeral_eq_Suc)

lemma digits10_less: "d \<in> set (digits 10 n) \<Longrightarrow> d < 10"
  by (rule digits_less) simp_all

lemma Itoa_digits: "ch \<in> set (Itoa (int i)) \<Longrightarrow> is_digit ch"
  by (auto simp: Itoa_def dest: digits10_less is_digit_digit)

lemma undigits_text: "undigits 10 (map (\<lambda>c. of_char c - 48) (map digit_char (digits 10 n))) = n"
proof -
  have "map (\<lambda>c. of_char c - 48) (map digit_char (digits 10 n)) = digits 10 n"
    by (simp add: map_idI of_char_digit digits10_less)
  then show ?thesis by (simp add: undigits_digits)
qed

lemma minus_char: "char_of (45 :: nat) = CHR ''-''"
  by code_simp

lemma Atoi_Itoa: "- (2 ^ 63) \<le> n \<Longrightarrow> n < 2 ^ 63 \<Longrightarrow> Atoi (Itoa n) = n"
proof -
  assume range: "- (2 ^ 63) \<le> n" "n < 2 ^ 63"
  let ?ds = "map digit_char (digits 10 (nat \<bar>n\<bar>))"
  have ok: "list_all is_digit ?ds" by (auto simp: list_all_iff dest: digits10_less is_digit_digit)
  obtain d ds where d: "digits 10 (nat \<bar>n\<bar>) = d # ds" by (cases "digits 10 (nat \<bar>n\<bar>)") simp_all
  then have "d < 10" using digits10_less [of d "nat \<bar>n\<bar>"] by simp
  note sign = digit_not_sign [OF this]
  have val: "int (undigits 10 (map (\<lambda>c. of_char c - 48) ?ds)) = \<bar>n\<bar>" 
    by (simp only: undigits_text int_nat_eq abs_ge_zero if_True)
  show ?thesis
  proof (cases "n < 0")
    case True
    then have "Itoa n = CHR ''-'' # ?ds" by (simp add: Itoa_def minus_char)
    with ok val range True show ?thesis by (simp add: Atoi_def del: map_map)
  next
    case False
    then have "Itoa n = ?ds" by (simp add: Itoa_def)
    with ok val range False sign d show ?thesis by (simp add: Atoi_def del: map_map)
  qed
qed

lemma Itoa_inj: "Itoa (int i) = Itoa (int j) \<longleftrightarrow> i = j"
proof
  assume "Itoa (int i) = Itoa (int j)"
  then have "map digit_char (digits 10 i) = map digit_char (digits 10 j)" by (simp add: Itoa_def)
  then have "undigits 10 (map (\<lambda>c. of_char c - 48) (map digit_char (digits 10 i))) =
      undigits 10 (map (\<lambda>c. of_char c - 48) (map digit_char (digits 10 j)))" by (rule arg_cong)
  then show "i = j" by (simp only: undigits_text)
qed simp

lemma f64_exact: "\<bar>n\<bar> \<le> 2 ^ 53 \<Longrightarrow> f64 n = n"
proof -
  assume "\<bar>n\<bar> \<le> 2 ^ 53"
  then have "f64_nat (Suc k) 1 \<bar>n\<bar> = \<bar>n\<bar>" for k by (simp add: round_even_def)
  moreover have "(1024 :: nat) = Suc 1023" by simp
  ultimately show ?thesis by (metis f64_def sgn_mult_abs)
qed

section \<open>Files\<close>

lemma Split_not_Nil [simp]: "strings_Split sep s \<noteq> []"
  by (cases s) auto

lemma Split_word [simp]: "sep \<notin> set s \<Longrightarrow> strings_Split sep s = [s]"
  by (induction s) auto

lemma Split_append [simp]: "strings_Split sep (s @ sep # t) = strings_Split sep s @ strings_Split sep t"
  by (induction s) auto

text \<open>A plain name in a directory is one component more.\<close>

lemma resolve_in:
  assumes "CHR ''/'' \<notin> set name" and "name \<noteq> []" and "name \<noteq> ''.''"
  shows "resolve (path @ ''/'' @ name) = resolve (path @ ''/'') @ [name]"
proof -
  have "strings_Split CHR ''/'' (path @ ''/'' @ name) = strings_Split CHR ''/'' path @ [name]"
    "strings_Split CHR ''/'' (path @ ''/'') = strings_Split CHR ''/'' path @ [[]]"
    using assms(1) Split_append [of "CHR ''/''" path name] Split_append [of "CHR ''/''" path "[]"] by simp_all
  moreover have "take 1 (path @ ''/'' @ name) = take 1 (path @ ''/'')" by (cases path) simp_all
  ultimately show ?thesis using assms(2,3) by (simp add: resolve_def)
qed

lemma Itoa_no_slash: "CHR ''/'' \<notin> set (Itoa (int i))"
  using Itoa_digits [of "CHR ''/''" i] by (auto simp: is_digit_def)

lemma update_new: "k \<notin> fst ` set m \<Longrightarrow> AList.update k v m = m @ [(k, v)]"
  by (induction m) auto

lemma foldl_update:
  assumes "distinct (map k xs)"
  shows "foldl (\<lambda>m x. AList.update (k x) (v x) m) [] xs = map (\<lambda>x. (k x, v x)) xs"
proof -
  have "foldl (\<lambda>m x. AList.update (k x) (v x) m) m xs = m @ map (\<lambda>x. (k x, v x)) xs"
    if "distinct (map fst m @ map k xs)" for m
    using that by (induction xs arbitrary: m) (auto simp: update_new)
  from this [of "[]"] assms show ?thesis by simp
qed

lemma go_map_distinct: "distinct (map fst kvs) \<Longrightarrow> go_map kvs = kvs"
  by (simp add: go_map_def foldl_update)

text \<open>A loop that saves one file after the other, under different names.\<close>

lemma foldo_save:
  assumes "inj_on (resolve \<circ> name) (set is)" and "distinct is" and "\<forall>i \<in> set is. resolve (name i) \<notin> denied fs"
  shows "\<exists>fs'. foldo (\<lambda>fs i. savetoFile fs (name i) (content i)) fs is = Ret fs' \<and> denied fs' = denied fs \<and>
    (\<forall>i \<in> set is. files fs' (resolve (name i)) = Some (Inr (content i))) \<and>
    (\<forall>n. n \<notin> (resolve \<circ> name) ` set is \<longrightarrow> files fs' n = files fs n)"
  using assms
proof (induction "is" arbitrary: fs)
  case Nil
  then show ?case by simp
next
  case (Cons i "is")
  let ?fs1 = "fs\<lparr>files := (files fs)(resolve (name i) \<mapsto> Inr (content i))\<rparr>"
  from Cons.prems(3) have ok: "savetoFile fs (name i) (content i) = Ret ?fs1" by (simp add: savetoFile_def)
  have new: "resolve (name i) \<notin> (resolve \<circ> name) ` set is" using Cons.prems(1,2) by auto
  have "inj_on (resolve \<circ> name) (set is)" using Cons.prems(1) by (rule inj_on_subset) auto
  moreover have "distinct is" "\<forall>i \<in> set is. resolve (name i) \<notin> denied ?fs1" using Cons.prems(2,3) by simp_all
  ultimately obtain fs' where
    fs': "foldo (\<lambda>fs i. savetoFile fs (name i) (content i)) ?fs1 is = Ret fs'" "denied fs' = denied ?fs1"
    "\<forall>i \<in> set is. files fs' (resolve (name i)) = Some (Inr (content i))"
    "\<forall>n. n \<notin> (resolve \<circ> name) ` set is \<longrightarrow> files fs' n = files ?fs1 n"
    using Cons.IH [of ?fs1] by blast
  have "files fs' (resolve (name i)) = Some (Inr (content i))" using fs'(4) new by simp
  moreover have "files fs' n = files fs n" if "n \<notin> (resolve \<circ> name) ` set (i # is)" for n
    using fs'(4) that by simp
  ultimately show ?case using ok fs'(1-3) by (intro exI [of _ fs']) simp
qed

lemma save_files:
  assumes "inj_on (resolve \<circ> name) {..<n}" and "\<forall>i < n. resolve (name i) \<notin> denied fs"
  shows "\<exists>fs'. foldo (\<lambda>fs i. savetoFile fs (name i) (content i)) fs [0..<n] = Ret fs' \<and> denied fs' = denied fs \<and>
    (\<forall>i < n. files fs' (resolve (name i)) = Some (Inr (content i))) \<and>
    (\<forall>f. f \<notin> (resolve \<circ> name) ` {..<n} \<longrightarrow> files fs' f = files fs f)"
proof -
  have "set [0..<n] = {..<n}" by auto
  with foldo_save [of name "[0..<n]" fs content] assms show ?thesis by (simp add: Ball_def)
qed

lemma readFromFile_object:
  "resolve f \<notin> denied fs \<Longrightarrow> files fs (resolve f) = Some (Inr (JObj kvs)) \<Longrightarrow> distinct (map fst kvs) \<Longrightarrow>
    readFromFile fs f = Ret (Inr kvs)"
  by (simp add: readFromFile_def go_map_distinct)

lemma foldo_cong:
  "(\<And>x s. x \<in> set xs \<Longrightarrow> f s x = g s x) \<Longrightarrow> foldo f s xs = foldo g s xs"
  by (induction xs arbitrary: s) (simp_all add: bind_outcome_def split: outcome.splits)

lemma i64_exact: "\<bar>n\<bar> \<le> 2 ^ 53 \<Longrightarrow> i64 n = n"
  by (rule i64_id) auto

lemma Itoa_port: "0 \<le> port \<Longrightarrow> Itoa (port + int i) = Itoa (port + int j) \<longleftrightarrow> i = j"
  using Itoa_inj [of "nat (port + int i)" "nat (port + int j)"] by auto

end
