(* ===== verification/Threshold_Keys.thy ===== *)
theory Threshold_Keys
  imports Files Crypto
begin

text \<open>
  The threshold keys of \<^verbatim>\<open>crypto/crypto.go\<close>: marshalling of shares and public polynomials, their
  JSON texts, and that both come back from their texts. Key generation, the curve arithmetic of the
  threshold scheme, the two text formats (JSON values as strings, base64) and the order in which a
  map is iterated are parameters.
\<close>

section \<open>Threshold keys\<close>

text \<open>
  Shares and public polynomials of the threshold scheme: their parts and how scalars and points
  are marshalled; the key pair of the \<open>i\<close>-th call, a random secret and its polynomial; the text
  formats.
\<close>

record config_env =
  pri_I :: "bytes \<Rightarrow> int"
  pri_V :: "bytes \<Rightarrow> bytes"
  pri_make :: "int \<Rightarrow> bytes \<Rightarrow> bytes"
  scalar_marshal :: "bytes \<Rightarrow> go_error + bytes"
  scalar_unmarshal :: "bytes \<Rightarrow> go_error + bytes"
  pub_Info :: "bytes \<Rightarrow> bytes \<times> bytes list"
  pub_make :: "bytes \<Rightarrow> bytes list \<Rightarrow> bytes"
  point_marshal :: "bytes \<Rightarrow> go_error + bytes"
  point_unmarshal :: "bytes \<Rightarrow> go_error + bytes"
  ed_GenerateKey :: "nat \<Rightarrow> go_error + bytes \<times> bytes"
  pick_secret :: bytes
  NewPriPoly :: "int \<Rightarrow> bytes \<Rightarrow> bytes outcome"
  pri_Commit :: "bytes \<Rightarrow> bytes"
  pri_Shares :: "bytes \<Rightarrow> int \<Rightarrow> bytes list outcome"
  json_text :: "json \<Rightarrow> string"
  json_parse :: "string \<Rightarrow> go_error + json"
  base64 :: "bytes \<Rightarrow> string"
  unbase64 :: "string \<Rightarrow> go_error + bytes"
  map_range :: "(string \<times> json) list \<Rightarrow> (string \<times> json) list"

text \<open>
  The documented behaviour: a share is its index and scalar, a polynomial its base and commits;
  marshalling succeeds and is inverted by unmarshalling; there is a polynomial for every positive
  threshold, and it has \<open>n\<close> shares for \<open>n\<close> nodes, numbered from 0 (with other arguments the two
  operations may panic); the system has randomness for key pairs.
\<close>

definition kyber_ok :: "('a config_env_scheme) \<Rightarrow> bool" where
  "kyber_ok K \<longleftrightarrow>
     (\<forall>s. pri_make K (pri_I K s) (pri_V K s) = s) \<and>
     (\<forall>v. \<exists>b. scalar_marshal K v = Inr b \<and> scalar_unmarshal K b = Inr v) \<and>
     (\<forall>p. pub_make K (fst (pub_Info K p)) (snd (pub_Info K p)) = p) \<and>
     (\<forall>p. \<exists>b. point_marshal K p = Inr b \<and> point_unmarshal K b = Inr p) \<and>
     (\<forall>t secret. 0 < t \<longrightarrow> (\<exists>p. NewPriPoly K t secret = Ret p)) \<and>
     (\<forall>p n. 0 \<le> n \<longrightarrow> (\<exists>shares. pri_Shares K p n = Ret shares \<and> map (pri_I K) shares = map int [0..<nat n])) \<and>
     (\<forall>i. \<exists>pub pri. ed_GenerateKey K i = Inr (pub, pri))"

text \<open>
  Of \<^verbatim>\<open>encoding/json\<close> and base64: the values the program encodes are read back. They have ASCII
  strings (others are coerced to valid UTF-8), 64-bit integers, and objects without repeated members.
\<close>

definition ascii :: "string \<Rightarrow> bool" where
  "ascii s \<longleftrightarrow> list_all (\<lambda>c. of_char c < (128 :: nat)) s"

fun json_plain :: "json \<Rightarrow> bool" where
  "json_plain (JStr s) \<longleftrightarrow> ascii s"
| "json_plain (JNum n) \<longleftrightarrow> - (2 ^ 63) \<le> n \<and> n < 2 ^ 63"
| "json_plain (JArr vs) \<longleftrightarrow> list_all json_plain vs"
| "json_plain (JObj kvs) \<longleftrightarrow> distinct (map fst kvs) \<and> list_all (\<lambda>kv. ascii (fst kv) \<and> json_plain (snd kv)) kvs"
| "json_plain _ \<longleftrightarrow> True"

definition text_ok :: "('a config_env_scheme) \<Rightarrow> bool" where
  "text_ok K \<longleftrightarrow> (\<forall>v. json_plain v \<longrightarrow> json_parse K (json_text K v) = Inr v) \<and>
     (\<forall>b. ascii (base64 K b) \<and> unbase64 K (base64 K b) = Inr b)"

text \<open>An iteration over a map meets each of its members once.\<close>

definition range_ok :: "('a config_env_scheme) \<Rightarrow> bool" where
  "range_ok K \<longleftrightarrow> (\<forall>m. distinct (map fst m) \<longrightarrow>
     distinct (map fst (map_range K m)) \<and> set (map_range K m) = set m)"

definition GenED25519Keys :: "('a config_env_scheme) \<Rightarrow> nat \<Rightarrow> (bytes \<times> bytes) outcome" where
  "GenED25519Keys K i =
     (case ed_GenerateKey K i of
        Inl e \<Rightarrow> Panic (error_text e)
      | Inr (pubKey, privKey) \<Rightarrow> Ret (privKey, pubKey))"

definition GenTSKeys :: "('a config_env_scheme) \<Rightarrow> int \<Rightarrow> int \<Rightarrow> (bytes list \<times> bytes) outcome" where
  "GenTSKeys K t n =
     bind_outcome (NewPriPoly K t (pick_secret K)) (\<lambda>priPoly.
       let pubPoly = pri_Commit K priPoly in
       bind_outcome (pri_Shares K priPoly n) (\<lambda>shares. Ret (shares, pubPoly)))"

record TSPartialMarshalled =
  tspI :: int
  tspBinary :: bytes

record TSPublicMarshalled =
  tspBaseBytes :: bytes
  tspCommitBytes :: "bytes list"

definition MarshallTSPartialKey :: "('a config_env_scheme) \<Rightarrow> bytes \<Rightarrow> go_error + TSPartialMarshalled" where
  "MarshallTSPartialKey K priShare =
     (case scalar_marshal K (pri_V K priShare) of
        Inl e \<Rightarrow> Inl e
      | Inr shareAsBytes \<Rightarrow> Inr \<lparr>tspI = pri_I K priShare, tspBinary = shareAsBytes\<rparr>)"

definition UnMarshallTSPartialKey :: "('a config_env_scheme) \<Rightarrow> TSPartialMarshalled \<Rightarrow> go_error + bytes" where
  "UnMarshallTSPartialKey K par =
     (case scalar_unmarshal K (tspBinary par) of
        Inl e \<Rightarrow> Inl e
      | Inr v \<Rightarrow> Inr (pri_make K (tspI par) v))"

text \<open>A loop over a slice that stops at the first error.\<close>

fun map_err :: "('x \<Rightarrow> go_error + 'y) \<Rightarrow> 'x list \<Rightarrow> go_error + 'y list" where
  "map_err f [] = Inr []"
| "map_err f (x # xs) =
     (case f x of
        Inl e \<Rightarrow> Inl e
      | Inr y \<Rightarrow> (case map_err f xs of Inl e \<Rightarrow> Inl e | Inr ys \<Rightarrow> Inr (y # ys)))"

definition MarshallTSPublicKey :: "('a config_env_scheme) \<Rightarrow> bytes \<Rightarrow> go_error + TSPublicMarshalled" where
  "MarshallTSPublicKey K pubKey =
     (let (base, commits) = pub_Info K pubKey in
      case point_marshal K base of
        Inl e \<Rightarrow> Inl e
      | Inr baseAsBytes \<Rightarrow>
          (case map_err (point_marshal K) commits of
             Inl e \<Rightarrow> Inl e
           | Inr commitBytes \<Rightarrow> Inr \<lparr>tspBaseBytes = baseAsBytes, tspCommitBytes = commitBytes\<rparr>))"

definition UnMarshallTSPublicKey :: "('a config_env_scheme) \<Rightarrow> TSPublicMarshalled \<Rightarrow> go_error + bytes" where
  "UnMarshallTSPublicKey K tspm =
     (case point_unmarshal K (tspBaseBytes tspm) of
        Inl e \<Rightarrow> Inl e
      | Inr baseDecoded \<Rightarrow>
          (case map_err (point_unmarshal K) (tspCommitBytes tspm) of
             Inl e \<Rightarrow> Inl e
           | Inr commitsDecoded \<Rightarrow> Inr (pub_make K baseDecoded commitsDecoded)))"

text \<open>
  \<^verbatim>\<open>encode\<close> and \<^verbatim>\<open>decode\<close> for the two structs. A missing or null member leaves the zero value; a
  member of another type is an error.
\<close>

definition json_mismatch :: go_error where
  "json_mismatch = ErrExternal ''json: cannot unmarshal''"

definition int_member :: "(string \<times> json) list \<Rightarrow> string \<Rightarrow> go_error + int" where
  "int_member kvs k = (case map_of kvs k of
     None \<Rightarrow> Inr 0 | Some JNull \<Rightarrow> Inr 0
   | Some (JNum n) \<Rightarrow> if - (2 ^ 63) \<le> n \<and> n < 2 ^ 63 then Inr n else Inl json_mismatch
   | Some _ \<Rightarrow> Inl json_mismatch)"

definition bytes_value :: "('a config_env_scheme) \<Rightarrow> json \<Rightarrow> go_error + bytes" where
  "bytes_value K v = (case v of JNull \<Rightarrow> Inr [] | JStr s \<Rightarrow> unbase64 K s | _ \<Rightarrow> Inl json_mismatch)"

definition bytes_member :: "('a config_env_scheme) \<Rightarrow> (string \<times> json) list \<Rightarrow> string \<Rightarrow> go_error + bytes" where
  "bytes_member K kvs k = (case map_of kvs k of None \<Rightarrow> Inr [] | Some v \<Rightarrow> bytes_value K v)"

definition encode_TSPartial :: "('a config_env_scheme) \<Rightarrow> TSPartialMarshalled \<Rightarrow> string" where
  "encode_TSPartial K m = json_text K (JObj [(''I'', JNum (tspI m)), (''Binary'', JStr (base64 K (tspBinary m)))])"

definition decode_TSPartial :: "('a config_env_scheme) \<Rightarrow> string \<Rightarrow> go_error + TSPartialMarshalled" where
  "decode_TSPartial K s = (case json_parse K s of
     Inl e \<Rightarrow> Inl e
   | Inr JNull \<Rightarrow> Inr \<lparr>tspI = 0, tspBinary = []\<rparr>
   | Inr (JObj kvs) \<Rightarrow>
       (case int_member (go_map kvs) ''I'' of
          Inl e \<Rightarrow> Inl e
        | Inr i \<Rightarrow> (case bytes_member K (go_map kvs) ''Binary'' of
                     Inl e \<Rightarrow> Inl e | Inr b \<Rightarrow> Inr \<lparr>tspI = i, tspBinary = b\<rparr>))
   | Inr _ \<Rightarrow> Inl json_mismatch)"

definition encode_TSPublic :: "('a config_env_scheme) \<Rightarrow> TSPublicMarshalled \<Rightarrow> string" where
  "encode_TSPublic K m = json_text K
     (JObj [(''BaseBytes'', JStr (base64 K (tspBaseBytes m))),
            (''CommitBytes'', JArr (map (\<lambda>b. JStr (base64 K b)) (tspCommitBytes m)))])"

definition decode_TSPublic :: "('a config_env_scheme) \<Rightarrow> string \<Rightarrow> go_error + TSPublicMarshalled" where
  "decode_TSPublic K s = (case json_parse K s of
     Inl e \<Rightarrow> Inl e
   | Inr JNull \<Rightarrow> Inr \<lparr>tspBaseBytes = [], tspCommitBytes = []\<rparr>
   | Inr (JObj kvs) \<Rightarrow>
       (case bytes_member K (go_map kvs) ''BaseBytes'' of
          Inl e \<Rightarrow> Inl e
        | Inr b \<Rightarrow>
            (case (case map_of (go_map kvs) ''CommitBytes'' of
                     None \<Rightarrow> Inr [] | Some JNull \<Rightarrow> Inr [] | Some (JArr vs) \<Rightarrow> map_err (bytes_value K) vs
                   | Some _ \<Rightarrow> Inl json_mismatch) of
               Inl e \<Rightarrow> Inl e | Inr cs \<Rightarrow> Inr \<lparr>tspBaseBytes = b, tspCommitBytes = cs\<rparr>))
   | Inr _ \<Rightarrow> Inl json_mismatch)"

definition EncodeTSPartialKey :: "('a config_env_scheme) \<Rightarrow> bytes \<Rightarrow> go_error + string" where
  "EncodeTSPartialKey K priShare =
     (case MarshallTSPartialKey K priShare of Inl e \<Rightarrow> Inl e | Inr m \<Rightarrow> Inr (encode_TSPartial K m))"

definition DecodeTSPartialKey :: "('a config_env_scheme) \<Rightarrow> string \<Rightarrow> go_error + bytes" where
  "DecodeTSPartialKey K data' =
     (case decode_TSPartial K data' of Inl e \<Rightarrow> Inl e | Inr par \<Rightarrow> UnMarshallTSPartialKey K par)"

definition EncodeTSPublicKey :: "('a config_env_scheme) \<Rightarrow> bytes \<Rightarrow> go_error + string" where
  "EncodeTSPublicKey K pubkey =
     (case MarshallTSPublicKey K pubkey of Inl e \<Rightarrow> Inl e | Inr m \<Rightarrow> Inr (encode_TSPublic K m))"

definition DecodeTSPublicKey :: "('a config_env_scheme) \<Rightarrow> string \<Rightarrow> go_error + bytes" where
  "DecodeTSPublicKey K data' =
     (case decode_TSPublic K data' of Inl e \<Rightarrow> Inl e | Inr m \<Rightarrow> UnMarshallTSPublicKey K m)"

text \<open>
  The two functions on keys that only the repository's tests use; the hash of a share, the constant
  term of a public polynomial and the check of a signature under it are the library's.
\<close>

definition EqualTSPartialKey :: "('a config_env_scheme) \<Rightarrow> (bytes \<Rightarrow> bytes) \<Rightarrow> bytes \<Rightarrow> bytes \<Rightarrow> bool" where
  "EqualTSPartialKey K pri_Hash p1 p2 \<longleftrightarrow> pri_I K p1 = pri_I K p2 \<and> pri_Hash p1 = pri_Hash p2"

definition VerifyTs ::
  "(bytes \<Rightarrow> bytes) \<Rightarrow> (bytes \<Rightarrow> bytes \<Rightarrow> bytes \<Rightarrow> go_error option) \<Rightarrow> SecretShareKey \<Rightarrow> Digest \<Rightarrow> bytes \<Rightarrow> go_error option" where
  "VerifyTs pub_Commit bls_Verify skey digest intactSig = bls_Verify (pub_Commit (PubPoly skey)) digest intactSig"

section \<open>Generated keys\<close>

text \<open>The pair of the \<open>i\<close>-th call: private key, public key.\<close>

definition key_pair :: "('a config_env_scheme) \<Rightarrow> nat \<Rightarrow> bytes \<times> bytes" where
  "key_pair K i = (case ed_GenerateKey K i of Inl _ \<Rightarrow> ([], []) | Inr (pub, pri) \<Rightarrow> (pri, pub))"

lemma GenED25519Keys_pair: "kyber_ok K \<Longrightarrow> GenED25519Keys K i = Ret (key_pair K i)"
  by (auto simp: kyber_ok_def GenED25519Keys_def key_pair_def split: sum.splits prod.splits)
    (metis Inl_Inr_False)

text \<open>The threshold keys of one generation: the shares and the public polynomial.\<close>

definition ts_keys :: "('a config_env_scheme) \<Rightarrow> int \<Rightarrow> int \<Rightarrow> bytes list \<times> bytes" where
  "ts_keys K t n = (case GenTSKeys K t n of Ret x \<Rightarrow> x | Panic _ \<Rightarrow> ([], []))"

lemma GenTSKeys_returns:
  assumes "kyber_ok K" and "0 < t" and "0 \<le> n"
  shows "GenTSKeys K t n = Ret (ts_keys K t n)" and "length (fst (ts_keys K t n)) = nat n"
    and "i < nat n \<Longrightarrow> pri_I K (fst (ts_keys K t n) ! i) = int i"
proof -
  have "\<exists>p. NewPriPoly K t (pick_secret K) = Ret p" using assms(1,2) by (simp add: kyber_ok_def)
  then obtain p where p: "NewPriPoly K t (pick_secret K) = Ret p" ..
  have "\<exists>shares. pri_Shares K p n = Ret shares \<and> map (pri_I K) shares = map int [0..<nat n]"
    using assms(1,3) by (simp add: kyber_ok_def)
  then obtain shares where s: "pri_Shares K p n = Ret shares" "map (pri_I K) shares = map int [0..<nat n]" by blast
  then show "GenTSKeys K t n = Ret (ts_keys K t n)" by (simp add: ts_keys_def GenTSKeys_def p)
  have k: "fst (ts_keys K t n) = shares" using s(1) by (simp add: ts_keys_def GenTSKeys_def p)
  show len: "length (fst (ts_keys K t n)) = nat n" using arg_cong [OF s(2), of length] by (simp add: k)
  show "pri_I K (fst (ts_keys K t n) ! i) = int i" if "i < nat n"
    using arg_cong [OF s(2), of "\<lambda>xs. xs ! i"] that len by (simp add: k)
qed

section \<open>Round trips\<close>

lemma map_err_inverse:
  assumes "\<And>x. \<exists>y. f x = Inr y \<and> g y = Inr x"
  shows "\<exists>ys. map_err f xs = Inr ys \<and> map_err g ys = Inr xs"
proof (induction xs)
  case (Cons x xs)
  then obtain ys where "map_err f xs = Inr ys" "map_err g ys = Inr xs" by blast
  moreover obtain y where "f x = Inr y" "g y = Inr x" using assms by blast
  ultimately show ?case by (intro exI [of _ "y # ys"]) simp
qed simp

lemma map_err_bytes: "text_ok K \<Longrightarrow> map_err (bytes_value K) (map (\<lambda>b. JStr (base64 K b)) bs) = Inr bs"
  by (induction bs) (simp_all add: text_ok_def bytes_value_def)

lemma ascii_names [simp]:
  "ascii ''I''" "ascii ''Binary''" "ascii ''BaseBytes''" "ascii ''CommitBytes''"
  by (simp_all add: ascii_def)

lemma TSPartial_roundtrip:
  assumes "kyber_ok K" and "text_ok K" and "0 \<le> pri_I K s" and "pri_I K s < 2 ^ 63"
  obtains t where "EncodeTSPartialKey K s = Inr t" and "DecodeTSPartialKey K t = Inr s"
proof -
  from assms(1) have s: "pri_make K (pri_I K s) (pri_V K s) = s" by (simp add: kyber_ok_def)
  from assms(1) have "\<exists>b. scalar_marshal K v = Inr b \<and> scalar_unmarshal K b = Inr v" for v
    by (simp add: kyber_ok_def)
  then obtain b where b: "scalar_marshal K (pri_V K s) = Inr b" "scalar_unmarshal K b = Inr (pri_V K s)" by blast
  let ?m = "\<lparr>tspI = pri_I K s, tspBinary = b\<rparr>"
  have "EncodeTSPartialKey K s = Inr (encode_TSPartial K ?m)"
    using b by (simp add: EncodeTSPartialKey_def MarshallTSPartialKey_def)
  moreover have "DecodeTSPartialKey K (encode_TSPartial K ?m) = Inr s"
    using b s assms(2-4)
    by (simp add: DecodeTSPartialKey_def decode_TSPartial_def encode_TSPartial_def text_ok_def go_map_distinct
        int_member_def bytes_member_def bytes_value_def UnMarshallTSPartialKey_def)
  ultimately show thesis by (rule that)
qed

lemma TSPartial_equal:
  assumes "kyber_ok K" and "text_ok K" and "EncodeTSPartialKey K s = Inr t" and "0 \<le> pri_I K s" and "pri_I K s < 2 ^ 63"
  shows "\<exists>s'. DecodeTSPartialKey K t = Inr s' \<and> EqualTSPartialKey K pri_Hash s s'"
proof -
  obtain t' where "EncodeTSPartialKey K s = Inr t'" "DecodeTSPartialKey K t' = Inr s"
    by (rule TSPartial_roundtrip [OF assms(1,2,4,5)])
  with assms(3) show ?thesis by (simp add: EqualTSPartialKey_def)
qed

lemma TSPublic_roundtrip:
  assumes "kyber_ok K" and "text_ok K"
  obtains t where "EncodeTSPublicKey K p = Inr t" and "DecodeTSPublicKey K t = Inr p"
proof -
  obtain base commits where i: "pub_Info K p = (base, commits)" by fastforce
  with assms(1) have p: "pub_make K base commits = p" by (auto simp: kyber_ok_def dest: spec [of _ p])
  have inv: "\<exists>b. point_marshal K x = Inr b \<and> point_unmarshal K b = Inr x" for x
    using assms(1) by (simp add: kyber_ok_def)
  from inv [of base] obtain b where b: "point_marshal K base = Inr b" "point_unmarshal K b = Inr base" by blast
  from map_err_inverse [OF inv, of commits] obtain cs where
    cs: "map_err (point_marshal K) commits = Inr cs" "map_err (point_unmarshal K) cs = Inr commits" by blast
  let ?m = "\<lparr>tspBaseBytes = b, tspCommitBytes = cs\<rparr>"
  have "EncodeTSPublicKey K p = Inr (encode_TSPublic K ?m)"
    using b cs i by (simp add: EncodeTSPublicKey_def MarshallTSPublicKey_def)
  moreover have "decode_TSPublic K (encode_TSPublic K ?m) = Inr ?m"
    using assms(2) map_err_bytes [OF assms(2), of cs]
    by (simp add: decode_TSPublic_def encode_TSPublic_def text_ok_def go_map_distinct bytes_member_def bytes_value_def list_all_iff)
  then have "DecodeTSPublicKey K (encode_TSPublic K ?m) = Inr p"
    using b cs p by (simp add: DecodeTSPublicKey_def UnMarshallTSPublicKey_def)
  ultimately show thesis by (rule that)
qed

end
