(* ===== verification/Config.thy ===== *)
theory Config
  imports Threshold_Keys Core_Config Pool "HOL-Library.Countable"
begin

text \<open>
  Package \<^verbatim>\<open>config\<close> (\<^verbatim>\<open>config/config.go\<close>): key, committee and parameter files and the default
  committee.
\<close>

section \<open>Key files\<close>

definition key_file :: "string \<Rightarrow> nat \<Rightarrow> string" where
  "key_file path i = path @ ''/.node-key-'' @ Itoa (int i) @ ''.json''"

definition ts_key_file :: "string \<Rightarrow> nat \<Rightarrow> string" where
  "ts_key_file path i = path @ ''/.node-ts-key-'' @ Itoa (int i) @ ''.json''"

definition GenerateKeyFiles :: "('a config_env_scheme) \<Rightarrow> filesystem \<Rightarrow> int \<Rightarrow> string \<Rightarrow> filesystem outcome" where
  "GenerateKeyFiles K fs pairs path =
     foldo (\<lambda>fs i.
        bind_outcome (GenED25519Keys K i) (\<lambda>(pri, pub).
          savetoFile fs (key_file path i)
             (JObj [(''public'', JStr (bytes_str (EncodePublicKey \<lparr>Pubkey = pub\<rparr>))),
                    (''private'', JStr (bytes_str (EncodePrivateKey \<lparr>Prikey = pri\<rparr>)))]))) fs [0..<nat pairs]"

text \<open>The errors of the two encodings are dropped; the string of a nil slice is empty.\<close>

definition GenerateTsKeyFiles ::
  "('a config_env_scheme) \<Rightarrow> filesystem \<Rightarrow> int \<Rightarrow> int \<Rightarrow> string \<Rightarrow> filesystem outcome" where
  "GenerateTsKeyFiles K fs N T path =
     bind_outcome (GenTSKeys K T N) (\<lambda>(shares, pub).
      foldo (\<lambda>fs i.
        if length shares \<le> i then Panic ''index out of range''
        else savetoFile fs (ts_key_file path i)
               (JObj [(''share'', JStr (case EncodeTSPartialKey K (shares ! i) of Inl _ \<Rightarrow> [] | Inr s \<Rightarrow> s)),
                      (''pub'', JStr (case EncodeTSPublicKey K pub of Inl _ \<Rightarrow> [] | Inr s \<Rightarrow> s)),
                      (''N'', JNum N), (''T'', JNum T)])) fs [0..<nat N])"

definition GenKeysFromFile :: "filesystem \<Rightarrow> string \<Rightarrow> (go_error + PublickKey \<times> PrivateKey) outcome" where
  "GenKeysFromFile fs filename =
     bind_outcome (readFromFile fs filename) (\<lambda>r.
       case r of
         Inl e \<Rightarrow> Ret (Inl e)
       | Inr d \<Rightarrow>
           bind_outcome (as_string (map_of d ''public'')) (\<lambda>pub.
           bind_outcome (as_string (map_of d ''private'')) (\<lambda>pri.
             Ret (case DecodePublicKey (str_bytes pub) of
                    Inl e \<Rightarrow> Inl e
                  | Inr pubKey \<Rightarrow>
                      (case DecodePrivateKey (str_bytes pri) of
                         Inl e \<Rightarrow> Inl e
                       | Inr priKey \<Rightarrow> Inr (pubKey, priKey))))))"

definition GenTsKeyFromFile ::
  "('a config_env_scheme) \<Rightarrow> filesystem \<Rightarrow> string \<Rightarrow> (go_error + SecretShareKey) outcome" where
  "GenTsKeyFromFile K fs filename =
     bind_outcome (readFromFile fs filename) (\<lambda>r.
       case r of
         Inl e \<Rightarrow> Ret (Inl e)
       | Inr d \<Rightarrow>
           bind_outcome (as_string (map_of d ''share'')) (\<lambda>share.
           bind_outcome (as_string (map_of d ''pub'')) (\<lambda>pub.
           bind_outcome (as_float64 (map_of d ''N'')) (\<lambda>N.
           bind_outcome (as_float64 (map_of d ''T'')) (\<lambda>T.
             Ret (case DecodeTSPartialKey K share of
                    Inl e \<Rightarrow> Inl e
                  | Inr priShare \<Rightarrow>
                      (case DecodeTSPublicKey K pub of
                         Inl e \<Rightarrow> Inl e
                       | Inr pubPoly \<Rightarrow>
                           Inr \<lparr>PubPoly = pubPoly, PriShare = priShare, ShareN = i64 N, ShareT = i64 T\<rparr>)))))))"

section \<open>Committee and parameter files\<close>

text \<open>One entry of the committee file; a key that cannot be decoded is the zero key.\<close>

definition committee_entry ::
  "(NodeID \<times> Authority) list \<Rightarrow> string \<times> json \<Rightarrow> (NodeID \<times> Authority) list outcome" where
  "committee_entry auths item =
     bind_outcome (as_map (snd item)) (\<lambda>info.
     bind_outcome (as_string (map_of info ''name'')) (\<lambda>name.
     bind_outcome (as_string (map_of info ''addr'')) (\<lambda>addr.
     bind_outcome (as_string (map_of info ''mempool_addr'')) (\<lambda>mempool_addr.
       Ret (AList.update (Atoi (fst item))
              \<lparr>Name = (case DecodePublicKey (str_bytes name) of Inl _ \<Rightarrow> \<lparr>Pubkey = []\<rparr> | Inr k \<Rightarrow> k),
               Id = Atoi (fst item), Addr = addr, MempoolAddr = mempool_addr\<rparr> auths)))))"

definition GenCommitteeFromFile ::
  "('a config_env_scheme) \<Rightarrow> filesystem \<Rightarrow> string \<Rightarrow> (go_error + Committee) outcome" where
  "GenCommitteeFromFile K fs filename =
     bind_outcome (readFromFile fs filename) (\<lambda>r.
       case r of
         Inl e \<Rightarrow> Ret (Inl e)
       | Inr d \<Rightarrow> bind_outcome (foldo committee_entry [] (map_range K d)) (\<lambda>auths. Ret (Inr \<lparr>Authorities = auths\<rparr>)))"

record ConfigParameters =
  cfgPool :: PoolParameters
  cfgConsensus :: Parameters

definition GenDefaultParameters :: ConfigParameters where
  "GenDefaultParameters = \<lparr>cfgPool = DefaultPoolParameters, cfgConsensus = DefaultParameters\<rparr>"

text \<open>The parameters struct by its JSON tags.\<close>

definition parameters_json :: "ConfigParameters \<Rightarrow> json" where
  "parameters_json p =
     JObj [(''pool'', JObj [(''rate'', JNum (Rate (cfgPool p))), (''tx_size'', JNum (TxSize (cfgPool p))),
                            (''batch_size'', JNum (BatchSize (cfgPool p))),
                            (''max_tx_queue_size'', JNum (MaxQueueSize (cfgPool p)))]),
           (''consensus'', JObj [(''sync_timeout'', JNum (SyncTimeout (cfgConsensus p))),
                            (''network_delay'', JNum (NetwrokDelay (cfgConsensus p))),
                            (''min_block_delay'', JNum (MinBlockDelay (cfgConsensus p))),
                            (''ddos'', JBool (DDos (cfgConsensus p))), (''faults'', JNum (Faults (cfgConsensus p))),
                            (''retry_delay'', JNum (RetryDelay (cfgConsensus p))),
                            (''protocol'', JNum (Protocol (cfgConsensus p))),
                            (''max_payload_size'', JNum (MaxPayloadSize (cfgConsensus p))),
                            (''max_queen_size'', JNum (int (MaxQueenSize (cfgConsensus p)))),
                            (''min_Payload_delay'', JNum (MinPayloadDelay (cfgConsensus p))),
                            (''sync_retry_delay'', JNum (SyncRetryDelay (cfgConsensus p)))])]"

definition uint64_member :: "(string \<times> json) list \<Rightarrow> string \<Rightarrow> go_error + nat" where
  "uint64_member kvs k = (case map_of kvs k of
     None \<Rightarrow> Inr 0 | Some JNull \<Rightarrow> Inr 0
   | Some (JNum n) \<Rightarrow> if 0 \<le> n \<and> n < 2 ^ 64 then Inr (nat n) else Inl json_mismatch
   | Some _ \<Rightarrow> Inl json_mismatch)"

definition bool_member :: "(string \<times> json) list \<Rightarrow> string \<Rightarrow> go_error + bool" where
  "bool_member kvs k = (case map_of kvs k of
     None \<Rightarrow> Inr False | Some JNull \<Rightarrow> Inr False | Some (JBool b) \<Rightarrow> Inr b | Some _ \<Rightarrow> Inl json_mismatch)"

definition struct_member :: "(string \<times> json) list \<Rightarrow> string \<Rightarrow> go_error + (string \<times> json) list" where
  "struct_member kvs k = (case map_of kvs k of
     None \<Rightarrow> Inr [] | Some JNull \<Rightarrow> Inr [] | Some (JObj m) \<Rightarrow> Inr (go_map m) | Some _ \<Rightarrow> Inl json_mismatch)"

text \<open>A struct is decoded when each of its members is.\<close>

definition bind_err :: "go_error + 'x \<Rightarrow> ('x \<Rightarrow> go_error + 'y) \<Rightarrow> go_error + 'y" where
  "bind_err m f = (case m of Inl e \<Rightarrow> Inl e | Inr x \<Rightarrow> f x)"

definition decode_pool :: "(string \<times> json) list \<Rightarrow> go_error + PoolParameters" where
  "decode_pool d =
     bind_err (int_member d ''rate'') (\<lambda>rate.
     bind_err (int_member d ''tx_size'') (\<lambda>tx.
     bind_err (int_member d ''batch_size'') (\<lambda>bs.
     bind_err (int_member d ''max_tx_queue_size'') (\<lambda>mq.
       Inr \<lparr>Rate = rate, TxSize = tx, BatchSize = bs, MaxQueueSize = mq\<rparr>))))"

definition decode_consensus :: "(string \<times> json) list \<Rightarrow> go_error + Parameters" where
  "decode_consensus d =
     bind_err (int_member d ''sync_timeout'') (\<lambda>st.
     bind_err (int_member d ''network_delay'') (\<lambda>nd.
     bind_err (int_member d ''min_block_delay'') (\<lambda>mb.
     bind_err (bool_member d ''ddos'') (\<lambda>dd.
     bind_err (int_member d ''faults'') (\<lambda>fa.
     bind_err (int_member d ''retry_delay'') (\<lambda>rd.
     bind_err (int_member d ''protocol'') (\<lambda>pr.
     bind_err (int_member d ''max_payload_size'') (\<lambda>mp.
     bind_err (uint64_member d ''max_queen_size'') (\<lambda>mq.
     bind_err (int_member d ''min_Payload_delay'') (\<lambda>md.
     bind_err (int_member d ''sync_retry_delay'') (\<lambda>sr.
       Inr \<lparr>SyncTimeout = st, NetwrokDelay = nd, MinBlockDelay = mb, DDos = dd, Faults = fa, RetryDelay = rd,
            Protocol = pr, MaxPayloadSize = mp, MaxQueenSize = mq, MinPayloadDelay = md, SyncRetryDelay = sr\<rparr>)))))))))))"

definition GenParamatersFromFile :: "filesystem \<Rightarrow> string \<Rightarrow> go_error + PoolParameters \<times> Parameters" where
  "GenParamatersFromFile fs filename =
     (if resolve filename \<in> denied fs then Inl (ErrExternal ''open: permission denied'')
      else case files fs (resolve filename) of
             None \<Rightarrow> Inl (ErrExternal ''open: no such file or directory'')
           | Some (Inl e) \<Rightarrow> Inl e
           | Some (Inr v) \<Rightarrow>
               bind_err (case v of JObj m \<Rightarrow> Inr (go_map m) | JNull \<Rightarrow> Inr [] | _ \<Rightarrow> Inl json_mismatch) (\<lambda>d.
               bind_err (bind_err (struct_member d ''pool'') decode_pool) (\<lambda>p.
               bind_err (bind_err (struct_member d ''consensus'') decode_consensus) (\<lambda>c.
                 Inr (p, c)))))"

definition GenerateSampleParameters :: "filesystem \<Rightarrow> filesystem outcome" where
  "GenerateSampleParameters fs = savetoFile fs ''./.parameters.json'' (parameters_json GenDefaultParameters)"

abbreviation (input) DefaultPort :: int where "DefaultPort \<equiv> 9000"

definition default_authority :: "int \<Rightarrow> bytes \<Rightarrow> int \<Rightarrow> Authority" where
  "default_authority n pubKey i =
     \<lparr>Name = \<lparr>Pubkey = pubKey\<rparr>, Id = i, Addr = ''127.0.0.1:'' @ Itoa (DefaultPort + i),
      MempoolAddr = ''127.0.0.1:'' @ Itoa (DefaultPort + n + i)\<rparr>"

definition GenDefaultCommittee ::
  "('a config_env_scheme) \<Rightarrow> int \<Rightarrow> (Committee \<times> PrivateKey list \<times> SecretShareKey list) outcome" where
  "GenDefaultCommittee K n =
     bind_outcome (foldo (\<lambda>(auths, priKeys) i.
         bind_outcome (GenED25519Keys K i) (\<lambda>(priKey, pubKey).
           Ret (AList.update (int i) (default_authority n pubKey (int i)) auths, priKeys @ [\<lparr>Prikey = priKey\<rparr>])))
       ([], []) [0..<nat n]) (\<lambda>(auths, priKeys).
     let committee = \<lparr>Authorities = auths\<rparr> in
     bind_outcome (GenTSKeys K (HightThreshold committee) n) (\<lambda>(shares, pub).
     bind_outcome (foldo (\<lambda>shareKeys i.
          if length shares \<le> i then Panic ''index out of range''
          else Ret (shareKeys @ [\<lparr>PubPoly = pub, PriShare = shares ! i, ShareN = n, ShareT = HightThreshold committee\<rparr>]))
        [] [0..<nat n]) (\<lambda>shareKeys. Ret (committee, priKeys, shareKeys))))"

text \<open>The sample committee file: three members per node.\<close>

definition GenerateSmapleCommittee :: "('a config_env_scheme) \<Rightarrow> filesystem \<Rightarrow> filesystem outcome" where
  "GenerateSmapleCommittee K fs =
     bind_outcome (GenDefaultCommittee K 4) (\<lambda>(committee, _, _).
       savetoFile fs ''./.committee.json''
         (JObj (map (\<lambda>(nid, item). (Itoa nid,
            JObj [(''name'', JStr (bytes_str (EncodePublicKey (Name item)))), (''node_id'', JNum nid),
                  (''addr'', JStr (Addr item))])) (Authorities committee))))"

section \<open>Key files are read back\<close>

lemma resolve_key_file: "resolve (key_file path i) = resolve (path @ ''/'') @ [''.node-key-'' @ Itoa (int i) @ ''.json'']"
  and resolve_ts_key_file:
    "resolve (ts_key_file path i) = resolve (path @ ''/'') @ [''.node-ts-key-'' @ Itoa (int i) @ ''.json'']"
  using resolve_in [of "''.node-key-'' @ Itoa (int i) @ ''.json''" path]
    resolve_in [of "''.node-ts-key-'' @ Itoa (int i) @ ''.json''" path] Itoa_no_slash [of i]
  by (simp_all add: key_file_def ts_key_file_def)

lemma key_file_inj: "inj_on (resolve \<circ> key_file path) A" and ts_key_file_inj: "inj_on (resolve \<circ> ts_key_file path) A"
  by (auto simp: inj_on_def resolve_key_file resolve_ts_key_file Itoa_inj)

text \<open>The contents of the two kinds of key files, and what is read back from them.\<close>

definition key_json :: "('a config_env_scheme) \<Rightarrow> nat \<Rightarrow> json" where
  "key_json K i =
     JObj [(''public'', JStr (bytes_str (EncodePublicKey \<lparr>Pubkey = snd (key_pair K i)\<rparr>))),
           (''private'', JStr (bytes_str (EncodePrivateKey \<lparr>Prikey = fst (key_pair K i)\<rparr>)))]"

lemma GenKeysFromFile_key_json:
  "resolve f \<notin> denied fs \<Longrightarrow> files fs (resolve f) = Some (Inr (key_json K i)) \<Longrightarrow>
    GenKeysFromFile fs f = Ret (Inr (\<lparr>Pubkey = snd (key_pair K i)\<rparr>, \<lparr>Prikey = fst (key_pair K i)\<rparr>))"
  by (simp add: GenKeysFromFile_def readFromFile_object key_json_def as_string_def EncodePublicKey_def
      DecodePublicKey_def EncodePrivateKey_def DecodePrivateKey_def hex_Decode_Encode)

definition ts_json :: "('a config_env_scheme) \<Rightarrow> int \<Rightarrow> int \<Rightarrow> nat \<Rightarrow> json" where
  "ts_json K N T i =
     JObj [(''share'', JStr (case EncodeTSPartialKey K (fst (ts_keys K T N) ! i) of Inl _ \<Rightarrow> [] | Inr s \<Rightarrow> s)),
           (''pub'', JStr (case EncodeTSPublicKey K (snd (ts_keys K T N)) of Inl _ \<Rightarrow> [] | Inr s \<Rightarrow> s)),
           (''N'', JNum N), (''T'', JNum T)]"

definition ts_key :: "('a config_env_scheme) \<Rightarrow> int \<Rightarrow> int \<Rightarrow> nat \<Rightarrow> SecretShareKey" where
  "ts_key K N T i =
     \<lparr>PubPoly = snd (ts_keys K T N), PriShare = fst (ts_keys K T N) ! i, ShareN = N, ShareT = T\<rparr>"

lemma GenTsKeyFromFile_ts_json:
  assumes "kyber_ok K" and "text_ok K" and "N \<le> 2 ^ 53" and "0 < T" and "T \<le> 2 ^ 53" and "int i < N"
    and "resolve f \<notin> denied fs" and "files fs (resolve f) = Some (Inr (ts_json K N T i))"
  shows "GenTsKeyFromFile K fs f = Ret (Inr (ts_key K N T i))"
proof -
  have N: "\<bar>N\<bar> \<le> 2 ^ 53" "\<bar>T\<bar> \<le> 2 ^ 53" using assms(3-6) by simp_all
  have "pri_I K (fst (ts_keys K T N) ! i) = int i" using GenTSKeys_returns(3) [OF assms(1,4), of N i] assms(6) by simp
  then have index: "0 \<le> pri_I K (fst (ts_keys K T N) ! i)" "pri_I K (fst (ts_keys K T N) ! i) < 2 ^ 63"
    using assms(3,6) by simp_all
  obtain t where t: "EncodeTSPartialKey K (fst (ts_keys K T N) ! i) = Inr t"
    "DecodeTSPartialKey K t = Inr (fst (ts_keys K T N) ! i)" using TSPartial_roundtrip [OF assms(1,2) index] by blast
  obtain p where p: "EncodeTSPublicKey K (snd (ts_keys K T N)) = Inr p"
    "DecodeTSPublicKey K p = Inr (snd (ts_keys K T N))" using TSPublic_roundtrip [OF assms(1,2)] by blast
  from assms(8) have "files fs (resolve f) =
      Some (Inr (JObj [(''share'', JStr t), (''pub'', JStr p), (''N'', JNum N), (''T'', JNum T)]))"
    by (simp add: ts_json_def t(1) p(1))
  from readFromFile_object [OF assms(7) this] show ?thesis
    by (simp add: GenTsKeyFromFile_def as_string_def as_float64_def t(2) p(2) f64_exact [OF N(1)]
        f64_exact [OF N(2)] i64_exact [OF N(1)] i64_exact [OF N(2)] ts_key_def)
qed

lemma GenerateKeyFiles_saves:
  assumes "kyber_ok K" and "\<forall>i < nat pairs. resolve (key_file path i) \<notin> denied fs"
  shows "\<exists>fs'. GenerateKeyFiles K fs pairs path = Ret fs' \<and> denied fs' = denied fs \<and>
    (\<forall>i < nat pairs. files fs' (resolve (key_file path i)) = Some (Inr (key_json K i))) \<and>
    (\<forall>n. n \<notin> (resolve \<circ> key_file path) ` {..<nat pairs} \<longrightarrow> files fs' n = files fs n)"
  using save_files [OF key_file_inj assms(2), of "key_json K"]
  by (simp only: GenerateKeyFiles_def GenED25519Keys_pair [OF assms(1)] bind_outcome.simps key_json_def case_prod_beta)

lemma GenerateTsKeyFiles_saves:
  assumes "kyber_ok K" and "0 < T" and "0 \<le> N" and "\<forall>i < nat N. resolve (ts_key_file path i) \<notin> denied fs"
  shows "\<exists>fs'. GenerateTsKeyFiles K fs N T path = Ret fs' \<and> denied fs' = denied fs \<and>
    (\<forall>i < nat N. files fs' (resolve (ts_key_file path i)) = Some (Inr (ts_json K N T i))) \<and>
    (\<forall>n. n \<notin> (resolve \<circ> ts_key_file path) ` {..<nat N} \<longrightarrow> files fs' n = files fs n)"
proof -
  note keys = GenTSKeys_returns [OF assms(1-3)]
  then have "GenerateTsKeyFiles K fs N T path =
      foldo (\<lambda>fs i. savetoFile fs (ts_key_file path i) (ts_json K N T i)) fs [0..<nat N]"
    unfolding GenerateTsKeyFiles_def keys(1) bind_outcome.simps case_prod_beta by (intro foldo_cong) (simp add: ts_json_def)
  then show ?thesis
    using save_files [OF ts_key_file_inj assms(4), of "ts_json K N T"] by simp
qed

section \<open>The default committee\<close>

definition default_committee :: "('a config_env_scheme) \<Rightarrow> int \<Rightarrow> Committee" where
  "default_committee K n =
     \<lparr>Authorities = map (\<lambda>i. (int i, default_authority n (snd (key_pair K i)) (int i))) [0..<nat n]\<rparr>"

lemma GenDefaultCommittee_eq:
  assumes "kyber_ok K" and "0 \<le> n"
  shows "GenDefaultCommittee K n = Ret (default_committee K n, map (\<lambda>i. \<lparr>Prikey = fst (key_pair K i)\<rparr>) [0..<nat n],
    map (ts_key K n (HightThreshold (default_committee K n))) [0..<nat n])"
proof -
  have new: "AList.update (int m) v (map (\<lambda>i. (int i, f i)) [0..<m]) = map (\<lambda>i. (int i, f i)) [0..<m] @ [(int m, v)]"
    for m and v :: Authority and f by (rule update_new) auto
  have "foldo (\<lambda>(auths, priKeys) i.
         bind_outcome (GenED25519Keys K i) (\<lambda>(priKey, pubKey).
           Ret (AList.update (int i) (default_authority n pubKey (int i)) auths, priKeys @ [\<lparr>Prikey = priKey\<rparr>])))
       ([], []) [0..<m] =
     Ret (map (\<lambda>i. (int i, default_authority n (snd (key_pair K i)) (int i))) [0..<m],
       map (\<lambda>i. \<lparr>Prikey = fst (key_pair K i)\<rparr>) [0..<m])" for m
    by (induction m) (auto simp: GenED25519Keys_pair [OF assms(1)] case_prod_beta new)
  then have keys: "foldo (\<lambda>(auths, priKeys) i.
         bind_outcome (GenED25519Keys K i) (\<lambda>(priKey, pubKey).
           Ret (AList.update (int i) (default_authority n pubKey (int i)) auths, priKeys @ [\<lparr>Prikey = priKey\<rparr>])))
       ([], []) [0..<nat n] =
     Ret (Authorities (default_committee K n), map (\<lambda>i. \<lparr>Prikey = fst (key_pair K i)\<rparr>) [0..<nat n])"
    by (simp add: default_committee_def)
  have shares: "foldo (\<lambda>shareKeys i.
          if length shares \<le> i then Panic ''index out of range''
          else Ret (shareKeys @ [\<lparr>PubPoly = pub, PriShare = shares ! i, ShareN = n, ShareT = t\<rparr>])) [] [0..<m] =
     Ret (map (\<lambda>i. \<lparr>PubPoly = pub, PriShare = shares ! i, ShareN = n, ShareT = t\<rparr>) [0..<m])"
    if "m \<le> length shares" for m shares pub t
    using that by (induction m) auto
  have "0 < HightThreshold (default_committee K n)" by (rule HightThreshold_pos)
  note ts = GenTSKeys_returns [OF assms(1) this assms(2)]
  have wrap: "\<lparr>Authorities = Authorities (default_committee K n)\<rparr> = default_committee K n" by simp
  obtain ss pub where sp: "ts_keys K (HightThreshold (default_committee K n)) n = (ss, pub)" by (rule prod.exhaust)
  from shares [of "nat n" ss pub] ts(2) show ?thesis
    unfolding GenDefaultCommittee_def keys bind_outcome.simps Let_def prod.case wrap ts(1) sp
    by (simp add: ts_key_def sp)
qed

lemma default_committee_authorities:
  "i < nat n \<Longrightarrow>
    lookup_authority (default_committee K n) (int i) = default_authority n (snd (key_pair K i)) (int i)"
proof -
  assume "i < nat n"
  then have "map_of (Authorities (default_committee K n)) (int i) = Some (default_authority n (snd (key_pair K i)) (int i))"
    by (intro map_of_is_SomeI) (auto simp: default_committee_def comp_def distinct_map inj_on_def)
  then show ?thesis by (simp add: lookup_authority_def)
qed

text \<open>Addresses with consecutive ports: the first \<open>n\<close> for consensus, the next \<open>n\<close> for the mempool.\<close>

lemma local_addresses_distinct:
  assumes "0 \<le> port"
  shows "distinct (map (\<lambda>i. ''127.0.0.1:'' @ Itoa (port + int i)) [0..<n] @
    map (\<lambda>i. ''127.0.0.1:'' @ Itoa (port + int n + int i)) [0..<n])"
proof -
  have "distinct (map (\<lambda>i. ''127.0.0.1:'' @ Itoa (port + int i)) ([0..<n] @ [n..<n + n]))"
    using assms by (auto simp: distinct_map inj_on_def Itoa_port)
  moreover have "map (\<lambda>i. ''127.0.0.1:'' @ Itoa (port + int i)) [n..<n + n] =
      map (\<lambda>i. ''127.0.0.1:'' @ Itoa (port + int n + int i)) [0..<n]"
    by (simp add: map_add_upt [symmetric] comp_def algebra_simps)
  ultimately show ?thesis by (simp only: map_append)
qed

section \<open>Committee files\<close>

text \<open>A committee file with every member that is read: what it means to spell a committee.\<close>

definition committee_info :: "NodeID \<times> Authority \<Rightarrow> string \<times> json" where
  "committee_info item =
     (Itoa (fst item),
      JObj [(''name'', JStr (bytes_str (EncodePublicKey (Name (snd item))))), (''addr'', JStr (Addr (snd item))),
            (''node_id'', JNum (fst item)), (''mempool_addr'', JStr (MempoolAddr (snd item)))])"

definition entry_ok :: "NodeID \<times> Authority \<Rightarrow> bool" where
  "entry_ok item \<longleftrightarrow> Id (snd item) = fst item \<and> - (2 ^ 63) \<le> fst item \<and> fst item < 2 ^ 63"

lemma committee_entry_info:
  assumes "entry_ok item" and "fst item \<notin> fst ` set auths"
  shows "committee_entry auths (committee_info item) = Ret (auths @ [item])"
proof -
  have "Atoi (Itoa (fst item)) = fst item" using assms(1) by (intro Atoi_Itoa) (simp_all add: entry_ok_def)
  with assms show ?thesis
    by (cases item) (simp add: committee_entry_def committee_info_def as_map_def go_map_distinct as_string_def
        EncodePublicKey_def DecodePublicKey_def hex_Decode_Encode update_new entry_ok_def)
qed

lemma committee_entries:
  assumes "\<forall>item \<in> set items. entry_ok item" and "distinct (map fst (auths @ items))"
  shows "foldo committee_entry auths (map committee_info items) = Ret (auths @ items)"
  using assms by (induction items arbitrary: auths) (auto simp: committee_entry_info)

lemma committee_info_inj:
  assumes "\<forall>item \<in> set items. entry_ok item" and "distinct (map fst items)"
  shows "distinct (map fst (map committee_info items))"
proof -
  have "Atoi (Itoa (fst x)) = fst x" if "x \<in> set items" for x
    using assms(1) that by (intro Atoi_Itoa) (auto simp: entry_ok_def)
  then have "inj_on (\<lambda>x. Itoa (fst x)) (set items)"
    using assms(2) by (intro inj_onI) (metis distinct_map inj_onD)
  then show ?thesis using assms(2) by (simp add: committee_info_def comp_def distinct_map)
qed

text \<open>Reading such a file gives the committee back, in the order of the iteration.\<close>

lemma GenCommitteeFromFile_info:
  assumes "range_ok K" and "\<forall>item \<in> set (Authorities c). entry_ok item" and "wf_committee c"
    and "resolve f \<notin> denied fs" and "files fs (resolve f) = Some (Inr (JObj (map committee_info (Authorities c))))"
  shows "\<exists>c'. GenCommitteeFromFile K fs f = Ret (Inr c') \<and> wf_committee c' \<and> set (Authorities c') = set (Authorities c)"
proof -
  let ?kvs = "map committee_info (Authorities c)"
  have d: "distinct (map fst ?kvs)" using committee_info_inj [OF assms(2)] assms(3) by (simp only: wf_committee_def)
  have range: "distinct (map fst (map_range K ?kvs)) \<and> set (map_range K ?kvs) = set ?kvs"
    using assms(1) d by (simp only: range_ok_def)
  define items :: "(NodeID \<times> Authority) list" where "items = map (inv_into (set (Authorities c)) committee_info) (map_range K ?kvs)"
  have inj: "inj_on committee_info (set (Authorities c))"
    using d by (metis distinct_map inj_on_imageI2 map_map comp_inj_on_iff)
  have again: "map committee_info items = map_range K ?kvs"
    using range by (auto simp: items_def f_inv_into_f intro!: map_idI)
  have items: "set items = set (Authorities c)"
    using range inj by (simp add: items_def image_comp inv_into_image_cancel)
  have "distinct (map Itoa (map fst items))"
    using range by (simp add: comp_def committee_info_def flip: again)
  then have di: "distinct (map fst items)" by (simp only: distinct_map)
  have "foldo committee_entry [] (map_range K ?kvs) = Ret items"
    using committee_entries [of items "[]"] assms(2) items di by (simp add: again)
  then have "GenCommitteeFromFile K fs f = Ret (Inr \<lparr>Authorities = items\<rparr>)"
    by (simp add: GenCommitteeFromFile_def readFromFile_object [OF assms(4,5) d])
  with items di show ?thesis by (auto simp: wf_committee_def)
qed

section \<open>Parameter files\<close>

definition is_int64 :: "int \<Rightarrow> bool" where
  "is_int64 n \<longleftrightarrow> - (2 ^ 63) \<le> n \<and> n < 2 ^ 63"

text \<open>The values the fields of the two structs can hold.\<close>

definition parameters_ok :: "ConfigParameters \<Rightarrow> bool" where
  "parameters_ok p \<longleftrightarrow>
     list_all is_int64 [Rate (cfgPool p), TxSize (cfgPool p), BatchSize (cfgPool p), MaxQueueSize (cfgPool p),
       SyncTimeout (cfgConsensus p), NetwrokDelay (cfgConsensus p), MinBlockDelay (cfgConsensus p), Faults (cfgConsensus p),
       RetryDelay (cfgConsensus p), Protocol (cfgConsensus p), MaxPayloadSize (cfgConsensus p),
       MinPayloadDelay (cfgConsensus p), SyncRetryDelay (cfgConsensus p)] \<and>
     MaxQueenSize (cfgConsensus p) < 2 ^ 64"

lemma int_member_num: "map_of kvs k = Some (JNum n) \<Longrightarrow> is_int64 n \<Longrightarrow> int_member kvs k = Inr n"
  by (simp add: int_member_def is_int64_def)

lemma GenParamatersFromFile_json:
  assumes "parameters_ok p" and "resolve f \<notin> denied fs" and "files fs (resolve f) = Some (Inr (parameters_json p))"
  shows "GenParamatersFromFile fs f = Inr (cfgPool p, cfgConsensus p)"
  using assms
  by (simp add: GenParamatersFromFile_def parameters_json_def go_map_distinct struct_member_def bind_err_def
      decode_pool_def decode_consensus_def int_member_num parameters_ok_def bool_member_def uint64_member_def)

section \<open>A configuration environment\<close>

text \<open>Shares are bare scalars, polynomials bare points; texts number the JSON values.\<close>

instance json :: countable
  by countable_datatype

definition sample_config :: config_env where
  "sample_config =
     \<lparr>pri_I = \<lambda>s. int (length s), pri_V = \<lambda>s. s, pri_make = \<lambda>_ v. v, scalar_marshal = Inr, scalar_unmarshal = Inr,
      pub_Info = \<lambda>p. (p, []), pub_make = \<lambda>b _. b, point_marshal = Inr, point_unmarshal = Inr,
      ed_GenerateKey = \<lambda>i. Inr ([of_nat i, 2], [of_nat i, 1]), pick_secret = [7], NewPriPoly = \<lambda>t secret. if 0 < t then Ret secret else Panic ''index out of range'',
      pri_Commit = \<lambda>p. p, pri_Shares = \<lambda>_ n. if 0 \<le> n then Ret (map (\<lambda>i. replicate i 7) [0..<nat n]) else Panic ''makeslice: len out of range'',
      json_text = \<lambda>v. replicate (to_nat v) CHR ''.'', json_parse = \<lambda>s. Inr (from_nat (length s)),
      base64 = \<lambda>b. bytes_str (hex_Encode b), unbase64 = \<lambda>s. hex_Decode (str_bytes s), map_range = rev\<rparr>"

lemma hexdigit_ascii: "v < 16 \<Longrightarrow> unat (hexdigit v) < 128"
  by (simp add: hexdigit_def word_less_nat_alt unat_word_ariths)

lemma hex_ascii: "ascii (bytes_str (hex_Encode b))"
proof -
  have "list_all (\<lambda>x. unat x < 128) (hex_Encode b)"
    by (induction b) (simp_all add: hexdigit_ascii high_nibble_less low_nibble_less)
  then show ?thesis by (auto simp: ascii_def bytes_str_def list.pred_map comp_def list_all_iff)
qed

lemma sample_config_ok: "kyber_ok sample_config \<and> text_ok sample_config \<and> range_ok sample_config"
  by (simp add: kyber_ok_def text_ok_def range_ok_def sample_config_def rev_map [symmetric] hex_ascii
      hex_Decode_Encode comp_def)

definition empty_files :: filesystem where
  "empty_files = \<lparr>files = \<lambda>_. None, denied = {}\<rparr>"

section \<open>Properties\<close>

text \<open>
  C39. Generated keys load. Wherever the key files can be written, generating \<open>pairs\<close> signing keys
  and then \<open>N\<close> threshold keys, for a positive threshold and a number of nodes that is not negative
  (the library panics on others), succeeds, and afterwards each of the files is read back as exactly
  the pair, respectively the share with its polynomial, size and threshold, that was generated for
  its node. (The sizes pass through \<^verbatim>\<open>float64\<close>, so they are exact up to \<open>2 ^ 53\<close>.)
\<close>

theorem generated_keys_load:
  assumes "kyber_ok K" and "text_ok K" and "0 \<le> N" and "N \<le> 2 ^ 53" and "0 < T" and "T \<le> 2 ^ 53"
    and "\<forall>i. resolve (key_file path i) \<notin> denied fs \<and> resolve (ts_key_file path i) \<notin> denied fs"
  shows "\<exists>fs1 fs2. GenerateKeyFiles K fs pairs path = Ret fs1 \<and> GenerateTsKeyFiles K fs1 N T path = Ret fs2 \<and>
    (\<forall>i < nat pairs. GenKeysFromFile fs2 (key_file path i) =
       Ret (Inr (\<lparr>Pubkey = snd (key_pair K i)\<rparr>, \<lparr>Prikey = fst (key_pair K i)\<rparr>))) \<and>
    (\<forall>i < nat N. GenTsKeyFromFile K fs2 (ts_key_file path i) = Ret (Inr (ts_key K N T i)))"
proof -
  obtain fs1 where fs1: "GenerateKeyFiles K fs pairs path = Ret fs1" "denied fs1 = denied fs"
    "\<forall>i < nat pairs. files fs1 (resolve (key_file path i)) = Some (Inr (key_json K i))"
    using GenerateKeyFiles_saves [OF assms(1), of pairs path fs] assms(7) by blast
  then obtain fs2 where fs2: "GenerateTsKeyFiles K fs1 N T path = Ret fs2" "denied fs2 = denied fs"
    "\<forall>i < nat N. files fs2 (resolve (ts_key_file path i)) = Some (Inr (ts_json K N T i))"
    "\<forall>n. n \<notin> (resolve \<circ> ts_key_file path) ` {..<nat N} \<longrightarrow> files fs2 n = files fs1 n"
    using GenerateTsKeyFiles_saves [OF assms(1,5,3), of path fs1] assms(7) by auto
  have "resolve (key_file path i) \<notin> (resolve \<circ> ts_key_file path) ` {..<nat N}" for i
    by (auto simp: resolve_key_file resolve_ts_key_file)
  then have keys: "\<forall>i < nat pairs. files fs2 (resolve (key_file path i)) = Some (Inr (key_json K i))"
    using fs2(4) fs1(3) by simp
  have "GenKeysFromFile fs2 (key_file path i) =
      Ret (Inr (\<lparr>Pubkey = snd (key_pair K i)\<rparr>, \<lparr>Prikey = fst (key_pair K i)\<rparr>))" if "i < nat pairs" for i
    using GenKeysFromFile_key_json [of "key_file path i" fs2 K i] keys that assms(7) fs2(2) by simp
  moreover have "GenTsKeyFromFile K fs2 (ts_key_file path i) = Ret (Inr (ts_key K N T i))" if "i < nat N" for i
    using GenTsKeyFromFile_ts_json [OF assms(1,2,4-6), of i "ts_key_file path i" fs2] fs2(2,3) that assms(7) by simp
  ultimately show ?thesis using fs1(1) fs2(1) by blast
qed

theorem generated_keys_load_witness:
  "\<exists>fs1 fs2. GenerateKeyFiles sample_config empty_files 4 ''./'' = Ret fs1 \<and>
    GenerateTsKeyFiles sample_config fs1 4 3 ''./'' = Ret fs2 \<and>
    GenKeysFromFile fs2 (key_file ''./'' 2) = Ret (Inr (\<lparr>Pubkey = [2, 2]\<rparr>, \<lparr>Prikey = [2, 1]\<rparr>)) \<and>
    GenTsKeyFromFile sample_config fs2 (ts_key_file ''./'' 3) =
      Ret (Inr \<lparr>PubPoly = [7], PriShare = [7, 7, 7], ShareN = 4, ShareT = 3\<rparr>)"
proof -
  obtain fs1 fs2 where fs: "GenerateKeyFiles sample_config empty_files 4 ''./'' = Ret fs1"
    "GenerateTsKeyFiles sample_config fs1 4 3 ''./'' = Ret fs2"
    "\<forall>i < nat 4. GenKeysFromFile fs2 (key_file ''./'' i) =
       Ret (Inr (\<lparr>Pubkey = snd (key_pair sample_config i)\<rparr>, \<lparr>Prikey = fst (key_pair sample_config i)\<rparr>))"
    "\<forall>i < nat 4. GenTsKeyFromFile sample_config fs2 (ts_key_file ''./'' i) = Ret (Inr (ts_key sample_config 4 3 i))"
    using generated_keys_load [of sample_config 4 3 "''./''" empty_files 4] sample_config_ok
    by (auto simp: empty_files_def)
  moreover have "key_pair sample_config 2 = ([2, 1], [2, 2])"
    "ts_key sample_config 4 3 3 = \<lparr>PubPoly = [7], PriShare = [7, 7, 7], ShareN = 4, ShareT = 3\<rparr>"
    by (simp_all add: sample_config_def ts_key_def key_pair_def ts_keys_def GenTSKeys_def upt_rec)
  ultimately show ?thesis by (intro exI [of _ fs1] exI [of _ fs2]) simp
qed

text \<open>
  The default committee. For every \<open>n\<close> a committee of \<open>n\<close> nodes \<open>0, \<dots>, n - 1\<close> is produced, with
  one private key and one share per node: node \<open>i\<close> is listed under the public key that belongs to the
  \<open>i\<close>-th private key, no two of the \<open>2 * n\<close> addresses clash, and every share is of the same
  polynomial with the committee's high threshold.
\<close>

theorem default_committee_sound:
  assumes "kyber_ok K" and "0 \<le> n"
  shows "\<exists>c pris shares. GenDefaultCommittee K n = Ret (c, pris, shares) \<and> wf_committee c \<and> Committee_Size c = n \<and>
    members c = {0..<n} \<and> int (length pris) = n \<and> int (length shares) = n \<and>
    distinct (map (Addr \<circ> snd) (Authorities c) @ map (MempoolAddr \<circ> snd) (Authorities c)) \<and>
    (\<forall>i < nat n. (Prikey (pris ! i), Pubkey (Committee_Name c (int i))) = key_pair K i \<and>
       Id (lookup_authority c (int i)) = int i \<and>
       shares ! i = \<lparr>PubPoly = snd (ts_keys K (HightThreshold c) n), PriShare = fst (ts_keys K (HightThreshold c) n) ! i,
                     ShareN = n, ShareT = HightThreshold c\<rparr>)"
proof -
  let ?c = "default_committee K n"
  have "wf_committee ?c"
    by (simp add: wf_committee_def default_committee_def comp_def distinct_map inj_on_def)
  moreover have "members ?c = {0..<n}"
    using assms(2) image_int_atLeastLessThan [of 0 "nat n"] by (simp add: members_def default_committee_def image_comp comp_def)
  moreover have "distinct (map (Addr \<circ> snd) (Authorities ?c) @ map (MempoolAddr \<circ> snd) (Authorities ?c))"
    using local_addresses_distinct [of DefaultPort "nat n"] assms(2)
    by (simp add: default_committee_def default_authority_def comp_def)
  moreover have "Committee_Size ?c = n" using assms(2) by (simp add: Committee_Size_def default_committee_def)
  ultimately show ?thesis
    using GenDefaultCommittee_eq [OF assms] assms(2)
    by (simp add: Committee_Name_def default_committee_authorities default_authority_def ts_key_def)
qed

theorem default_committee_sound_witness:
  "\<exists>c pris shares. GenDefaultCommittee sample_config 4 = Ret (c, pris, shares) \<and> Committee_Size c = 4 \<and>
    Committee_Name c 2 = \<lparr>Pubkey = [2, 2]\<rparr> \<and> pris ! 2 = \<lparr>Prikey = [2, 1]\<rparr>"
proof -
  obtain c pris shares where c: "GenDefaultCommittee sample_config 4 = Ret (c, pris, shares)" "Committee_Size c = 4"
    "\<forall>i < nat 4. (Prikey (pris ! i), Pubkey (Committee_Name c (int i))) = key_pair sample_config i"
    using default_committee_sound [of sample_config 4] sample_config_ok by auto
  have "(Prikey (pris ! 2), Pubkey (Committee_Name c (int 2))) = key_pair sample_config 2"
    by (rule c(3) [rule_format]) simp
  then have "Prikey (pris ! 2) = [2, 1]" "Pubkey (Committee_Name c 2) = [2, 2]" by (simp_all add: sample_config_def key_pair_def)
  then have "Committee_Name c 2 = \<lparr>Pubkey = [2, 2]\<rparr> \<and> pris ! 2 = \<lparr>Prikey = [2, 1]\<rparr>" by (simp add: PublickKey.equality PrivateKey.equality)
  with c(1,2) show ?thesis by blast
qed

text \<open>
  The sample committee cannot be loaded. \<^verbatim>\<open>GenerateSmapleCommittee\<close> writes no
  \<^verbatim>\<open>mempool_addr\<close>, so reading the file it wrote panics on the type assertion, whatever the
  generated keys and the order of iteration.
\<close>

theorem sample_committee_unloadable:
  assumes "kyber_ok K" and "range_ok K" and "GenerateSmapleCommittee K fs = Ret fs'"
  shows "GenCommitteeFromFile K fs' ''./.committee.json'' =
    Panic ''interface conversion: interface {} is not string''"
proof -
  let ?entry = "\<lambda>(nid, item :: Authority). (Itoa nid,
      JObj [(''name'', JStr (bytes_str (EncodePublicKey (Name item)))), (''node_id'', JNum nid), (''addr'', JStr (Addr item))])"
  let ?kvs = "map ?entry (Authorities (default_committee K 4))"
  have d: "distinct (map fst ?kvs)"
    by (simp add: default_committee_def comp_def distinct_map inj_on_def Itoa_inj)
  from assms(3) have "resolve ''./.committee.json'' \<notin> denied fs'"
    "files fs' (resolve ''./.committee.json'') = Some (Inr (JObj ?kvs))"
    by (auto simp: GenerateSmapleCommittee_def GenDefaultCommittee_eq [OF assms(1), of 4] savetoFile_def split: if_splits)
  from readFromFile_object [OF this d] have r: "readFromFile fs' ''./.committee.json'' = Ret (Inr ?kvs)" .
  have "set (map_range K ?kvs) = set ?kvs" using assms(2) d by (simp only: range_ok_def)
  moreover have "?kvs \<noteq> []" by (simp add: default_committee_def)
  ultimately obtain e es where e: "map_range K ?kvs = e # es" "e \<in> set ?kvs"
    by (cases "map_range K ?kvs") auto
  from e(2) obtain x :: "NodeID \<times> Authority" where "e = ?entry x" unfolding set_map by (rule imageE)
  then have "committee_entry [] e = Panic ''interface conversion: interface {} is not string''"
    by (simp add: committee_entry_def as_map_def go_map_distinct as_string_def case_prod_beta)
  with r e(1) show ?thesis by (simp add: GenCommitteeFromFile_def)
qed

theorem sample_committee_unloadable_witness:
  "\<exists>fs'. GenerateSmapleCommittee sample_config empty_files = Ret fs' \<and>
    GenCommitteeFromFile sample_config fs' ''./.committee.json'' =
      Panic ''interface conversion: interface {} is not string''"
proof -
  obtain fs' where "GenerateSmapleCommittee sample_config empty_files = Ret fs'"
    using sample_config_ok
    by (auto simp: GenerateSmapleCommittee_def GenDefaultCommittee_eq savetoFile_def empty_files_def)
  with sample_committee_unloadable [of sample_config empty_files fs'] sample_config_ok show ?thesis by blast
qed

end
