(* ===== verification/Logger.thy ===== *)
theory Logger
  imports Prelude "HOL-Library.Word"
begin

unbundle bit_operations_syntax

text \<open>
  Package \<^verbatim>\<open>logger\<close>: the four logs with their prefixes, the writers chosen for them
  (\<^verbatim>\<open>logger/logger.go\<close>) and the opening of a log file (\<^verbatim>\<open>logger/writer.go\<close>). A writer is standard
  output, a file or \<^verbatim>\<open>io.Discard\<close>; the lines themselves are not modelled.
\<close>

section \<open>State\<close>

type_synonym Level = int

abbreviation (input) InfoLevel :: Level where "InfoLevel \<equiv> 1"
abbreviation (input) DebugLevel :: Level where "DebugLevel \<equiv> 2"
abbreviation (input) ErrorLevel :: Level where "ErrorLevel \<equiv> 4"
abbreviation (input) WarnLevel :: Level where "WarnLevel \<equiv> 8"

definition TestLevel :: Level where
  "TestLevel = InfoLevel OR DebugLevel OR ErrorLevel OR WarnLevel"

definition DeployLevel :: Level where
  "DeployLevel = InfoLevel OR ErrorLevel OR WarnLevel"

abbreviation (input) LevelNum :: nat where "LevelNum \<equiv> 4"

datatype Writer = Stdout | File string | Discard

record log =
  log_prefix :: string
  log_out :: Writer

record logger_state =
  out :: "Writer list"
  logs :: "log list"

definition logger_init :: logger_state where
  "logger_init =
     \<lparr>out = [Stdout, Stdout, Stdout, Stdout],
      logs = map (\<lambda>p. \<lparr>log_prefix = p, log_out = Stdout\<rparr>) [''[INFO] '', ''[DUBUG] '', ''[ERROR] '', ''[WARN] '']\<rparr>"

section \<open>Operations\<close>

definition level_has :: "Level \<Rightarrow> nat \<Rightarrow> bool" where
  "level_has level i \<longleftrightarrow> (drop_bit i level AND 1) = 1"

definition set_log_out :: "logger_state \<Rightarrow> nat \<Rightarrow> Writer \<Rightarrow> logger_state" where
  "set_log_out s i w = s\<lparr>logs := (logs s)[i := (logs s ! i)\<lparr>log_out := w\<rparr>]\<rparr>"

definition SetLevel :: "logger_state \<Rightarrow> Level \<Rightarrow> logger_state" where
  "SetLevel s level =
     foldl (\<lambda>s i. if level_has level i then set_log_out s i (out s ! i) else set_log_out s i Discard) s [0..<LevelNum]"

definition SetOutput :: "logger_state \<Rightarrow> Level \<Rightarrow> Writer \<Rightarrow> logger_state" where
  "SetOutput s level w =
     foldl (\<lambda>s i. if level_has level i then (set_log_out s i w)\<lparr>out := (out s)[i := w]\<rparr> else s) s [0..<LevelNum]"

definition NewFileWriter :: "(string \<Rightarrow> go_error option) \<Rightarrow> string \<Rightarrow> Writer outcome" where
  "NewFileWriter open_file path =
     (case open_file path of Some e \<Rightarrow> Panic (error_text e) | None \<Rightarrow> Ret (File path))"

section \<open>Facts\<close>

definition logger_inv :: "logger_state \<Rightarrow> bool" where
  "logger_inv s \<longleftrightarrow> length (out s) = LevelNum \<and> length (logs s) = LevelNum"

lemma upt_LevelNum: "[0..<4] = [0, 1, 2, 3::nat]"
  by (simp add: upt_rec)

lemma level_has_bit: "level_has level i \<longleftrightarrow> bit level i"
  by (simp add: level_has_def and_one_eq bit_iff_odd_drop_bit odd_iff_mod_2_eq_one)

text \<open>The output of log \<open>i\<close>.\<close>

abbreviation log_at :: "logger_state \<Rightarrow> nat \<Rightarrow> Writer" where
  "log_at s i \<equiv> log_out (logs s ! i)"

lemma set_log_out_simps:
  "length (logs (set_log_out s i w)) = length (logs s)" "out (set_log_out s i w) = out s"
  "j < length (logs s) \<Longrightarrow> log_at (set_log_out s i w) j = (if j = i then w else log_at s j)"
  "j < length (logs s) \<Longrightarrow> log_prefix (logs (set_log_out s i w) ! j) = log_prefix (logs s ! j)"
  by (simp_all add: set_log_out_def nth_list_update) (cases "i = j", simp_all)

lemma SetLevel_inv [simp]: "logger_inv s \<Longrightarrow> logger_inv (SetLevel s level)"
  and SetLevel_out [simp]: "out (SetLevel s level) = out s"
  by (simp_all add: SetLevel_def upt_LevelNum set_log_out_simps logger_inv_def)

lemma SetOutput_inv [simp]: "logger_inv s \<Longrightarrow> logger_inv (SetOutput s level w)"
  by (simp add: SetOutput_def upt_LevelNum set_log_out_simps logger_inv_def)

lemma logger_init_inv [simp]: "logger_inv logger_init"
  by (simp add: logger_init_def logger_inv_def)

lemma SetLevel_effect:
  assumes "logger_inv s" and "i < LevelNum"
  shows "log_at (SetLevel s level) i = (if bit level i then out s ! i else Discard)"
  using assms
  by (auto simp: SetLevel_def upt_LevelNum level_has_bit set_log_out_simps logger_inv_def less_Suc_eq numeral_eq_Suc)

lemma SetOutput_effect:
  assumes "logger_inv s" and "i < LevelNum"
  shows "log_at (SetOutput s level w) i = (if bit level i then w else log_at s i)"
    and "out (SetOutput s level w) ! i = (if bit level i then w else out s ! i)"
  using assms
  by (auto simp: SetOutput_def upt_LevelNum level_has_bit set_log_out_simps logger_inv_def less_Suc_eq numeral_eq_Suc)

end
