(* ===== verification/Boot.thy ===== *)
theory Boot
  imports Node Config Logger
begin

text \<open>
  Starting a node: \<^verbatim>\<open>NewNode\<close> (\<^verbatim>\<open>node/node.go\<close>), the start-up of the two transports
  (\<^verbatim>\<open>initmempooltransmit\<close> in \<^verbatim>\<open>mempool.go\<close>, \<^verbatim>\<open>Consensus\<close> in \<^verbatim>\<open>consensus.go\<close>) and the command line
  (\<^verbatim>\<open>main.go\<close>).

  A start is a process with its own goroutines: the two receivers bind their ports at their own time,
  and twice the start waits until every other member has answered. \<open>main\<close> runs a command up to the
  first wait; \<open>process_step\<close> is what can happen from there on, given the ports that are in use. A
  failed attempt to connect changes nothing and is not a step.
\<close>

section \<open>The operating system\<close>

text \<open>
  The parameters: which files and databases can be opened, the number of a port given as text, the
  ports a listener may not use, and the choice of a free port for a listener that asks for port 0.
\<close>

record boot_env = config_env +
  open_log :: "string \<Rightarrow> go_error option"
  open_db :: "string \<Rightarrow> go_error option"
  LookupPort :: "string \<Rightarrow> go_error + int"
  refuse_port :: "string \<Rightarrow> int \<Rightarrow> go_error option"
  free_port :: "string \<Rightarrow> (string \<times> int) set \<Rightarrow> int"

text \<open>What Go documents of ports: their numbers have 16 bits, and a decimal number stands for itself.\<close>

definition ports_ok :: "('a boot_env_scheme) \<Rightarrow> bool" where
  "ports_ok B \<longleftrightarrow> (\<forall>s q. LookupPort B s = Inr q \<longrightarrow> 0 \<le> q \<and> q \<le> 65535) \<and>
     (\<forall>q. 0 \<le> q \<and> q \<le> 65535 \<longrightarrow> LookupPort B (Itoa q) = Inr q)"

text \<open>The listening sockets of all machines: the address of the machine and the port.\<close>

type_synonym sockets = "(string \<times> int) set"

text \<open>Listening on \<^verbatim>\<open>:port\<close> on the machine with address \<open>h\<close>; a port in use is refused.\<close>

definition net_Listen :: "('a boot_env_scheme) \<Rightarrow> string \<Rightarrow> sockets \<Rightarrow> string \<Rightarrow> go_error + int" where
  "net_Listen B h occ addr =
     (case LookupPort B (drop 1 addr) of
        Inl e \<Rightarrow> Inl e
      | Inr q0 \<Rightarrow>
          let q = (if q0 = 0 then free_port B h occ else q0) in
          case refuse_port B h q of
            Some e \<Rightarrow> Inl e
          | None \<Rightarrow> if (h, q) \<in> occ then Inl (ErrExternal ''bind: address already in use'') else Inr q)"

text \<open>A connection to \<^verbatim>\<open>host:port\<close> is accepted where somebody listens.\<close>

definition net_Dial :: "('a boot_env_scheme) \<Rightarrow> sockets \<Rightarrow> string \<Rightarrow> bool" where
  "net_Dial B occ address =
     (case strings_Split CHR '':'' address of
        [h, port] \<Rightarrow> (case LookupPort B port of Inl _ \<Rightarrow> False | Inr q \<Rightarrow> (h, q) \<in> occ)
      | _ \<Rightarrow> False)"

section \<open>A starting node\<close>

text \<open>
  Where \<^verbatim>\<open>NewNode\<close> is: waiting for mempool addresses that have not answered, waiting for consensus
  addresses that have not answered, or returned, with the main loop running.
\<close>

datatype boot_point =
    MempoolWait "string list"
  | ConsensusWait Mempool "string list"
  | Booted Core

record Booting =
  bName :: NodeID
  bCommittee :: Committee
  bParameters :: Parameters
  bSig :: SigService
  bStore :: Store
  bTxPool :: PoolState
  bLogs :: logger_state
  bReceivers :: "string list"
  bPorts :: "int set"
  bPoint :: boot_point

text \<open>The port part of the own address.\<close>

definition listen_addr :: "string \<Rightarrow> string outcome" where
  "listen_addr address =
     (case strings_Split CHR '':'' address of
        _ # port # _ \<Rightarrow> Ret (CHR '':'' # port)
      | _ \<Rightarrow> Panic ''index out of range [1] with length 1'')"

definition log_name :: "string \<Rightarrow> string \<Rightarrow> int \<Rightarrow> string" where
  "log_name logPath kind nodeID = logPath @ ''/node-'' @ kind @ ''-'' @ Itoa nodeID @ ''.log''"

definition log_config ::
  "('a boot_env_scheme) \<Rightarrow> logger_state \<Rightarrow> string \<Rightarrow> Level \<Rightarrow> int \<Rightarrow> logger_state outcome" where
  "log_config B lg logPath logLevel nodeID =
     bind_outcome
       (foldo (\<lambda>lg (level, kind).
          bind_outcome (NewFileWriter (open_log B) (log_name logPath kind nodeID)) (\<lambda>w. Ret (SetOutput lg level w)))
        lg [(InfoLevel, ''info''), (DebugLevel, ''debug''), (WarnLevel, ''warn''), (ErrorLevel, ''error'')])
       (\<lambda>lg. Ret (SetLevel lg logLevel))"

text \<open>Reading the four files, in the order of the source; the first error is returned.\<close>

definition read_config ::
  "('a boot_env_scheme) \<Rightarrow> filesystem \<Rightarrow> string \<Rightarrow> string \<Rightarrow> string \<Rightarrow> string
   \<Rightarrow> (go_error + SigService \<times> Committee \<times> PoolParameters \<times> Parameters) outcome" where
  "read_config B fs keysFile tssKeyFile committeeFile parametersFile =
     bind_outcome (GenKeysFromFile fs keysFile) (\<lambda>r1. case r1 of Inl e \<Rightarrow> Ret (Inl e) | Inr (_, priKey) \<Rightarrow>
     bind_outcome (GenTsKeyFromFile B fs tssKeyFile) (\<lambda>r2. case r2 of Inl e \<Rightarrow> Ret (Inl e) | Inr shareKey \<Rightarrow>
     bind_outcome (GenCommitteeFromFile B fs committeeFile) (\<lambda>r3. case r3 of Inl e \<Rightarrow> Ret (Inl e) | Inr committee \<Rightarrow>
       Ret (case GenParamatersFromFile fs parametersFile of
              Inl e \<Rightarrow> Inl e
            | Inr (poolP, coreP) \<Rightarrow>
                Inr (\<lparr>PriKey = priKey, ShareKey = shareKey\<rparr>, committee, poolP, coreP)))))"

text \<open>Up to its wait: the receiver is started, and every other member has still to answer.\<close>

definition initmempooltransmit :: "Booting \<Rightarrow> Booting outcome" where
  "initmempooltransmit b =
     bind_outcome (listen_addr (Committee_MempoolAddress (bCommittee b) (bName b))) (\<lambda>addr.
       Ret (b\<lparr>bReceivers := bReceivers b @ [addr],
              bPoint := MempoolWait (Committee_MempoolBroadCast (bCommittee b) (bName b))\<rparr>))"

text \<open>\<^verbatim>\<open>Consensus\<close> up to its wait, and after it.\<close>

definition Consensus :: "Booting \<Rightarrow> Mempool \<Rightarrow> Booting outcome" where
  "Consensus b mempool =
     bind_outcome (listen_addr (Committee_Address (bCommittee b) (bName b))) (\<lambda>addr.
       Ret (b\<lparr>bReceivers := bReceivers b @ [addr],
              bPoint := ConsensusWait mempool (Committee_BroadCast (bCommittee b) (bName b))\<rparr>))"

definition Consensus_online :: "('b consensus_env_scheme) \<Rightarrow> Booting \<Rightarrow> Mempool \<Rightarrow> Booting" where
  "Consensus_online E b mempool =
     b\<lparr>bPoint := Booted (Core_start E (NewCore (bName b) (bCommittee b) (bParameters b) (bSig b) mempool))\<rparr>"

definition NewNode ::
  "('a boot_env_scheme) \<Rightarrow> filesystem \<Rightarrow> logger_state
   \<Rightarrow> string \<Rightarrow> string \<Rightarrow> string \<Rightarrow> string \<Rightarrow> string \<Rightarrow> string \<Rightarrow> Level \<Rightarrow> int \<Rightarrow> (go_error + Booting) outcome" where
  "NewNode B fs lg keysFile tssKeyFile committeeFile parametersFile storePath logPath logLevel nodeID =
     bind_outcome (log_config B lg logPath logLevel nodeID) (\<lambda>lg.
     bind_outcome (read_config B fs keysFile tssKeyFile committeeFile parametersFile) (\<lambda>r.
       case r of
         Inl e \<Rightarrow> Ret (Inl e)
       | Inr (sigService, committee, poolP, coreP) \<Rightarrow>
           bind_outcome (NewPool poolP (Committee_Size committee) nodeID) (\<lambda>txpool.
           bind_outcome (case open_db B storePath of
                           Some e \<Rightarrow> Panic (error_text e)
                         | None \<Rightarrow> Ret (NewStore NewDefaultNutsDB)) (\<lambda>store.
           bind_outcome (initmempooltransmit
               \<lparr>bName = nodeID, bCommittee = committee, bParameters = coreP, bSig = sigService, bStore = store,
                bTxPool = txpool, bLogs = lg, bReceivers = [], bPorts = {}, bPoint = MempoolWait []\<rparr>) (\<lambda>b.
             Ret (Inr b))))))"

text \<open>\<^verbatim>\<open>AnalyzeBlock\<close> takes the signals of the committor from the channel and drops them.\<close>

fun AnalyzeBlock :: "unit list \<Rightarrow> unit list" where
  "AnalyzeBlock [] = []"
| "AnalyzeBlock (_ # commitChannel) = AnalyzeBlock commitChannel"

section \<open>The command line\<close>

datatype command =
    KeysCmd string int
  | ThresholdKeysCmd string int int
  | RunCmd string string string string string string Level int
  | DeployCmd int

text \<open>What a command leaves: the files, and the node it is starting.\<close>

definition main :: "('a boot_env_scheme) \<Rightarrow> filesystem \<Rightarrow> command \<Rightarrow> (filesystem \<times> Booting option) outcome" where
  "main B fs cmd =
     (case cmd of
        KeysCmd path nodes \<Rightarrow> bind_outcome (GenerateKeyFiles B fs nodes path) (\<lambda>fs. Ret (fs, None))
      | ThresholdKeysCmd path N T \<Rightarrow> bind_outcome (GenerateTsKeyFiles B fs N T path) (\<lambda>fs. Ret (fs, None))
      | RunCmd keyFile tssKeyFile committeeFile parametersFile storePath logPath loglevel nodeID \<Rightarrow>
          bind_outcome (NewNode B fs logger_init keyFile tssKeyFile committeeFile parametersFile storePath logPath
                   loglevel nodeID) (\<lambda>r.
            case r of Inl e \<Rightarrow> Panic (error_text e) | Inr node \<Rightarrow> Ret (fs, Some node))
      | DeployCmd nodes \<Rightarrow> Ret (fs, None))"

section \<open>Processes\<close>

text \<open>A command that has been issued, a node that is starting or running, and a process that has ended in a panic.\<close>

datatype process =
    Issued command
  | Running Booting
  | Crashed string

definition after_panic :: "Booting outcome \<Rightarrow> process" where
  "after_panic r = (case r of Ret b \<Rightarrow> Running b | Panic e \<Rightarrow> Crashed e)"

text \<open>
  The steps of a process on the machine \<open>h\<close>, where \<open>occ\<close> are the sockets in use: the command runs to
  its first wait; a receiver binds its port (\<^verbatim>\<open>Receiver.Run\<close>; a failure is a panic, which ends the
  process); an address that is waited for answers; a wait is over.
\<close>

inductive process_step ::
  "('a boot_env_scheme) \<Rightarrow> ('b consensus_env_scheme) \<Rightarrow> filesystem \<Rightarrow> string \<Rightarrow> sockets \<Rightarrow> process \<Rightarrow> process \<Rightarrow> bool"
  for B E fs h occ where
  launches: "main B fs cmd = Ret (fs', Some b) \<Longrightarrow> process_step B E fs h occ (Issued cmd) (Running b)"
| launch_panics: "main B fs cmd = Panic e \<Longrightarrow> process_step B E fs h occ (Issued cmd) (Crashed e)"
| listens: "addr \<in> set (bReceivers b) \<Longrightarrow> net_Listen B h occ addr = Inr q \<Longrightarrow>
    process_step B E fs h occ (Running b)
      (Running (b\<lparr>bReceivers := remove1 addr (bReceivers b), bPorts := insert q (bPorts b)\<rparr>))"
| listen_fails: "addr \<in> set (bReceivers b) \<Longrightarrow> net_Listen B h occ addr = Inl e \<Longrightarrow>
    process_step B E fs h occ (Running b) (Crashed (error_text e))"
| mempool_answers: "bPoint b = MempoolWait missing \<Longrightarrow> a \<in> set missing \<Longrightarrow> net_Dial B occ a \<Longrightarrow>
    process_step B E fs h occ (Running b) (Running (b\<lparr>bPoint := MempoolWait (remove1 a missing)\<rparr>))"
| mempool_online: "bPoint b = MempoolWait [] \<Longrightarrow>
    process_step B E fs h occ (Running b)
      (after_panic (Consensus b (NewMempool (bName b) (bCommittee b) (bParameters b) (bSig b) (bStore b) (bTxPool b))))"
| consensus_answers: "bPoint b = ConsensusWait m missing \<Longrightarrow> a \<in> set missing \<Longrightarrow> net_Dial B occ a \<Longrightarrow>
    process_step B E fs h occ (Running b) (Running (b\<lparr>bPoint := ConsensusWait m (remove1 a missing)\<rparr>))"
| consensus_online: "bPoint b = ConsensusWait m [] \<Longrightarrow>
    process_step B E fs h occ (Running b) (Running (Consensus_online E b m))"

text \<open>The ports of a process are open as long as it runs.\<close>

fun open_ports :: "process \<Rightarrow> int set" where
  "open_ports (Running b) = bPorts b"
| "open_ports _ = {}"

text \<open>
  Processes on one machine that otherwise only has the sockets \<open>taken\<close>: any of them takes a step,
  facing the sockets of all.
\<close>

definition occupied :: "string \<Rightarrow> sockets \<Rightarrow> process list \<Rightarrow> sockets" where
  "occupied h taken ps = taken \<union> Pair h ` \<Union> (open_ports ` set ps)"

inductive machine_step ::
  "('a boot_env_scheme) \<Rightarrow> ('b consensus_env_scheme) \<Rightarrow> filesystem \<Rightarrow> string \<Rightarrow> sockets \<Rightarrow> process list \<Rightarrow> process list \<Rightarrow> bool"
  for B E fs h taken where
  runs: "i < length ps \<Longrightarrow> process_step B E fs h (occupied h taken ps) (ps ! i) p \<Longrightarrow>
    machine_step B E fs h taken ps (ps[i := p])"

section \<open>Facts\<close>

text \<open>The kinds of log in the order of their bits.\<close>

abbreviation log_kinds :: "string list" where
  "log_kinds \<equiv> [''info'', ''debug'', ''error'', ''warn'']"

lemma log_config_returns:
  assumes "logger_inv lg"
  shows "log_config B lg logPath logLevel nodeID = Ret lg' \<Longrightarrow> i < 4 \<Longrightarrow>
      log_at lg' i = (if bit logLevel i then File (log_name logPath (log_kinds ! i) nodeID) else Discard)"
    and "(\<exists>lg'. log_config B lg logPath logLevel nodeID = Ret lg') \<longleftrightarrow>
      list_all (\<lambda>kind. open_log B (log_name logPath kind nodeID) = None) log_kinds"
    and "log_config B lg logPath logLevel nodeID = Ret lg' \<Longrightarrow> logger_inv lg'"
proof -
  let ?name = "\<lambda>kind. log_name logPath kind nodeID"
  define lgs where "lgs = SetOutput (SetOutput (SetOutput (SetOutput lg InfoLevel (File (?name ''info'')))
      DebugLevel (File (?name ''debug''))) WarnLevel (File (?name ''warn''))) ErrorLevel (File (?name ''error''))"
  have eq: "log_config B lg logPath logLevel nodeID = Ret lg' \<longleftrightarrow>
      list_all (\<lambda>kind. open_log B (?name kind) = None) log_kinds \<and> lg' = SetLevel lgs logLevel" for lg'
    by (auto simp: log_config_def NewFileWriter_def lgs_def split: option.splits)
  have inv: "logger_inv lgs" using assms by (simp add: lgs_def)
  have out: "out lgs ! i = File (?name (log_kinds ! i))" if "i < 4" for i
  proof -
    have four: "i = 0 \<or> i = 1 \<or> i = 2 \<or> i = 3" using that by auto
    have bits: "bit (1 :: int) i = (i = 0)" "bit (2 :: int) i = (i = 1)" "bit (4 :: int) i = (i = 2)" "bit (8 :: int) i = (i = 3)"
      using four by (auto simp: bit_iff_odd)
    show ?thesis using that assms four by (auto simp: lgs_def SetOutput_effect bits)
  qed
  show "log_at lg' i = (if bit logLevel i then File (?name (log_kinds ! i)) else Discard)"
    if "log_config B lg logPath logLevel nodeID = Ret lg'" "i < 4"
    using that eq SetLevel_effect [OF inv, of i logLevel] out by simp
  show "(\<exists>lg'. log_config B lg logPath logLevel nodeID = Ret lg') \<longleftrightarrow>
      list_all (\<lambda>kind. open_log B (?name kind) = None) log_kinds"
    by (simp add: eq)
  show "logger_inv lg'" if "log_config B lg logPath logLevel nodeID = Ret lg'" using that eq inv by simp
qed

lemma NewNode_returns:
  assumes "log_config B lg lp lv nid = Ret lg'" and "open_db B sp = None"
    and "read_config B fs kf tf cf pf = Ret (Inr (sg, cm, pp, cp))" and "NewPool pp (Committee_Size cm) nid = Ret txs"
    and "listen_addr (Committee_MempoolAddress cm nid) = Ret addr"
  shows "NewNode B fs lg kf tf cf pf sp lp lv nid = Ret (Inr
    \<lparr>bName = nid, bCommittee = cm, bParameters = cp, bSig = sg, bStore = NewStore NewDefaultNutsDB, bTxPool = txs,
     bLogs = lg', bReceivers = [addr], bPorts = {}, bPoint = MempoolWait (Committee_MempoolBroadCast cm nid)\<rparr>)"
  using assms by (simp add: NewNode_def initmempooltransmit_def)

end
