(* ===== verification/Invariants.thy ===== *)
theory Invariants
  imports Node "HOL-Library.Sublist"
begin

text \<open>
  The invariants of a node, each an interpretation of \<open>core_invariant\<close>: what it sends is signed
  by itself, a locked broadcast instance has its block, Done and coin shares go out once per
  round, first-phase proposals once per round, halted epochs are past, commits are in epoch
  order and never retracted, the mempool keeps its bounds.
\<close>

lemmas core_effects =
  core_self_def core_send_def core_go_def core_commit_def getSpbInstance_def Let_def

lemma invokeDoneAndShare_same [simp]:
  "Epoch (invokeDoneAndShare E c e r) = Epoch c"
  "HaltFlags (invokeDoneAndShare E c e r) = HaltFlags c"
  "cCommitor (invokeDoneAndShare E c e r) = cCommitor c"
  "cMempool (invokeDoneAndShare E c e r) = cMempool c"
  "SPbInstances (invokeDoneAndShare E c e r) = SPbInstances c"
  "Tasks (invokeDoneAndShare E c e r) = Tasks c"
  "cName (invokeDoneAndShare E c e r) = cName c"
  "cSigService (invokeDoneAndShare E c e r) = cSigService c"
  "cCommittee (invokeDoneAndShare E c e r) = cCommittee c"
  "cAggreator (invokeDoneAndShare E c e r) = cAggreator c"
  "cElector (invokeDoneAndShare E c e r) = cElector c"
  by (simp_all add: invokeDoneAndShare_def hasDone_def core_effects)

section \<open>Epochs\<close>

definition epoch_inv :: "Core \<Rightarrow> bool" where
  "epoch_inv c \<longleftrightarrow> 0 \<le> Epoch c \<and> (\<forall>e \<in> HaltFlags c. e < Epoch c \<or> 2 ^ 63 - 1 \<le> e)"

lemma i64_succ: "0 \<le> e \<Longrightarrow> e < 2 ^ 63 - 1 \<Longrightarrow> i64 (e + 1) = e + 1"
  by (rule i64_id) auto

interpretation epochs: core_invariant E epoch_inv "\<lambda>_ _ _. True" for E
proof
  fix c e
  assume "epoch_inv c" and "Epoch c \<le> e" and "i64 (e + 1) \<le> Epoch c"
  then show "epoch_inv (c\<lparr>HaltFlags := insert e (HaltFlags c)\<rparr>)"
    using i64_succ [of e] by (force simp: epoch_inv_def)
next
  fix c e
  assume "epoch_inv c" and "Epoch c \<le> e" and "Epoch c < i64 (e + 1)"
  then show "epoch_inv (c\<lparr>HaltFlags := insert e (HaltFlags c), Epoch := i64 (e + 1)\<rparr>) \<and> True"
    using i64_succ [of e] by (force simp: epoch_inv_def)
qed (auto simp: epoch_inv_def core_effects split: option.split)

text \<open>Epochs only grow, halted epochs stay halted.\<close>

interpretation growing: core_invariant E "\<lambda>c. k \<le> Epoch c \<and> H \<subseteq> HaltFlags c" "\<lambda>_ _ _. True" for E k H
  by unfold_locales (auto simp: core_effects split: option.split)

section \<open>Commits\<close>

lemma commit_next_prefix: "prefix cs (commitCh c) \<Longrightarrow> prefix cs (commitCh (commit_next c b))"
  by (simp add: commit_next_def)

lemma commit_loop_prefix: "prefix cs (commitCh c) \<Longrightarrow> prefix cs (commitCh (commit_loop c))"
  by (induction c rule: commit_loop.induct)
    (subst commit_loop.simps, auto simp: commit_next_prefix split: option.split)

lemma Committor_Commit_prefix:
  "prefix cs (commitCh c) \<Longrightarrow> prefix cs (commitCh (Committor_Commit c b))"
  by (auto simp: Committor_Commit_def intro!: commit_loop_prefix)

interpretation commits: core_invariant E "\<lambda>c. prefix cs (commitCh (cCommitor c))" "\<lambda>_ _ _. True" for E cs
  by unfold_locales (auto simp: core_effects Committor_Commit_prefix split: option.split)

lemma Committor_Commit_appends:
  assumes "cbEpoch b = Index c"
  shows "prefix (commitCh c @ [b]) (commitCh (Committor_Commit c b))"
proof -
  let ?c = "c\<lparr>Blocks := AList.update (cbEpoch b) b (Blocks c)\<rparr>"
  have "map_of (Blocks ?c) (Index ?c) = Some b" using assms by (simp add: update_conv')
  then have "commit_loop ?c = commit_loop (commit_next ?c b)" by (subst commit_loop.simps) simp
  then have "Committor_Commit c b = commit_loop (commit_next ?c b)" using assms by (simp add: Committor_Commit_def)
  then show ?thesis by (simp add: commit_loop_prefix commit_next_def)
qed

text \<open>The epochs of the committed blocks, with the wrap-around of the index.\<close>

definition order_inv :: "Committor \<Rightarrow> bool" where
  "order_inv c \<longleftrightarrow>
     map cbEpoch (commitCh c) = map (i64 \<circ> int) [0..<length (commitCh c)] \<and>
     Index c = i64 (int (length (commitCh c))) \<and>
     (\<forall>e \<in> set (Blocks c). cbEpoch (snd e) = fst e)"

lemma commit_loop_order: "order_inv c \<Longrightarrow> order_inv (commit_loop c)"
proof (induction c rule: commit_loop.induct)
  case (1 c)
  show ?case
  proof (cases "map_of (Blocks c) (Index c)")
    case None
    with 1 show ?thesis by (simp add: commit_loop.simps)
  next
    case (Some b)
    from map_of_SomeD [OF this] 1(2) have "cbEpoch b = i64 (int (length (commitCh c)))"
      by (auto simp: order_inv_def)
    moreover have "i64 (Index c + 1) = i64 (int (length (commitCh c @ [b])))"
      using 1(2) i64_add_left [of "int (length (commitCh c))" 1] by (simp add: order_inv_def add.commute)
    ultimately have "order_inv (commit_next c b)"
      using 1(2) by (auto simp: order_inv_def commit_next_def AList.delete_eq)
    with 1(1) Some show ?thesis by (subst commit_loop.simps) simp
  qed
qed

lemma set_update_subset:
  "set (AList.update k v xs) \<subseteq> insert (k, v) (set xs)"
  by (induction xs) auto

lemma Committor_Commit_order: "order_inv c \<Longrightarrow> order_inv (Committor_Commit c b)"
  using set_update_subset [of "cbEpoch b" b "Blocks c"]
  by (fastforce simp: Committor_Commit_def order_inv_def [of "c\<lparr>Blocks := _\<rparr>"] order_inv_def [of c]
      intro!: commit_loop_order)

interpretation order: core_invariant E "\<lambda>c. order_inv (cCommitor c)" "\<lambda>_ _ _. True" for E
  by unfold_locales (auto simp: core_effects Committor_Commit_order split: option.split)

section \<open>Signatures\<close>

definition sent_own :: "('a consensus_env_scheme) \<Rightarrow> Core \<Rightarrow> bool" where
  "sent_own E c \<longleftrightarrow> (\<forall>m \<in> set (Sent c). own E c (Msg m))"

lemma own_cong: "cName c' = cName c \<Longrightarrow> cSigService c' = cSigService c \<Longrightarrow> own E c' = own E c"
  by (simp add: own_def fun_eq_iff)

lemma sent_own_send: "sent_own E c \<Longrightarrow> own E c m \<Longrightarrow> sent_own E (core_send c to m)"
  by (auto simp: sent_own_def core_send_def Transmitor_Send_def own_def)

lemma sent_own_share: "sent_own E c \<Longrightarrow> sent_own E (invokeDoneAndShare E c e r)"
proof -
  assume I: "sent_own E c"
  have "own E c (MElectShare (case NewElectShare E (cName c) e r (cSigService c) of
      Inl _ \<Rightarrow> None | Inr x \<Rightarrow> Some x))"
    by (auto simp: own_def dest: NewElectShare_Inr NewElectShare_Inl split: sum.split)
  moreover note own_New(4) [of E c e r]
  ultimately show ?thesis using I
    by (auto simp: invokeDoneAndShare_def hasDone_def core_effects sent_own_def Transmitor_Send_def own_def)
qed

interpretation signed: core_invariant E "sent_own E" "\<lambda>_ _ _. True" for E
  by unfold_locales
    (auto simp: sent_own_share sent_own_send, auto simp: sent_own_def own_def core_effects split: option.split)

section \<open>Addresses\<close>

text \<open>The addresses of everything sent are chosen by the transmitter of the node.\<close>

definition addressed_by :: "Committee \<Rightarrow> NodeID \<Rightarrow> message NetMessage \<Rightarrow> bool" where
  "addressed_by c n nm \<longleftrightarrow> (\<exists>to. nm = Transmitor_Send c n to (Msg nm))"

lemma addressed_by_send [simp]: "addressed_by c n (Transmitor_Send c n to m)"
  by (auto simp: addressed_by_def Transmitor_Send_def)

interpretation addressed: core_invariant E "\<lambda>c. \<forall>nm \<in> set (Sent c). addressed_by (cCommittee c) (cName c) nm" "\<lambda>_ _ _. True" for E
  by unfold_locales (auto simp: core_effects invokeDoneAndShare_def hasDone_def split: option.split)

section \<open>Once per round\<close>

definition count :: "('m \<Rightarrow> bool) \<Rightarrow> 'm list \<Rightarrow> nat" where
  "count P ms = length (filter P ms)"

lemma count_simps [simp]:
  "count P [] = 0"
  "count P (ms @ ms') = count P ms + count P ms'"
  "count P (m # ms) = (if P m then 1 else 0) + count P ms"
  by (simp_all add: count_def)

lemma count_one:
  assumes "count P ms \<le> 1" and "x \<in> set ms" and "y \<in> set ms" and "P x" and "P y"
  shows "x = y"
proof -
  have "x \<in> set (filter P ms)" "y \<in> set (filter P ms)" using assms(2-5) by simp_all
  then show ?thesis using assms(1) by (cases "filter P ms") (auto simp: count_def)
qed

fun done_of :: "int \<Rightarrow> int \<Rightarrow> message \<Rightarrow> bool" where
  "done_of e r (MDone d) \<longleftrightarrow> dEpoch d = e \<and> dRound d = r"
| "done_of e r _ \<longleftrightarrow> False"

fun share_of :: "int \<Rightarrow> int \<Rightarrow> message \<Rightarrow> bool" where
  "share_of e r (MElectShare (Some s)) \<longleftrightarrow> eEpoch s = e \<and> eRound s = r"
| "share_of e r _ \<longleftrightarrow> False"

fun proposal_of :: "int \<Rightarrow> int \<Rightarrow> message \<Rightarrow> bool" where
  "proposal_of e r (MProposal p) \<longleftrightarrow> pPhase p = SPB_ONE_PHASE \<and> pEpoch p = e \<and> pRound p = r"
| "proposal_of e r _ \<longleftrightarrow> False"

lemma plain_not_counted: "plain m \<Longrightarrow> \<not> done_of e r m \<and> \<not> share_of e r m \<and> \<not> proposal_of e r m"
  by (cases m) auto

definition flag_count :: "(int \<rightharpoonup> (int \<rightharpoonup> unit)) \<Rightarrow> int \<Rightarrow> int \<Rightarrow> nat" where
  "flag_count flags e r = (if get2 flags e r = None then 0 else 1)"

lemma flag_count_init2 [simp]: "flag_count (init2 flags e) = flag_count flags"
  by (simp add: flag_count_def fun_eq_iff)

definition done_ok :: "message list \<Rightarrow> (int \<rightharpoonup> (int \<rightharpoonup> unit)) \<Rightarrow> bool" where
  "done_ok ms flags \<longleftrightarrow> (\<forall>e r.
     count (done_of e r) ms = flag_count flags e r \<and> count (share_of e r) ms \<le> flag_count flags e r)"

lemma done_ok_init2 [simp]: "done_ok ms (init2 flags e) = done_ok ms flags"
  by (simp add: done_ok_def)

lemma done_ok_other:
  "done_ok ms flags \<Longrightarrow> (\<And>e r. \<not> done_of e r m \<and> \<not> share_of e r m) \<Longrightarrow> done_ok (ms @ [m]) flags"
  by (simp add: done_ok_def)

lemma done_ok_share:
  assumes ok: "done_ok ms flags" and none: "get2 flags e r = None" and "dEpoch d = e" and "dRound d = r"
    and share: "\<And>s. share = Some s \<Longrightarrow> eEpoch s = e \<and> eRound s = r"
  shows "done_ok (ms @ [MDone d, MElectShare share]) (put2 (init2 flags e) e r ())"
proof -
  have counts: "count (done_of e' r') ms = flag_count flags e' r'"
    "count (share_of e' r') ms \<le> flag_count flags e' r'" for e' r'
    using ok by (simp_all add: done_ok_def)
  have "count (done_of e' r') [MDone d, MElectShare share] = (if e' = e \<and> r' = r then 1 else 0)"
    and "count (share_of e' r') [MDone d, MElectShare share] \<le> (if e' = e \<and> r' = r then 1 else 0)" for e' r'
    using assms(3,4) share by (cases share; auto)+
  note new = this
  have flags: "flag_count (put2 (init2 flags e) e r ()) e' r' =
      flag_count flags e' r' + (if e' = e \<and> r' = r then 1 else 0)" for e' r'
    using none by (simp add: flag_count_def)
  show ?thesis
    unfolding done_ok_def count_simps(2) flags counts(1) new(1)
    by (intro allI conjI refl add_mono counts(2) new(2))
qed

definition done_inv :: "Core \<Rightarrow> bool" where
  "done_inv c \<longleftrightarrow> done_ok (messages c) (DoneFlags c)"

lemma done_inv_share: "done_inv c \<Longrightarrow> done_inv (invokeDoneAndShare E c e r)"
proof -
  assume I: "done_inv c"
  show ?thesis
  proof (cases "get2 (DoneFlags c) e r")
    case None
    let ?d = "projr (NewDone E (cName c) e r (cSigService c))"
    let ?s = "case NewElectShare E (cName c) e r (cSigService c) of Inl _ \<Rightarrow> None | Inr x \<Rightarrow> Some x"
    have "done_ok (messages c @ [MDone ?d, MElectShare ?s]) (put2 (init2 (DoneFlags c) e) e r ())"
      using I None unfolding done_inv_def
      by (intro done_ok_share) (auto dest: NewElectShare_Inr split: sum.splits)
    with None show ?thesis
      by (simp add: done_inv_def invokeDoneAndShare_def hasDone_def core_effects Transmitor_Send_def)
  next
    case (Some u)
    with I show ?thesis
      by (simp add: done_inv_def invokeDoneAndShare_def hasDone_def)
  qed
qed

interpretation dones: core_invariant E done_inv "\<lambda>_ _ _. True" for E
proof
  fix c m to
  assume "done_inv c" and "plain m" and "own E c m"
  then show "done_inv (core_send c to m)"
    by (auto simp: done_inv_def plain_not_counted core_effects Transmitor_Send_def intro!: done_ok_other)
next
  fix c fv
  assume "done_inv c"
  then show "done_inv (core_send c NONE (MFinVote fv))"
    by (auto simp: done_inv_def core_effects Transmitor_Send_def intro!: done_ok_other)
next
  fix c e r b
  assume "done_inv c"
  then show "done_inv (core_send c NONE
      (MProposal (projr (NewSPBProposal E (cName c) (Some b) e r SPB_ONE_PHASE (cSigService c)))))"
    by (auto simp: done_inv_def core_effects Transmitor_Send_def intro!: done_ok_other)
qed (simp_all add: done_inv_share, simp_all add: done_inv_def core_effects split: option.split)

section \<open>Broadcast instances\<close>

text \<open>An instance that was not created yet counts as a new one.\<close>

definition spb_at :: "Core \<Rightarrow> spb_key \<Rightarrow> SPB" where
  "spb_at c k = (case k of (e, r, n) \<Rightarrow>
     case get3 (SPbInstances c) e r n of None \<Rightarrow> NewSPB e r n | Some s \<Rightarrow> s)"

definition tasks_at :: "Core \<Rightarrow> spb_key \<Rightarrow> spb_pc list" where
  "tasks_at c k = map snd (filter (\<lambda>t. fst t = k) (Tasks c))"

definition broadcasts_safe :: "Core \<Rightarrow> bool" where
  "broadcasts_safe c \<longleftrightarrow> (\<forall>k. spb_safe (spb_at c k) (tasks_at c k))"

lemma broadcasts_safe_cong:
  "spb_at c' = spb_at c \<Longrightarrow> Tasks c' = Tasks c \<Longrightarrow> broadcasts_safe c' = broadcasts_safe c"
  by (simp add: broadcasts_safe_def tasks_at_def)

lemma spb_at_inst [simp]: "spb_at (fst (getSpbInstance c e r n)) = spb_at c"
  by (auto simp: spb_at_def getSpbInstance_def Let_def fun_eq_iff split: option.splits)

lemma spb_at_put:
  "spb_at (c\<lparr>SPbInstances := put3 (SPbInstances c) e r n s, Tasks := ts\<rparr>) = (spb_at c)((e, r, n) := s)"
  by (auto simp: spb_at_def fun_eq_iff)

lemma broadcasts_safe_task:
  assumes safe: "broadcasts_safe c" and s: "get3 (SPbInstances c) e r n = Some s"
    and i: "i < length (Tasks c)" and t: "Tasks c ! i = ((e, r, n), pc)"
    and st: "spb_step E name cm sg s pc = Ret (s', outs, new)"
  shows "broadcasts_safe (c\<lparr>SPbInstances := put3 (SPbInstances c) e r n s',
     Tasks := take i (Tasks c) @ drop (Suc i) (Tasks c) @ map (Pair (e, r, n)) new\<rparr>)"
    (is "broadcasts_safe ?c'")
  unfolding broadcasts_safe_def
proof
  fix k
  have split: "Tasks c = take i (Tasks c) @ ((e, r, n), pc) # drop (Suc i) (Tasks c)"
    using id_take_nth_drop [OF i] t by simp
  have safe_k: "spb_safe (spb_at c k) (tasks_at c k)" using safe unfolding broadcasts_safe_def by blast
  show "spb_safe (spb_at ?c' k) (tasks_at ?c' k)"
  proof (cases "k = (e, r, n)")
    case True
    let ?rest = "map snd (filter (\<lambda>t. fst t = k) (take i (Tasks c) @ drop (Suc i) (Tasks c)))"
    have "tasks_at c k = map snd (filter (\<lambda>t. fst t = k)
        (take i (Tasks c) @ ((e, r, n), pc) # drop (Suc i) (Tasks c)))"
      unfolding tasks_at_def using split by (rule arg_cong)
    then have "set (tasks_at c k) = set (pc # ?rest)" using True by auto
    from spb_safe_perm [OF this] safe_k have "spb_safe (spb_at c k) (pc # ?rest)" by blast
    then have "spb_safe s (pc # ?rest)" using True s by (simp add: spb_at_def)
    from spb_step_safe [OF st this] have "spb_safe s' (?rest @ new)" .
    then show ?thesis using True by (simp add: spb_at_put tasks_at_def comp_def)
  next
    case False
    have "set (tasks_at ?c' k) \<subseteq> set (tasks_at c k)"
      using False by (auto simp: tasks_at_def dest: in_set_takeD in_set_dropD)
    with safe_k False show ?thesis by (auto simp: spb_safe_def spb_at_put)
  qed
qed

lemma broadcasts_safe_go:
  assumes "broadcasts_safe c" and "is_call pc"
  shows "broadcasts_safe (core_go c k pc)"
proof -
  have "tasks_at (core_go c k pc) k' = tasks_at c k' @ (if k' = k then [pc] else [])"
    and "spb_at (core_go c k pc) = spb_at c" for k'
    by (simp_all add: tasks_at_def core_go_def spb_at_def fun_eq_iff)
  with assms show ?thesis by (simp add: broadcasts_safe_def spb_safe_call del: split_paired_All)
qed

interpretation locked: core_invariant E broadcasts_safe "\<lambda>_ _ _. True" for E
proof
  fix c e r n s i pc s' outs new
  assume "broadcasts_safe c" and "get3 (SPbInstances c) e r n = Some s" and "i < length (Tasks c)"
    and "Tasks c ! i = ((e, r, n), pc)"
    and "spb_step E (cName c) (cCommittee c) (cSigService c) s pc = Ret (s', outs, new)"
  then show "broadcasts_safe (c\<lparr>SPbInstances := put3 (SPbInstances c) e r n s',
     Tasks := take i (Tasks c) @ drop (Suc i) (Tasks c) @ map (Pair (e, r, n)) new\<rparr>)"
    by (rule broadcasts_safe_task)
next
  fix c e r n
  assume "broadcasts_safe c"
  then show "broadcasts_safe (fst (getSpbInstance c e r n))"
    by (simp add: broadcasts_safe_cong [of "fst (getSpbInstance c e r n)" c])
qed (simp_all add: broadcasts_safe_go,
     simp_all add: broadcasts_safe_def tasks_at_def spb_at_def core_effects)

section \<open>The mempool\<close>

interpretation pool: core_invariant E "\<lambda>c. mempool_inv E (cMempool c)" "\<lambda>_ _ _. True" for E
  by unfold_locales (auto simp: core_effects mempool_grows_def split: option.split)

lemma reachable_mempool_inv:
  "core_reachable E name cm ps sg st txs c \<Longrightarrow> store_inv E st \<Longrightarrow> mempool_inv E (cMempool c)"
  by (erule pool.reachable_keep) (simp_all add: NewCore_def NewMempool_inv)

section \<open>Payloads of committed blocks\<close>

text \<open>The blocks the committor holds: those committed and those that wait for an earlier epoch.\<close>

definition held :: "Committor \<Rightarrow> ConsensusBlock set" where
  "held c = set (commitCh c) \<union> snd ` set (Blocks c)"

lemma commit_loop_held: "held (commit_loop c) \<subseteq> held c"
proof (induction c rule: commit_loop.induct)
  case (1 c)
  show ?case
  proof (cases "map_of (Blocks c) (Index c)")
    case None
    then show ?thesis by (simp add: commit_loop.simps)
  next
    case (Some b)
    have "held (commit_next c b) \<subseteq> held c"
      using map_of_SomeD [OF Some] by (force simp: held_def commit_next_def AList.delete_eq)
    with 1 [OF Some] Some show ?thesis by (subst commit_loop.simps) simp
  qed
qed

lemma Committor_Commit_held: "held (Committor_Commit c b) \<subseteq> insert b (held c)"
proof (cases "cbEpoch b < Index c")
  case True
  then show ?thesis by (auto simp: Committor_Commit_def)
next
  case False
  let ?c = "c\<lparr>Blocks := AList.update (cbEpoch b) b (Blocks c)\<rparr>"
  have "held ?c \<subseteq> insert b (held c)"
    using image_mono [OF set_update_subset [of "cbEpoch b" b "Blocks c"], of snd] by (auto simp: held_def)
  with commit_loop_held [of ?c] False show ?thesis by (auto simp: Committor_Commit_def)
qed

definition payloads_stored :: "('a consensus_env_scheme) \<Rightarrow> Core \<Rightarrow> bool" where
  "payloads_stored E c \<longleftrightarrow>
     mempool_inv E (cMempool c) \<and>
     (\<forall>b \<in> held (cCommitor c). \<forall>d \<in> set (cbPayLoads b). readable E (mStore (cMempool c)) d)"

lemma payloads_stored_commit:
  "payloads_stored E c \<Longrightarrow> \<forall>d \<in> set (cbPayLoads b). readable E (mStore (cMempool c)) d \<Longrightarrow>
    payloads_stored E (core_commit c b)"
  using Committor_Commit_held [of "cCommitor c" b] by (auto simp: payloads_stored_def core_commit_def)

interpretation stored: core_invariant E "payloads_stored E" "\<lambda>_ _ _. True" for E
proof
  fix c mp
  assume "payloads_stored E c" and "mempool_grows E (cMempool c) mp"
  then show "payloads_stored E (c\<lparr>cMempool := mp\<rparr>)" by (auto simp: payloads_stored_def mempool_grows_def)
qed (auto simp: payloads_stored_commit, auto simp: core_effects payloads_stored_def split: option.split)

section \<open>First-phase proposals\<close>

definition int64 :: "int \<Rightarrow> bool" where
  "int64 x \<longleftrightarrow> - (2 ^ 63) \<le> x \<and> x < 2 ^ 63"

lemma i64_succ_inj: "int64 x \<Longrightarrow> int64 y \<Longrightarrow> i64 (x + 1) = i64 (y + 1) \<Longrightarrow> x = y"
  using i64_add_left [of "x + 1" "- 1"] i64_add_left [of "y + 1" "- 1"] by (simp add: i64_id int64_def)

type_synonym finvotes = "int \<rightharpoonup> (int \<rightharpoonup> FinVoteAggreator)"

definition heard_finvotes :: "finvotes \<Rightarrow> int \<Rightarrow> int \<Rightarrow> nat" where
  "heard_finvotes fvs e r = card (fvaAuthors (counter_at fvs NewFinVoteAggreator e r))"

text \<open>The rounds that have a counter are 64-bit integers.\<close>

definition rounds_ok :: "finvotes \<Rightarrow> bool" where
  "rounds_ok fvs \<longleftrightarrow> (\<forall>e r. get2 fvs e r \<noteq> None \<longrightarrow> int64 r)"

text \<open>
  What entitles a node to a first-phase proposal: having entered the epoch, for round 0, or
  the decision of the final votes of the round before.
\<close>

definition round_decided :: "Committee \<Rightarrow> finvotes \<Rightarrow> int \<Rightarrow> int \<Rightarrow> bool" where
  "round_decided cm fvs e r \<longleftrightarrow> (\<exists>r0. int64 r0 \<and> i64 (r0 + 1) = r \<and> hi cm \<le> heard_finvotes fvs e r0)"

definition entitled :: "int \<Rightarrow> Committee \<Rightarrow> finvotes \<Rightarrow> int \<Rightarrow> int \<Rightarrow> nat" where
  "entitled ep cm fvs e r =
     (if r = 0 \<and> e \<le> ep then 1 else 0) + (if round_decided cm fvs e r then 1 else 0)"

definition proposal_ok :: "message list \<Rightarrow> int \<Rightarrow> Committee \<Rightarrow> finvotes \<Rightarrow> bool" where
  "proposal_ok ms ep cm fvs \<longleftrightarrow> rounds_ok fvs \<longrightarrow>
     (\<forall>e r f. get2 fvs e r = Some f \<longrightarrow> finvote_inv f) \<and>
     (\<forall>e r. count (proposal_of e r) ms \<le> entitled ep cm fvs e r)"

definition proposal_free :: "message list \<Rightarrow> int \<Rightarrow> Committee \<Rightarrow> finvotes \<Rightarrow> int \<Rightarrow> int \<Rightarrow> bool" where
  "proposal_free ms ep cm fvs e r \<longleftrightarrow> rounds_ok fvs \<longrightarrow> count (proposal_of e r) ms < entitled ep cm fvs e r"

lemma proposal_ok_other:
  "proposal_ok ms ep cm fvs \<Longrightarrow> (\<And>e r. \<not> proposal_of e r m) \<Longrightarrow> proposal_ok (ms @ [m]) ep cm fvs"
  by (simp add: proposal_ok_def)

lemma proposal_ok_propose:
  assumes "proposal_ok ms ep cm fvs" and "proposal_free ms ep cm fvs e r" and "pEpoch p = e" and "pRound p = r"
  shows "proposal_ok (ms @ [MProposal p]) ep cm fvs"
  using assms by (auto simp: proposal_ok_def proposal_free_def Suc_le_eq)

lemma entitled_epoch: "ep \<le> ep' \<Longrightarrow> entitled ep cm fvs e r \<le> entitled ep' cm fvs e r"
  by (simp add: entitled_def)

lemma proposal_ok_epoch: "proposal_ok ms ep cm fvs \<Longrightarrow> ep \<le> ep' \<Longrightarrow> proposal_ok ms ep' cm fvs"
  unfolding proposal_ok_def by (meson entitled_epoch order_trans)

lemma proposal_free_epoch:
  assumes "proposal_ok ms ep cm fvs" and "ep < ep'"
  shows "proposal_free ms ep' cm fvs ep' 0"
proof -
  have "entitled ep' cm fvs ep' 0 = Suc (entitled ep cm fvs ep' 0)"
    using assms(2) by (simp add: entitled_def)
  with assms(1) show ?thesis by (simp add: proposal_ok_def proposal_free_def less_Suc_eq_le)
qed

lemma not_decided_0: "heard_finvotes fvs e (- 1) < hi cm \<Longrightarrow> \<not> round_decided cm fvs e 0"
proof
  assume less: "heard_finvotes fvs e (- 1) < hi cm" and "round_decided cm fvs e 0"
  then obtain r0 where "int64 r0" "i64 (r0 + 1) = 0" "hi cm \<le> heard_finvotes fvs e r0"
    by (auto simp: round_decided_def)
  moreover have "int64 (- 1)" by (simp add: int64_def)
  moreover have "i64 (- 1 + 1) = 0" by (simp add: i64_def)
  ultimately have "r0 = - 1" and "hi cm \<le> heard_finvotes fvs e r0" using i64_succ_inj [of r0 "- 1"] by simp_all
  with less show False by simp
qed

text \<open>One more final vote.\<close>

lemma finvote_counted:
  assumes inv: "finvote_inv (counter_at fvs NewFinVoteAggreator e r)"
    and add: "FinVoteAggreator_Append cm (counter_at fvs NewFinVoteAggreator e r) v = (f, x)"
  shows "finvote_inv f" and "heard_finvotes fvs e r \<le> heard_finvotes (put2 fvs e r f) e r"
    and "x = Inr y \<Longrightarrow> y \<noteq> ACTION_NONE \<Longrightarrow>
      heard_finvotes fvs e r < hi cm \<and> heard_finvotes (put2 fvs e r f) e r = hi cm"
proof -
  let ?c = "counter_at fvs NewFinVoteAggreator e r"
  show f: "finvote_inv f" using finv.add_inv [OF inv, of cm v] add by simp
  have heard: "fvaAuthors f = insert (fvAuthor v) (fvaAuthors ?c)" using finv.heard_add [of cm ?c v] add by simp
  have fin: "finite (fvaAuthors ?c)" using inv by (simp add: finvote_inv_def)
  have new: "heard_finvotes (put2 fvs e r f) e r = card (fvaAuthors f)"
    by (simp add: heard_finvotes_def counter_at_def)
  have old: "heard_finvotes fvs e r = card (fvaAuthors ?c)" by (simp add: heard_finvotes_def)
  show "heard_finvotes fvs e r \<le> heard_finvotes (put2 fvs e r f) e r"
    unfolding new old heard by (simp add: card_insert_le)
  assume "x = Inr y" and "y \<noteq> ACTION_NONE"
  with add have a: "FinVoteAggreator_Append cm ?c v = (f, Inr y)" by simp
  have v: "fvAuthor v \<notin> fvaAuthors ?c" using finv.add_again_eq [of v ?c cm] a by auto
  from finv.add_fires [OF inv v a] \<open>y \<noteq> ACTION_NONE\<close> have "card (fvaAuthors f) = hi cm" by simp
  with v fin show "heard_finvotes fvs e r < hi cm \<and> heard_finvotes (put2 fvs e r f) e r = hi cm"
    unfolding new old by (simp add: heard)
qed

lemma rounds_ok_put2: "rounds_ok (put2 fvs e r f) \<longleftrightarrow> rounds_ok fvs \<and> int64 r"
  by (auto simp: rounds_ok_def)

lemma heard_other: "(e', r') \<noteq> (e, r) \<Longrightarrow> heard_finvotes (put2 fvs e r f) e' r' = heard_finvotes fvs e' r'"
  by (auto simp: heard_finvotes_def counter_at_def)

lemma counter_at_inv:
  "(\<And>f. get2 fvs e r = Some f \<Longrightarrow> finvote_inv f) \<Longrightarrow> finvote_inv (counter_at fvs NewFinVoteAggreator e r)"
  by (simp add: counter_at_def split: option.split)

lemma round_decided_mono:
  assumes "heard_finvotes fvs e0 r0 \<le> heard_finvotes (put2 fvs e0 r0 f) e0 r0" and "round_decided cm fvs e r"
  shows "round_decided cm (put2 fvs e0 r0 f) e r"
proof -
  from assms(2) obtain r1 where r1: "int64 r1" "i64 (r1 + 1) = r" "hi cm \<le> heard_finvotes fvs e r1"
    by (auto simp: round_decided_def)
  have "heard_finvotes fvs e r1 \<le> heard_finvotes (put2 fvs e0 r0 f) e r1"
    using assms(1) heard_other [of e r1 e0 r0 fvs f] by (cases "(e, r1) = (e0, r0)") auto
  with r1 show ?thesis unfolding round_decided_def by (intro exI [of _ r1]) simp
qed

lemma proposal_ok_finvote:
  assumes ok: "proposal_ok ms ep cm fvs"
    and add: "FinVoteAggreator_Append cm (counter_at fvs NewFinVoteAggreator e0 r0) v = (f, x)"
  shows "proposal_ok ms ep cm (put2 fvs e0 r0 f)"
    and "x = Inr y \<Longrightarrow> y \<noteq> ACTION_NONE \<Longrightarrow> proposal_free ms ep cm (put2 fvs e0 r0 f) e0 (i64 (r0 + 1))"
proof -
  have inv: "finvote_inv (counter_at fvs NewFinVoteAggreator e0 r0)" if "rounds_ok fvs"
    using ok that by (intro counter_at_inv) (simp add: proposal_ok_def)
  show "proposal_ok ms ep cm (put2 fvs e0 r0 f)"
    unfolding proposal_ok_def
  proof (intro impI conjI allI)
    assume r: "rounds_ok (put2 fvs e0 r0 f)"
    then have r': "rounds_ok fvs" by (simp add: rounds_ok_put2)
    note c = finvote_counted [OF inv [OF r'] add]
    show "finvote_inv g" if "get2 (put2 fvs e0 r0 f) e r = Some g" for e r g
      using that c(1) ok r' by (auto simp: proposal_ok_def split: if_splits)
    show "count (proposal_of e r) ms \<le> entitled ep cm (put2 fvs e0 r0 f) e r" for e r
    proof -
      have "count (proposal_of e r) ms \<le> entitled ep cm fvs e r" using ok r' by (simp add: proposal_ok_def)
      also have "\<dots> \<le> entitled ep cm (put2 fvs e0 r0 f) e r"
        using round_decided_mono [OF c(2), of cm e r] by (simp add: entitled_def)
      finally show ?thesis .
    qed
  qed
  assume x: "x = Inr y" and y: "y \<noteq> ACTION_NONE"
  show "proposal_free ms ep cm (put2 fvs e0 r0 f) e0 (i64 (r0 + 1))"
    unfolding proposal_free_def
  proof
    assume r: "rounds_ok (put2 fvs e0 r0 f)"
    then have r': "rounds_ok fvs" and r0: "int64 r0" by (simp_all add: rounds_ok_put2)
    from finvote_counted(3) [OF inv [OF r'] add x y]
    have old: "heard_finvotes fvs e0 r0 < hi cm" and new: "heard_finvotes (put2 fvs e0 r0 f) e0 r0 = hi cm"
      by simp_all
    have "\<not> round_decided cm fvs e0 (i64 (r0 + 1))"
      using old i64_succ_inj [OF _ r0] by (auto simp: round_decided_def not_le)
    moreover have "round_decided cm (put2 fvs e0 r0 f) e0 (i64 (r0 + 1))"
      using new r0 unfolding round_decided_def by (intro exI [of _ r0]) simp
    moreover have "count (proposal_of e0 (i64 (r0 + 1))) ms \<le> entitled ep cm fvs e0 (i64 (r0 + 1))"
      using ok r' by (simp add: proposal_ok_def)
    ultimately show "count (proposal_of e0 (i64 (r0 + 1))) ms <
        entitled ep cm (put2 fvs e0 r0 f) e0 (i64 (r0 + 1))" by (simp add: entitled_def)
  qed
qed

definition proposal_inv :: "Core \<Rightarrow> bool" where
  "proposal_inv c \<longleftrightarrow>
     proposal_ok (messages c) (Epoch c) (aCommittee (cAggreator c)) (finvoteAggreator (cAggreator c))"

definition may_propose :: "int \<Rightarrow> int \<Rightarrow> Core \<Rightarrow> bool" where
  "may_propose e r c \<longleftrightarrow>
     proposal_free (messages c) (Epoch c) (aCommittee (cAggreator c)) (finvoteAggreator (cAggreator c)) e r"

lemma AddFinVote_eq:
  assumes "AddFinVote a v = (a', x)"
  obtains f where
    "FinVoteAggreator_Append (aCommittee a)
       (counter_at (finvoteAggreator a) NewFinVoteAggreator (fvEpoch v) (fvRound v)) v = (f, x)"
    "finvoteAggreator a' = put2 (finvoteAggreator a) (fvEpoch v) (fvRound v) f"
    "aCommittee a' = aCommittee a"
  using assms by (auto simp: AddFinVote_def Let_def split: prod.splits)

lemma proposal_inv_share: "proposal_inv c \<Longrightarrow> proposal_inv (invokeDoneAndShare E c e r)"
  unfolding proposal_inv_def
  by (simp add: invokeDoneAndShare_def hasDone_def core_effects Transmitor_Send_def proposal_ok_def)

interpretation proposals: core_invariant E proposal_inv may_propose for E
proof
  fix c fv a x
  assume I: "proposal_inv c" and a: "AddFinVote (cAggreator c) fv = (a, x)"
  from a show "proposal_inv (c\<lparr>cAggreator := a\<rparr>)"
    by (rule AddFinVote_eq) (use I proposal_ok_finvote(1) in \<open>simp add: proposal_inv_def\<close>)
next
  fix c fv a f
  assume I: "proposal_inv c" and a: "AddFinVote (cAggreator c) fv = (a, Inr f)" and "f \<noteq> ACTION_NONE"
  from a show "may_propose (fvEpoch fv) (i64 (fvRound fv + 1)) (c\<lparr>cAggreator := a\<rparr>)"
    by (rule AddFinVote_eq)
      (use I \<open>f \<noteq> ACTION_NONE\<close> proposal_ok_finvote(2) in \<open>simp add: proposal_inv_def may_propose_def\<close>)
next
  fix c e
  assume "proposal_inv c" and "Epoch c < i64 (e + 1)"
  then show "proposal_inv (c\<lparr>HaltFlags := insert e (HaltFlags c), Epoch := i64 (e + 1)\<rparr>) \<and>
      may_propose (i64 (e + 1)) 0 (c\<lparr>HaltFlags := insert e (HaltFlags c), Epoch := i64 (e + 1)\<rparr>)"
    by (auto simp: proposal_inv_def may_propose_def intro: proposal_ok_epoch proposal_free_epoch)
next
  fix c e r b
  assume "proposal_inv c" and "may_propose e r c"
  then show "proposal_inv (core_send c NONE
      (MProposal (projr (NewSPBProposal E (cName c) (Some b) e r SPB_ONE_PHASE (cSigService c)))))"
    by (auto simp: proposal_inv_def may_propose_def core_effects Transmitor_Send_def intro!: proposal_ok_propose)
next
  fix c m to
  assume "proposal_inv c" and "plain m"
  then show "proposal_inv (core_send c to m)"
    by (auto simp: proposal_inv_def plain_not_counted core_effects Transmitor_Send_def intro!: proposal_ok_other)
next
  fix c fv
  assume "proposal_inv c"
  then show "proposal_inv (core_send c NONE (MFinVote fv))"
    by (auto simp: proposal_inv_def core_effects Transmitor_Send_def intro!: proposal_ok_other)
qed (simp_all add: proposal_inv_share,
     simp_all add: proposal_inv_def may_propose_def core_effects split: option.split)

section \<open>Constants of a node\<close>

interpretation identity: core_invariant E
    "\<lambda>c. cName c = name \<and> cSigService c = sg \<and> cCommittee c = cm \<and> aCommittee (cAggreator c) = cm"
    "\<lambda>_ _ _. True" for E name sg cm
  by unfold_locales (auto simp: core_effects AddFinVote_def split: option.split prod.splits)

interpretation electing: core_invariant E "\<lambda>c. elSigService (cElector c) = sg \<and> elCommittee (cElector c) = cm"
    "\<lambda>_ _ _. True" for E sg cm
  by unfold_locales (auto simp: core_effects same_keys_def split: option.split)

section \<open>Panics\<close>

lemma processLeader_no_panic:
  assumes "broadcasts_safe c"
  shows "processLeader E c e r \<noteq> Panic x"
proof -
  let ?c = "fst (core_Leader (fst (hasReady (fst (core_Leader c e r)) e r)) e r)"
  have "SPbInstances ?c = SPbInstances c"
    by (simp add: core_Leader_def hasReady_def case_prod_beta Let_def)
  then have at: "snd (getSpbInstance ?c e r n) = spb_at c (e, r, n)" for n
    by (simp add: getSpbInstance_def spb_at_def Let_def split: option.split)
  let ?l = "snd (core_Leader (fst (hasReady (fst (core_Leader c e r)) e r)) e r)"
  have "IsLock (spb_at c (e, r, ?l)) \<Longrightarrow> GetBlockHash (spb_at c (e, r, ?l)) \<noteq> None"
    using assms by (auto simp: broadcasts_safe_def spb_safe_def IsLock_def GetBlockHash_def simp del: split_paired_All)
  with at [of ?l] show ?thesis
    by (auto simp: processLeader_def case_prod_beta Let_def split: option.splits)
qed

lemma core_task_panics:
  assumes "broadcasts_safe c" and "i < length (Tasks c)" and "core_task E c i = Panic x"
  shows "\<exists>k p. Tasks c ! i = (k, PStart p) \<and> pPhase p = SPB_ONE_PHASE \<and> pB p = None"
proof -
  obtain e r n pc where t: "Tasks c ! i = ((e, r, n), pc)" by (cases "Tasks c ! i") auto
  let ?s = "snd (getSpbInstance c e r n)"
  have s: "?s = spb_at c (e, r, n)" by (simp add: getSpbInstance_def spb_at_def Let_def split: option.split)
  have "pc \<in> set (tasks_at c (e, r, n))"
    using nth_mem [OF assms(2)] t by (force simp: tasks_at_def)
  with assms(1) have safe: "spb_safe ?s [pc]"
    unfolding s broadcasts_safe_def by (auto simp: spb_safe_def simp del: split_paired_All)
  from assms(3) t obtain y where "spb_step E (cName c) (cCommittee c) (cSigService c) ?s pc = Panic y"
    by (auto simp: core_task_def case_prod_beta Let_def)
  from spb_step_panics [OF this safe] t show ?thesis by auto
qed

end
