(* ===== verification/Progress.thy ===== *)
theory Progress
  imports Invariants
begin

text \<open>
  Progress of a node: enough Finish or Done messages set off the next phase of the round, the
  prevotes counted determine the final votes, and the goroutines on broadcast instances always
  run to their end.
\<close>

section \<open>From votes to the next phase\<close>

text \<open>The authors heard for an epoch and round.\<close>

definition heard_finishes :: "Aggreator \<Rightarrow> int \<Rightarrow> int \<Rightarrow> NodeID set" where
  "heard_finishes a e r = faAuthors (counter_at (finishAggreator a) NewFinishAggreator e r)"

definition heard_dones :: "Aggreator \<Rightarrow> int \<Rightarrow> int \<Rightarrow> NodeID set" where
  "heard_dones a e r = daAuthors (counter_at (doneAggreator a) NewDoneAggreator e r)"

definition progress_at :: "Aggreator \<Rightarrow> int \<Rightarrow> int \<Rightarrow> unit option \<Rightarrow> unit option \<Rightarrow> bool" where
  "progress_at a e r is_done is_ready \<longleftrightarrow>
     finite (heard_finishes a e r) \<and> finite (heard_dones a e r) \<and>
     (hi (aCommittee a) \<le> card (heard_finishes a e r) \<or> lo (aCommittee a) \<le> card (heard_dones a e r) \<longrightarrow>
        is_done \<noteq> None) \<and>
     (lo (aCommittee a) \<noteq> hi (aCommittee a) \<and> hi (aCommittee a) \<le> card (heard_dones a e r) \<longrightarrow> is_ready \<noteq> None)"

definition progress_inv :: "Core \<Rightarrow> bool" where
  "progress_inv c \<longleftrightarrow>
     (\<forall>e r. progress_at (cAggreator c) e r (get2 (DoneFlags c) e r) (get2 (ReadyFlags c) e r))"

lemma AddFinishVote_cases:
  assumes "AddFinishVote a f = (a', x)"
  obtains item where
    "FinishAggreator_Append (aCommittee a) (counter_at (finishAggreator a) NewFinishAggreator (fEpoch f) (fRound f)) f
       = (item, x)"
    "a' = a\<lparr>finishAggreator := put2 (finishAggreator a) (fEpoch f) (fRound f) item\<rparr>"
  using assms by (auto simp: AddFinishVote_def Let_def split: prod.splits)

lemma AddDoneVote_cases:
  assumes "AddDoneVote a d = (a', x)"
  obtains item where
    "DoneAggreator_Append (aCommittee a) (counter_at (doneAggreator a) NewDoneAggreator (dEpoch d) (dRound d)) d
       = (item, x)"
    "a' = a\<lparr>doneAggreator := put2 (doneAggreator a) (dEpoch d) (dRound d) item\<rparr>"
  using assms by (auto simp: AddDoneVote_def Let_def split: prod.splits)

text \<open>What one more message does to what was heard, and when it sets off the next phase.\<close>

lemma AddFinishVote_heard:
  assumes "AddFinishVote a f = (a', x)"
  shows "aCommittee a' = aCommittee a" and "heard_dones a' = heard_dones a"
    and "e \<noteq> fEpoch f \<or> r \<noteq> fRound f \<Longrightarrow> heard_finishes a' e r = heard_finishes a e r"
    and "heard_finishes a' (fEpoch f) (fRound f) = insert (fAuthor f) (heard_finishes a (fEpoch f) (fRound f))"
    and "finite (heard_finishes a (fEpoch f) (fRound f)) \<Longrightarrow>
      x = Inr (card (heard_finishes a' (fEpoch f) (fRound f)) = hi (aCommittee a)) \<and>
        card (heard_finishes a' (fEpoch f) (fRound f)) = Suc (card (heard_finishes a (fEpoch f) (fRound f))) \<or>
      isl x \<and> heard_finishes a' (fEpoch f) (fRound f) = heard_finishes a (fEpoch f) (fRound f)"
proof -
  let ?i = "counter_at (finishAggreator a) NewFinishAggreator (fEpoch f) (fRound f)"
  from assms obtain item where i: "FinishAggreator_Append (aCommittee a) ?i f = (item, x)"
    and a': "a' = a\<lparr>finishAggreator := put2 (finishAggreator a) (fEpoch f) (fRound f) item\<rparr>"
    by (rule AddFinishVote_cases)
  show "aCommittee a' = aCommittee a" and "heard_dones a' = heard_dones a"
    by (simp_all add: a' heard_dones_def fun_eq_iff)
  show other: "e \<noteq> fEpoch f \<or> r \<noteq> fRound f \<Longrightarrow> heard_finishes a' e r = heard_finishes a e r" for e r
    by (auto simp: a' heard_finishes_def counter_at_def)
  have new: "heard_finishes a' (fEpoch f) (fRound f) = faAuthors item"
    by (simp add: a' heard_finishes_def counter_at_def)
  show "heard_finishes a' (fEpoch f) (fRound f) = insert (fAuthor f) (heard_finishes a (fEpoch f) (fRound f))"
    unfolding new using finc.heard_add [of "aCommittee a" ?i f] i by (simp add: heard_finishes_def)
  assume "finite (heard_finishes a (fEpoch f) (fRound f))"
  then show "x = Inr (card (heard_finishes a' (fEpoch f) (fRound f)) = hi (aCommittee a)) \<and>
        card (heard_finishes a' (fEpoch f) (fRound f)) = Suc (card (heard_finishes a (fEpoch f) (fRound f))) \<or>
      isl x \<and> heard_finishes a' (fEpoch f) (fRound f) = heard_finishes a (fEpoch f) (fRound f)"
    using i unfolding new by (auto simp: FinishAggreator_Append_def Let_def HightThreshold_hi heard_finishes_def split: if_splits)
qed

lemma AddDoneVote_heard:
  assumes "AddDoneVote a d = (a', x)"
  shows "aCommittee a' = aCommittee a" and "heard_finishes a' = heard_finishes a"
    and "e \<noteq> dEpoch d \<or> r \<noteq> dRound d \<Longrightarrow> heard_dones a' e r = heard_dones a e r"
    and "heard_dones a' (dEpoch d) (dRound d) = insert (dAuthor d) (heard_dones a (dEpoch d) (dRound d))"
    and "finite (heard_dones a (dEpoch d) (dRound d)) \<Longrightarrow>
      card (heard_dones a' (dEpoch d) (dRound d)) = Suc (card (heard_dones a (dEpoch d) (dRound d))) \<and>
        x = Inr (if card (heard_dones a' (dEpoch d) (dRound d)) = lo (aCommittee a) then DONE_LOW_FLAG
                 else if card (heard_dones a' (dEpoch d) (dRound d)) = hi (aCommittee a) then DONE_HIGH_FLAG
                 else DONE_NONE_FLAG) \<or>
      isl x \<and> heard_dones a' (dEpoch d) (dRound d) = heard_dones a (dEpoch d) (dRound d)"
proof -
  let ?i = "counter_at (doneAggreator a) NewDoneAggreator (dEpoch d) (dRound d)"
  from assms obtain item where i: "DoneAggreator_Append (aCommittee a) ?i d = (item, x)"
    and a': "a' = a\<lparr>doneAggreator := put2 (doneAggreator a) (dEpoch d) (dRound d) item\<rparr>"
    by (rule AddDoneVote_cases)
  show "aCommittee a' = aCommittee a" and "heard_finishes a' = heard_finishes a"
    by (simp_all add: a' heard_finishes_def fun_eq_iff)
  show other: "e \<noteq> dEpoch d \<or> r \<noteq> dRound d \<Longrightarrow> heard_dones a' e r = heard_dones a e r" for e r
    by (auto simp: a' heard_dones_def counter_at_def)
  have new: "heard_dones a' (dEpoch d) (dRound d) = daAuthors item"
    by (simp add: a' heard_dones_def counter_at_def)
  show "heard_dones a' (dEpoch d) (dRound d) = insert (dAuthor d) (heard_dones a (dEpoch d) (dRound d))"
    unfolding new using donelo.heard_add [of "aCommittee a" ?i d] i by (simp add: heard_dones_def)
  assume "finite (heard_dones a (dEpoch d) (dRound d))"
  then show "card (heard_dones a' (dEpoch d) (dRound d)) = Suc (card (heard_dones a (dEpoch d) (dRound d))) \<and>
        x = Inr (if card (heard_dones a' (dEpoch d) (dRound d)) = lo (aCommittee a) then DONE_LOW_FLAG
                 else if card (heard_dones a' (dEpoch d) (dRound d)) = hi (aCommittee a) then DONE_HIGH_FLAG
                 else DONE_NONE_FLAG) \<or>
      isl x \<and> heard_dones a' (dEpoch d) (dRound d) = heard_dones a (dEpoch d) (dRound d)"
    using i unfolding new
    by (auto simp: DoneAggreator_Append_def Let_def HightThreshold_hi LowThreshold_lo heard_dones_def split: if_splits)
qed

text \<open>The flags that the effects leave alone.\<close>

lemma invokeDoneAndShare_flags [simp]:
  "ReadyFlags (invokeDoneAndShare E c e r) = ReadyFlags c"
  "get2 (DoneFlags (invokeDoneAndShare E c e r)) e' r' =
     (if e' = e \<and> r' = r then Some () else get2 (DoneFlags c) e' r')"
  by (auto simp: invokeDoneAndShare_def hasDone_def core_effects)

lemma handleFinish_below:
  assumes "\<not> messgaeFilter c (fEpoch f)" and "finite (heard_finishes (cAggreator c) (fEpoch f) (fRound f))"
  shows "heard_finishes (cAggreator (fst (handleFinish E c f))) (fEpoch f) (fRound f) =
      insert (fAuthor f) (heard_finishes (cAggreator c) (fEpoch f) (fRound f))"
    and "card (insert (fAuthor f) (heard_finishes (cAggreator c) (fEpoch f) (fRound f))) < hi (aCommittee (cAggreator c)) \<Longrightarrow>
      RecvCh (fst (handleFinish E c f)) = RecvCh c"
    and "Epoch (fst (handleFinish E c f)) = Epoch c"
proof -
  obtain a x where a: "AddFinishVote (cAggreator c) f = (a, x)" by fastforce
  note h = AddFinishVote_heard(4) [OF a] AddFinishVote_heard(5) [OF a assms(2)]
  show "heard_finishes (cAggreator (fst (handleFinish E c f))) (fEpoch f) (fRound f) =
      insert (fAuthor f) (heard_finishes (cAggreator c) (fEpoch f) (fRound f))"
    "Epoch (fst (handleFinish E c f)) = Epoch c"
    using assms(1) a h by (auto simp: handleFinish_def Let_def split: sum.split)
  assume "card (insert (fAuthor f) (heard_finishes (cAggreator c) (fEpoch f) (fRound f))) < hi (aCommittee (cAggreator c))"
  with assms(1) a h show "RecvCh (fst (handleFinish E c f)) = RecvCh c"
    by (auto simp: handleFinish_def Let_def split: sum.split)
qed

lemma handleFinish_progress:
  assumes "progress_inv c"
  shows "progress_inv (fst (handleFinish E c f))"
proof -
  obtain a x where a: "AddFinishVote (cAggreator c) f = (a, x)" by fastforce
  note h = AddFinishVote_heard [OF a]
  have at: "progress_at (cAggreator c) e r (get2 (DoneFlags c) e r) (get2 (ReadyFlags c) e r)" for e r
    using assms by (simp add: progress_inv_def)
  then have fin: "finite (heard_finishes (cAggreator c) (fEpoch f) (fRound f))" by (simp add: progress_at_def)
  have all: "progress_at a e r (if x = Inr True \<and> e = fEpoch f \<and> r = fRound f then Some () else get2 (DoneFlags c) e r)
      (get2 (ReadyFlags c) e r)" for e r
  proof (cases "e = fEpoch f \<and> r = fRound f")
    case True
    with at [of e r] h(1,2,4) h(5) [OF fin] show ?thesis by (auto simp: progress_at_def le_Suc_eq)
  next
    case False
    then have "heard_finishes a e r = heard_finishes (cAggreator c) e r" by (intro h(3)) auto
    with False at [of e r] h(1,2) show ?thesis by (simp add: progress_at_def)
  qed
  show ?thesis
  proof (cases "messgaeFilter c (fEpoch f)")
    case True
    with assms show ?thesis by (simp add: handleFinish_def)
  next
    case False
    show ?thesis
      unfolding progress_inv_def
    proof (intro allI)
      fix e r
      from False a all [of e r] show "progress_at (cAggreator (fst (handleFinish E c f))) e r
          (get2 (DoneFlags (fst (handleFinish E c f))) e r) (get2 (ReadyFlags (fst (handleFinish E c f))) e r)"
        by (cases x) (auto simp: handleFinish_def Let_def)
    qed
  qed
qed

lemma processLeader_flags:
  assumes "processLeader E c e r = Ret c'"
  shows "cAggreator c' = cAggreator c \<and> DoneFlags c' = DoneFlags c \<and> get2 (ReadyFlags c') e' r' = get2 (ReadyFlags c) e' r'"
  using assms
  by (auto simp: processLeader_def core_Leader_def hasReady_def core_broadcast_def core_effects case_prod_beta
      split: if_splits option.splits)

lemma handleDone_progress:
  assumes "progress_inv c" and "handleDone E c d = Ret (c', y)"
  shows "progress_inv c'"
proof -
  obtain a x where a: "AddDoneVote (cAggreator c) d = (a, x)" by fastforce
  note h = AddDoneVote_heard [OF a]
  have at: "progress_at (cAggreator c) e r (get2 (DoneFlags c) e r) (get2 (ReadyFlags c) e r)" for e r
    using assms by (simp add: progress_inv_def)
  then have fin: "finite (heard_dones (cAggreator c) (dEpoch d) (dRound d))" by (simp add: progress_at_def)
  have all: "progress_at a e r
      (if x = Inr DONE_LOW_FLAG \<and> e = dEpoch d \<and> r = dRound d then Some () else get2 (DoneFlags c) e r)
      (if x = Inr DONE_HIGH_FLAG \<and> e = dEpoch d \<and> r = dRound d then Some () else get2 (ReadyFlags c) e r)" for e r
  proof (cases "e = dEpoch d \<and> r = dRound d")
    case True
    with at [of e r] h(1,2,4) h(5) [OF fin] show ?thesis by (auto simp: progress_at_def le_Suc_eq)
  next
    case False
    then have "heard_dones a e r = heard_dones (cAggreator c) e r" by (intro h(3)) auto
    with False at [of e r] h(1,2) show ?thesis by (auto simp: progress_at_def)
  qed
  show ?thesis
  proof (cases "messgaeFilter c (dEpoch d)")
    case True
    with assms show ?thesis by (simp add: handleDone_def)
  next
    case False
    show ?thesis
      unfolding progress_inv_def
    proof (intro allI)
      fix e r
      from False a assms(2) all [of e r]
      show "progress_at (cAggreator c') e r (get2 (DoneFlags c') e r) (get2 (ReadyFlags c') e r)"
        by (cases x) (auto simp: handleDone_def Let_def dest!: processLeader_flags [where e' = e and r' = r] split: if_splits)
    qed
  qed
qed

text \<open>The other handlers leave these counters and flags alone.\<close>

definition progress_view ::
  "Core \<Rightarrow> (int \<rightharpoonup> (int \<rightharpoonup> FinishAggreator)) \<times> (int \<rightharpoonup> (int \<rightharpoonup> DoneAggreator)) \<times> Committee \<times>
     (int \<rightharpoonup> (int \<rightharpoonup> unit)) \<times> (int \<rightharpoonup> (int \<rightharpoonup> unit))" where
  "progress_view c = (finishAggreator (cAggreator c), doneAggreator (cAggreator c), aCommittee (cAggreator c),
     DoneFlags c, ReadyFlags c)"

lemma progress_inv_view: "progress_view c' = progress_view c \<Longrightarrow> progress_inv c' = progress_inv c"
  by (simp add: progress_view_def progress_inv_def progress_at_def heard_finishes_def heard_dones_def)

lemma handlePrevote_view: "progress_view (fst (handlePrevote E c pv)) = progress_view c"
  by (auto simp: handlePrevote_def AddPreVote_def core_broadcast_def core_effects progress_view_def case_prod_beta
      split: sum.split)

lemma advanceNextRound_view: "progress_view (fst (advanceNextRound E c e r fl h)) = progress_view c"
  by (auto simp: advanceNextRound_def propose_def generatorBlock_def core_broadcast_def core_effects progress_view_def
      case_prod_beta split: sum.split option.split)

lemma handleFinvote_view: "progress_view (fst (handleFinvote E c fv)) = progress_view c"
proof -
  obtain a x where a: "AddFinVote (cAggreator c) fv = (a, x)" by fastforce
  then have "progress_view (c\<lparr>cAggreator := a\<rparr>) = progress_view c"
    by (auto simp: AddFinVote_def progress_view_def Let_def split: prod.splits)
  moreover have "progress_view (core_broadcast c' m) = progress_view c'" for c' m
    by (simp add: progress_view_def core_broadcast_def core_effects)
  ultimately show ?thesis
    using a by (simp add: handleFinvote_def advanceNextRound_view Let_def split: sum.split)
qed

interpretation progress: core_closed E progress_inv "\<lambda>_ _ _. True" for E
proof
  show "progress_inv c \<Longrightarrow> progress_inv (fst (handleFinish E c f))" for c f
    by (rule handleFinish_progress)
  show "progress_inv c \<Longrightarrow> handleDone E c d = Ret (c', x) \<Longrightarrow> progress_inv c'" for c d c' x
    by (rule handleDone_progress)
  show "progress_inv c \<Longrightarrow> progress_inv (fst (handlePrevote E c pv))" for c pv
    by (simp add: progress_inv_view [OF handlePrevote_view])
  show "progress_inv c \<Longrightarrow> progress_inv (fst (handleFinvote E c fv))" for c fv
    by (simp add: progress_inv_view [OF handleFinvote_view])
qed (auto simp: progress_inv_def core_effects split: option.split)

lemma NewCore_progress: "progress_inv (NewCore name cm ps sg m)"
  using hi_pos [of cm] lo_pos [of cm]
  by (simp add: progress_inv_def progress_at_def heard_finishes_def heard_dones_def counter_at_def NewCore_def
      NewAggreator_def NewFinishAggreator_def NewDoneAggreator_def)

section \<open>Final votes\<close>

text \<open>The flags of the final votes sent for a round, in order.\<close>

fun final_flag :: "int \<Rightarrow> int \<Rightarrow> message \<Rightarrow> int list" where
  "final_flag e r (MFinVote v) = (if fvEpoch v = e \<and> fvRound v = r then [fvFlag v] else [])"
| "final_flag e r _ = []"

definition final_flags :: "int \<Rightarrow> int \<Rightarrow> message list \<Rightarrow> int list" where
  "final_flags e r ms = concat (map (final_flag e r) ms)"

lemma final_flags_simps [simp]:
  "final_flags e r [] = []"
  "final_flags e r (m # ms) = final_flag e r m @ final_flags e r ms"
  "final_flags e r (ms @ ms') = final_flags e r ms @ final_flags e r ms'"
  by (simp_all add: final_flags_def)

lemma final_flag_plain: "plain m \<Longrightarrow> final_flag e r m = []"
  by (cases m) simp_all

lemma in_final_flags: "MFinVote v \<in> set ms \<Longrightarrow> fvFlag v \<in> set (final_flags (fvEpoch v) (fvRound v) ms)"
  by (induction ms) auto

text \<open>The counter of prevotes of a round, and the final votes it accounts for.\<close>

definition heard_prevotes :: "Aggreator \<Rightarrow> int \<Rightarrow> int \<Rightarrow> PreVoteAggreator" where
  "heard_prevotes a e r = counter_at (prevoteAggreator a) NewPrevoteAggreator e r"

definition votes_match :: "Committee \<Rightarrow> PreVoteAggreator \<Rightarrow> int list \<Rightarrow> bool" where
  "votes_match cm p flags \<longleftrightarrow>
     prevote_inv p \<and>
     (if pvaFlag p then flags = [VOTE_FLAG_YES] \<or> HightThreshold cm \<le> pvaNoNums p \<and> flags = [VOTE_FLAG_NO, VOTE_FLAG_YES]
      else flags = (if HightThreshold cm \<le> pvaNoNums p then [VOTE_FLAG_NO] else []))"

definition finals_inv :: "Core \<Rightarrow> bool" where
  "finals_inv c \<longleftrightarrow>
     (\<forall>e r. votes_match (aCommittee (cAggreator c)) (heard_prevotes (cAggreator c) e r) (final_flags e r (messages c)))"

lemma votes_match_Append:
  assumes "votes_match cm p flags" and "PreVoteAggreator_Append cm p v = (p', x)"
  shows "votes_match cm p' (flags @
    (if x = Inr ACTION_NO then [VOTE_FLAG_NO] else if x = Inr ACTION_YES then [VOTE_FLAG_YES] else []))"
proof (cases "pvAuthor v \<in> pvaAuthors p")
  case True
  with assms PreVoteAggreator_Append_again [OF True, of cm] show ?thesis by auto
next
  case False
  have inv: "prevote_inv p" using assms(1) by (simp add: votes_match_def)
  have "prevote_inv p'" using PreVoteAggreator_Append_inv [OF inv, of cm v] assms(2) by simp
  then show ?thesis
    using assms unfolding PreVoteAggreator_Append_first [OF False inv]
    by (cases "pvaFlag p"; cases "pvFlag v = VOTE_FLAG_NO") (auto simp: votes_match_def split: if_splits)
qed

lemma handlePrevote_finals:
  assumes "finals_inv c"
  shows "finals_inv (fst (handlePrevote E c pv))"
proof -
  let ?p = "heard_prevotes (cAggreator c) (pvEpoch pv) (pvRound pv)"
  obtain p' x where p': "PreVoteAggreator_Append (aCommittee (cAggreator c)) ?p pv = (p', x)" by fastforce
  then have a: "AddPreVote (cAggreator c) pv =
      ((cAggreator c)\<lparr>prevoteAggreator := put2 (prevoteAggreator (cAggreator c)) (pvEpoch pv) (pvRound pv) p'\<rparr>, x)"
    by (simp add: AddPreVote_def heard_prevotes_def)
  have at: "votes_match (aCommittee (cAggreator c)) (heard_prevotes (cAggreator c) e r) (final_flags e r (messages c))" for e r
    using assms by (simp add: finals_inv_def)
  show ?thesis
  proof (cases "messgaeFilter c (pvEpoch pv)")
    case True
    with assms show ?thesis by (simp add: handlePrevote_def)
  next
    case False
    let ?c = "fst (handlePrevote E c pv)"
    have agg: "cAggreator ?c =
        (cAggreator c)\<lparr>prevoteAggreator := put2 (prevoteAggreator (cAggreator c)) (pvEpoch pv) (pvRound pv) p'\<rparr>"
      using False a by (simp add: handlePrevote_def core_broadcast_def core_effects split: sum.split)
    have sent: "final_flags e r (messages ?c) = final_flags e r (messages c) @
        (if e = pvEpoch pv \<and> r = pvRound pv then
           if x = Inr ACTION_NO then [VOTE_FLAG_NO] else if x = Inr ACTION_YES then [VOTE_FLAG_YES] else []
         else [])" for e r
      using False a by (auto simp: handlePrevote_def core_broadcast_def core_self_def Let_def split: sum.split)
    show ?thesis
      unfolding finals_inv_def
    proof (intro allI)
      fix e r
      show "votes_match (aCommittee (cAggreator ?c)) (heard_prevotes (cAggreator ?c) e r) (final_flags e r (messages ?c))"
      proof (cases "e = pvEpoch pv \<and> r = pvRound pv")
        case True
        then show ?thesis
          using votes_match_Append [OF at p'] by (simp add: agg sent heard_prevotes_def counter_at_def)
      next
        case False
        then have "heard_prevotes (cAggreator ?c) e r = heard_prevotes (cAggreator c) e r"
          by (auto simp: agg heard_prevotes_def counter_at_def)
        with False at [of e r] show ?thesis by (auto simp: agg sent)
      qed
    qed
  qed
qed

text \<open>The other handlers neither count prevotes nor send final votes.\<close>

definition final_view :: "Core \<Rightarrow> (int \<rightharpoonup> (int \<rightharpoonup> PreVoteAggreator)) \<times> Committee \<times> (int \<Rightarrow> int \<Rightarrow> int list)" where
  "final_view c = (prevoteAggreator (cAggreator c), aCommittee (cAggreator c), \<lambda>e r. final_flags e r (messages c))"

lemma finals_inv_view: "final_view c' = final_view c \<Longrightarrow> finals_inv c' = finals_inv c"
  unfolding finals_inv_def heard_prevotes_def by (simp add: final_view_def) metis

lemma final_view_effects [simp]:
  "(\<And>e r. final_flag e r m = []) \<Longrightarrow> final_view (core_broadcast c m) = final_view c"
  "final_view (invokeDoneAndShare E c e r) = final_view c"
  "final_view (c\<lparr>ReadyFlags := rf\<rparr>) = final_view c" "final_view (c\<lparr>FinishFlags := ff\<rparr>) = final_view c"
  "final_view (c\<lparr>cElector := el\<rparr>) = final_view c" "final_view (c\<lparr>cMempool := mp\<rparr>) = final_view c"
  "final_view (fst (getSpbInstance c e r n)) = final_view c"
  by (simp_all add: final_view_def core_broadcast_def invokeDoneAndShare_def hasDone_def core_effects Transmitor_Send_def
      split: option.split)

lemma processLeader_final: "processLeader E c e r = Ret c' \<Longrightarrow> final_view c' = final_view c"
  by (auto simp: processLeader_def core_Leader_def hasReady_def case_prod_beta Let_def split: if_splits option.splits)

lemma handleFinish_final: "final_view (fst (handleFinish E c f)) = final_view c"
  by (auto simp: handleFinish_def AddFinishVote_def case_prod_beta Let_def split: sum.split)
    (simp_all add: final_view_def)

lemma handleDone_final:
  assumes "handleDone E c d = Ret (c', x)"
  shows "final_view c' = final_view c"
proof -
  obtain a y where a: "AddDoneVote (cAggreator c) d = (a, y)" by fastforce
  then have "final_view (c\<lparr>cAggreator := a\<rparr>) = final_view c"
    by (auto simp: AddDoneVote_def final_view_def Let_def split: prod.splits)
  with assms a show ?thesis
    by (auto simp: handleDone_def Let_def dest!: processLeader_final split: if_splits sum.splits)
qed

lemma advanceNextRound_final: "final_view (fst (advanceNextRound E c e r fl h)) = final_view c"
  by (auto simp: advanceNextRound_def propose_def generatorBlock_def case_prod_beta Let_def split: sum.split option.split)

lemma handleFinvote_final: "final_view (fst (handleFinvote E c fv)) = final_view c"
proof -
  obtain a x where a: "AddFinVote (cAggreator c) fv = (a, x)" by fastforce
  then have "final_view (c\<lparr>cAggreator := a\<rparr>) = final_view c"
    by (auto simp: AddFinVote_def final_view_def Let_def split: prod.splits)
  with a show ?thesis by (simp add: handleFinvote_def advanceNextRound_final Let_def split: sum.split)
qed

interpretation finals: core_closed E finals_inv "\<lambda>_ _ _. True" for E
proof
  show "finals_inv c \<Longrightarrow> finals_inv (fst (handleFinish E c f))" for c f
    by (simp add: finals_inv_view [OF handleFinish_final])
  show "finals_inv c \<Longrightarrow> handleDone E c d = Ret (c', x) \<Longrightarrow> finals_inv c'" for c d c' x
    by (simp add: finals_inv_view [OF handleDone_final])
  show "finals_inv c \<Longrightarrow> finals_inv (fst (handlePrevote E c pv))" for c pv
    by (rule handlePrevote_finals)
  show "finals_inv c \<Longrightarrow> finals_inv (fst (handleFinvote E c fv))" for c fv
    by (simp add: finals_inv_view [OF handleFinvote_final])
  show "finals_inv c \<Longrightarrow> plain m \<Longrightarrow> own E c m \<Longrightarrow> finals_inv (core_send c to m)" for c m to
    by (simp add: finals_inv_def core_effects Transmitor_Send_def final_flag_plain)
qed (auto simp: finals_inv_def core_effects Transmitor_Send_def split: option.split)

lemma NewCore_finals: "finals_inv (NewCore name cm ps sg m)"
  using hi_pos [of cm]
  by (simp add: finals_inv_def votes_match_def heard_prevotes_def counter_at_def prevote_inv_def NewCore_def
      NewAggreator_def NewPrevoteAggreator_def HightThreshold_hi)

section \<open>Goroutines come to an end\<close>

text \<open>One step of some goroutine, and the measure that it decreases.\<close>

definition goroutine_step :: "('a consensus_env_scheme) \<Rightarrow> Core \<Rightarrow> Core \<Rightarrow> bool" where
  "goroutine_step E c c' \<longleftrightarrow> (\<exists>i < length (Tasks c). core_task E c i = Ret c')"

definition tasks_drains :: "Core \<Rightarrow> nat" where
  "tasks_drains c = sum_list (map (pc_drains \<circ> snd) (Tasks c))"

definition tasks_weight :: "Core \<Rightarrow> nat" where
  "tasks_weight c = sum_list (map (pc_weight \<circ> snd) (Tasks c))"

lemma Tasks_out [simp]: "Tasks (foldl core_out c outs) = Tasks c"
  by (induction outs arbitrary: c) (simp_all add: core_out_def core_effects split: spb_out.split)

lemma sum_list_split:
  fixes f :: "'x \<Rightarrow> nat"
  assumes "i < length xs"
  shows "sum_list (map f xs) = f (xs ! i) + sum_list (map f (take i xs @ drop (Suc i) xs))"
proof -
  have "sum_list (map f xs) = sum_list (map f (take i xs @ xs ! i # drop (Suc i) xs))"
    using id_take_nth_drop [OF assms] by (rule arg_cong)
  then show ?thesis by simp
qed

lemma goroutine_decreases:
  assumes "broadcasts_safe c" and "goroutine_step E c c'"
  shows "(c', c) \<in> measures [tasks_drains, tasks_weight]"
proof -
  from assms(2) obtain i where i: "i < length (Tasks c)" and h: "core_task E c i = Ret c'"
    by (auto simp: goroutine_step_def)
  obtain e r n pc where t: "Tasks c ! i = ((e, r, n), pc)" by (cases "Tasks c ! i") auto
  obtain c1 s where c1: "getSpbInstance c e r n = (c1, s)" by fastforce
  then have same: "Tasks c1 = Tasks c" and s: "s = spb_at c (e, r, n)"
    by (auto simp: getSpbInstance_def spb_at_def Let_def split: option.splits)
  from h t c1 obtain s' outs new where
    st: "spb_step E (cName c1) (cCommittee c1) (cSigService c1) s pc = Ret (s', outs, new)" and
    tasks: "Tasks c' = take i (Tasks c) @ drop (Suc i) (Tasks c) @ map (Pair (e, r, n)) new"
    by (auto simp: core_task_def same)
  have "pc \<in> set (tasks_at c (e, r, n))" using nth_mem [OF i] t by (force simp: tasks_at_def)
  with assms(1) have "spb_safe s [pc]"
    unfolding s broadcasts_safe_def by (auto simp: spb_safe_def simp del: split_paired_All)
  from spb_step_decreases [OF st this] show ?thesis
    using sum_list_split [OF i, of "pc_drains \<circ> snd"] sum_list_split [OF i, of "pc_weight \<circ> snd"] t
    by (auto simp: tasks_drains_def tasks_weight_def tasks comp_def)
qed

lemma goroutine_steps_safe: "broadcasts_safe c \<Longrightarrow> goroutine_step E c c' \<Longrightarrow> broadcasts_safe c'"
  using locked.runs_task [of c _ E c'] by (auto simp: goroutine_step_def)

lemma goroutines_accp:
  assumes "broadcasts_safe c"
  shows "Wellfounded.accp (\<lambda>c'' c'. goroutine_step E c' c'') c"
  using wf_measures [of "[tasks_drains, tasks_weight]"] assms
proof (induction c rule: wf_induct_rule)
  case (less c)
  show ?case
  proof (rule accp.accI)
    fix c'
    assume "goroutine_step E c c'"
    with less show "Wellfounded.accp (\<lambda>c'' c'. goroutine_step E c' c'') c'"
      using goroutine_decreases goroutine_steps_safe by blast
  qed
qed

text \<open>What is left when nothing can run: calls that panic.\<close>

definition nil_block_call :: "spb_pc \<Rightarrow> bool" where
  "nil_block_call pc \<longleftrightarrow> (\<exists>p. pc = PStart p \<and> pPhase p = SPB_ONE_PHASE \<and> pB p = None)"

lemma stuck_tasks:
  assumes "broadcasts_safe c" and "\<not> (\<exists>c'. goroutine_step E c c')"
  shows "list_all (nil_block_call \<circ> snd) (Tasks c)"
proof (clarsimp simp: list_all_length)
  fix i
  assume i: "i < length (Tasks c)"
  with assms(2) obtain x where "core_task E c i = Panic x"
    by (cases "core_task E c i") (auto simp: goroutine_step_def)
  from core_task_panics [OF assms(1) i this] show "nil_block_call (snd (Tasks c ! i))"
    by (auto simp: nil_block_call_def)
qed

lemma goroutines_run_out:
  assumes "broadcasts_safe c"
  shows "\<exists>c'. (goroutine_step E)\<^sup>*\<^sup>* c c' \<and> list_all (nil_block_call \<circ> snd) (Tasks c')"
  using wf_measures [of "[tasks_drains, tasks_weight]"] assms
proof (induction c rule: wf_induct_rule)
  case (less c)
  show ?case
  proof (cases "\<exists>c'. goroutine_step E c c'")
    case True
    then obtain c' where c': "goroutine_step E c c'" by blast
    from less.IH [OF goroutine_decreases [OF less.prems c'] goroutine_steps_safe [OF less.prems c']]
    obtain c'' where "(goroutine_step E)\<^sup>*\<^sup>* c' c''" "list_all (nil_block_call \<circ> snd) (Tasks c'')" by blast
    with c' show ?thesis by (meson converse_rtranclp_into_rtranclp)
  next
    case False
    with stuck_tasks [OF less.prems] show ?thesis by blast
  qed
qed

section \<open>Reachable states\<close>

lemma reachable_broadcasts_safe: "core_reachable E name cm ps sg st txs c \<Longrightarrow> broadcasts_safe c"
  by (erule locked.reachable_keep)
    (simp_all add: broadcasts_safe_def spb_safe_def spb_at_def tasks_at_def NewCore_def NewSPB_def)

lemma reachable_done_inv: "core_reachable E name cm ps sg st txs c \<Longrightarrow> done_inv c"
  by (erule dones.reachable_keep) (simp_all add: done_inv_def done_ok_def flag_count_def NewCore_def)

lemma reachable_progress:
  assumes "core_reachable E name cm ps sg st txs c"
  shows "progress_at (cAggreator c) e r (get2 (DoneFlags c) e r) (get2 (ReadyFlags c) e r)"
proof -
  have "progress_inv c" by (rule progress.reachable_keep [OF assms]) (simp_all add: NewCore_progress)
  then show ?thesis by (simp add: progress_inv_def)
qed

lemma reachable_finals:
  assumes "core_reachable E name cm ps sg st txs c" and "aCommittee (cAggreator c) = cm"
  shows "votes_match cm (heard_prevotes (cAggreator c) e r) (final_flags e r (messages c))"
proof -
  have "finals_inv c" by (rule finals.reachable_keep [OF assms(1)]) (simp_all add: NewCore_finals)
  with assms(2) show ?thesis by (simp add: finals_inv_def)
qed

lemma reachable_heard_finite:
  assumes "core_reachable E name cm ps sg st txs c"
  shows "finite (heard_finishes (cAggreator c) e r)" and "finite (heard_dones (cAggreator c) e r)"
  using reachable_progress [OF assms, of e r] by (simp_all add: progress_at_def)

lemma counted_quorum:
  assumes "core_reachable E name cm ps sg st txs c" and "aCommittee (cAggreator c) = cm"
    and "hi cm \<le> card (heard_finishes (cAggreator c) e r) \<or> lo cm \<le> card (heard_dones (cAggreator c) e r)"
  shows "count (done_of e r) (messages c) = 1"
    and "lo cm = hi cm \<or> card (heard_dones (cAggreator c) e r) < hi cm \<or> get2 (ReadyFlags c) e r = Some ()"
proof -
  note at = reachable_progress [OF assms(1), of e r]
  then show "lo cm = hi cm \<or> card (heard_dones (cAggreator c) e r) < hi cm \<or> get2 (ReadyFlags c) e r = Some ()"
    using assms(2) by (auto simp: progress_at_def)
  have "get2 (DoneFlags c) e r \<noteq> None" using at assms(2,3) by (auto simp: progress_at_def)
  moreover have "count (done_of e r) (messages c) = flag_count (DoneFlags c) e r"
    using reachable_done_inv [OF assms(1)] by (simp add: done_inv_def done_ok_def)
  ultimately show "count (done_of e r) (messages c) = 1" by (simp add: flag_count_def)
qed

end
