(* ===== verification/Executions.thy ===== *)
theory Executions
  imports Progress
begin

text \<open>
  Executions of a node with a log: the messages its main loop took from the receive channel and
  the conclusions it drew from final votes. The counters of final votes are a function of the
  logged votes, which carries the agreement of counts over to the executions of two nodes.
\<close>

section \<open>Logged executions\<close>

text \<open>The conclusion drawn when \<open>m\<close> is taken: epoch, round and action.\<close>

definition verdict ::
  "('a consensus_env_scheme) \<Rightarrow> Core \<Rightarrow> message \<Rightarrow> (int \<times> int \<times> int) list" where
  "verdict E c m =
     (case m of
        MFinVote fv \<Rightarrow>
          if message_Verify E (cCommittee c) m = Ret True \<and> \<not> messgaeFilter c (fvEpoch fv) then
            map (\<lambda>a. (fvEpoch fv, fvRound fv, a)) (decisions [snd (AddFinVote (cAggreator c) fv)])
          else []
      | _ \<Rightarrow> [])"

inductive core_log ::
  "('a consensus_env_scheme) \<Rightarrow> Core \<Rightarrow> message list \<Rightarrow> (int \<times> int \<times> int) list \<Rightarrow> Core \<Rightarrow> bool"
  for E :: "'a consensus_env_scheme" and c0 :: Core where
  start: "core_log E c0 [] [] c0"
| receive: "core_log E c0 ms ds c \<Longrightarrow> RecvCh c = m # rest \<Longrightarrow>
    Core_dispatch E (c\<lparr>RecvCh := rest\<rparr>) m = Ret (c', x) \<Longrightarrow>
    core_log E c0 (ms @ [m]) (ds @ verdict E c m) c'"
| internal: "core_log E c0 ms ds c \<Longrightarrow> core_local E c c' \<Longrightarrow> core_log E c0 ms ds c'"

text \<open>The log says nothing about which states are reached.\<close>

lemma core_log_iff: "(\<exists>ms ds. core_log E c0 ms ds c) \<longleftrightarrow> (core_step E)\<^sup>*\<^sup>* c0 c"
proof
  assume "\<exists>ms ds. core_log E c0 ms ds c"
  then obtain ms ds where "core_log E c0 ms ds c" by blast
  then show "(core_step E)\<^sup>*\<^sup>* c0 c"
    by induction (auto intro: rtranclp.rtrancl_into_rtrancl core_step.intros)
next
  assume "(core_step E)\<^sup>*\<^sup>* c0 c"
  then show "\<exists>ms ds. core_log E c0 ms ds c"
    by induction (auto elim!: core_step.cases intro: core_log.intros)
qed

section \<open>Counters of final votes\<close>

interpretation counted: core_frame E "\<lambda>c. cAggreator c = a" "\<lambda>_ _ _. True" for E a
  by unfold_locales (auto simp: core_effects split: option.split)

lemma dispatch_other:
  assumes "Core_dispatch E c m = Ret (c', x)" and "\<forall>fv. m \<noteq> MFinVote fv"
  shows "finvoteAggreator (cAggreator c') = finvoteAggreator (cAggreator c)"
proof -
  from assms(1) obtain valid where v: "message_Verify E (cCommittee c) m = Ret valid"
    by (auto simp: Core_dispatch_def)
  note d = assms(1) [unfolded Core_dispatch_def v bind_outcome.simps]
  show ?thesis
  proof (cases valid)
    case False
    with d show ?thesis by simp
  next
    case True
    show ?thesis
    proof (cases m)
      case (MProposal p)
      with d True counted.handles_proposal [of c "cAggreator c" E p c' x] show ?thesis by simp
    next
      case (MVote v)
      with d True counted.handles_vote [of c "cAggreator c" v] show ?thesis by auto
    next
      case (MHalt h)
      with d True counted.handles_halt [of c "cAggreator c" E h c' x] show ?thesis by simp
    next
      case (MElectShare s)
      with d True counted.handles_share [of c "cAggreator c" E _ c' x] show ?thesis
        by (cases s) simp_all
    next
      case (MFinVote fv)
      with assms(2) show ?thesis by simp
    qed (use d True in \<open>auto simp: handleFinish_def handlePrevote_def handleDone_def AddFinishVote_def AddPreVote_def
        AddDoneVote_def core_broadcast_def core_effects case_prod_beta dest!: processLeader_flags
        split: if_splits sum.splits\<close>)
  qed
qed

lemma dispatch_finvote:
  assumes "Core_dispatch E c (MFinVote fv) = Ret (c', x)"
  shows "finvoteAggreator (cAggreator c') =
    (if message_Verify E (cCommittee c) (MFinVote fv) = Ret True \<and> \<not> messgaeFilter c (fvEpoch fv)
     then finvoteAggreator (fst (AddFinVote (cAggreator c) fv)) else finvoteAggreator (cAggreator c))"
proof -
  obtain a y where a: "AddFinVote (cAggreator c) fv = (a, y)" by fastforce
  have "cAggreator (fst (advanceNextRound E (c\<lparr>cAggreator := a\<rparr>) e r fl h)) = a" for e r fl h
    by (rule counted.advances_round) simp_all
  then have "cAggreator (fst (handleFinvote E c fv)) = (if messgaeFilter c (fvEpoch fv) then cAggreator c else a)"
    using a by (simp add: handleFinvote_def core_broadcast_def core_effects split: sum.split)
  with assms a show ?thesis by (auto simp: Core_dispatch_def split: if_splits)
qed

text \<open>The conclusions of a log about one round.\<close>

definition verdicts :: "int \<Rightarrow> int \<Rightarrow> (int \<times> int \<times> int) list \<Rightarrow> int list" where
  "verdicts e r ds = map (snd \<circ> snd) (filter (\<lambda>d. fst d = e \<and> fst (snd d) = r) ds)"

text \<open>The votes \<open>vs\<close> of one round account for its counter and for the conclusions.\<close>

definition accounts ::
  "('a consensus_env_scheme) \<Rightarrow> Committee \<Rightarrow> message list \<Rightarrow> int \<Rightarrow> int \<Rightarrow> FinVoteAggreator \<Rightarrow> int list
   \<Rightarrow> FinVote list \<Rightarrow> bool" where
  "accounts E cm ms e r f as vs \<longleftrightarrow>
     f = fst (runs (FinVoteAggreator_Append cm) NewFinVoteAggreator vs) \<and>
     as = decisions (snd (runs (FinVoteAggreator_Append cm) NewFinVoteAggreator vs)) \<and>
     (\<forall>v \<in> set vs. MFinVote v \<in> set ms \<and> fvEpoch v = e \<and> fvRound v = r \<and>
        message_Verify E cm (MFinVote v) = Ret True)"

lemma accounts_more: "accounts E cm ms e r f as vs \<Longrightarrow> accounts E cm (ms @ [m]) e r f as vs"
  by (auto simp: accounts_def)

lemma accounts_vote:
  assumes "accounts E cm ms e r f as vs" and "FinVoteAggreator_Append cm f v = (f', x)"
    and "fvEpoch v = e" and "fvRound v = r" and "message_Verify E cm (MFinVote v) = Ret True"
  shows "accounts E cm (ms @ [MFinVote v]) e r f' (as @ decisions [x]) (vs @ [v])"
  using assms by (auto simp: accounts_def runs_append decisions_append)

lemma log_accounts:
  assumes "core_log E c0 ms ds c" and "finvoteAggreator (cAggreator c0) = Map.empty"
    and id: "\<And>c. (core_step E)\<^sup>*\<^sup>* c0 c \<Longrightarrow> cCommittee c = cm \<and> aCommittee (cAggreator c) = cm"
  shows "\<exists>vs. accounts E cm ms e r (counter_at (finvoteAggreator (cAggreator c)) NewFinVoteAggreator e r) (verdicts e r ds) vs"
  using assms(1,2)
proof (induction rule: core_log.induct)
  case start
  then have "accounts E cm [] e r (counter_at (finvoteAggreator (cAggreator c0)) NewFinVoteAggreator e r) (verdicts e r []) []"
    by (simp add: accounts_def counter_at_def verdicts_def)
  then show ?case by blast
next
  case (internal ms ds c c')
  then have "cAggreator c' = cAggreator c" by (intro counted.local_keeps [of E c c']) (simp_all add: core_self_def)
  with internal show ?case by simp
next
  case (receive ms ds c m rest c' x)
  let ?f = "counter_at (finvoteAggreator (cAggreator c)) NewFinVoteAggreator e r"
  from receive obtain vs where vs: "accounts E cm ms e r ?f (verdicts e r ds) vs" by blast
  from receive.hyps(1) have "(core_step E)\<^sup>*\<^sup>* c0 c" using core_log_iff by blast
  from id [OF this] have cm: "cCommittee c = cm" "aCommittee (cAggreator c) = cm" by simp_all
  show ?case
  proof (cases "\<exists>fv. m = MFinVote fv \<and> message_Verify E cm m = Ret True \<and> \<not> messgaeFilter c (fvEpoch fv) \<and>
      fvEpoch fv = e \<and> fvRound fv = r")
    case True
    then obtain fv where fv: "m = MFinVote fv" "message_Verify E cm (MFinVote fv) = Ret True"
      "\<not> messgaeFilter c (fvEpoch fv)" "fvEpoch fv = e" "fvRound fv = r" by blast
    obtain f' y where f': "FinVoteAggreator_Append cm ?f fv = (f', y)" by fastforce
    then have add: "AddFinVote (cAggreator c) fv =
        ((cAggreator c)\<lparr>finvoteAggreator := put2 (finvoteAggreator (cAggreator c)) e r f'\<rparr>, y)"
      using fv cm by (simp add: AddFinVote_def)
    have "finvoteAggreator (cAggreator c') = put2 (finvoteAggreator (cAggreator c)) e r f'"
      using dispatch_finvote [of E "c\<lparr>RecvCh := rest\<rparr>" fv c' x] receive.hyps(3) fv cm add
      by (simp add: messgaeFilter_def del: message_Verify.simps)
    moreover have "verdicts e r (ds @ verdict E c m) = verdicts e r ds @ decisions [y]"
      using fv cm add by (simp add: verdict_def verdicts_def comp_def del: message_Verify.simps)
    ultimately show ?thesis
      using accounts_vote [OF vs f' fv(4,5,2)] fv(1) by (auto simp: counter_at_def)
  next
    case False
    have "counter_at (finvoteAggreator (cAggreator c')) NewFinVoteAggreator e r = ?f"
    proof (cases "\<exists>fv. m = MFinVote fv")
      case True
      then obtain fv where m: "m = MFinVote fv" by blast
      from dispatch_finvote [of E "c\<lparr>RecvCh := rest\<rparr>" fv c' x] receive.hyps(3) m False cm show ?thesis
        by (auto simp: AddFinVote_def counter_at_def messgaeFilter_def Let_def simp del: message_Verify.simps
            split: if_splits prod.splits)
    next
      case False
      with dispatch_other [OF receive.hyps(3)] show ?thesis by simp
    qed
    moreover have "verdicts e r (ds @ verdict E c m) = verdicts e r ds"
      using False cm by (cases m) (auto simp: verdict_def verdicts_def filter_empty_conv simp del: message_Verify.simps)
    ultimately show ?thesis using accounts_more [OF vs] by auto
  qed
qed

lemma init_counters: "finvoteAggreator (cAggreator (core_init E name cm ps sg st txs)) = Map.empty"
proof -
  have "cAggreator (core_init E name cm ps sg st txs) = NewAggreator cm"
    by (rule counted.started) (simp_all add: NewCore_def)
  then show ?thesis by (simp add: NewAggreator_def)
qed

lemma reachable_committee:
  "core_reachable E name cm ps sg st txs c \<Longrightarrow> cCommittee c = cm \<and> aCommittee (cAggreator c) = cm"
  using identity.reachable_keep [of E name cm ps sg st txs c name sg cm] by (simp add: NewCore_def NewAggreator_def)

lemma reachable_proposal_count:
  assumes "core_reachable E name cm ps sg st txs c"
    and "rounds_ok (finvoteAggreator (cAggreator c))"
    and "r \<noteq> 0 \<or> heard_finvotes (finvoteAggreator (cAggreator c)) e (- 1) < hi cm"
  shows "count (proposal_of e r) (messages c) \<le> 1"
proof -
  let ?c0 = "NewCore name cm ps sg (NewMempool name cm ps sg st txs)"
  have "proposal_inv ?c0"
    by (simp add: proposal_inv_def proposal_ok_def NewCore_def NewAggreator_def)
  moreover have "may_propose 0 0 ?c0"
    by (simp add: may_propose_def proposal_free_def entitled_def NewCore_def)
  ultimately have "proposal_inv c" by (rule proposals.reachable_keep [OF assms(1)])
  with reachable_committee [OF assms(1)] have "count (proposal_of e r) (messages c) \<le>
      entitled (Epoch c) cm (finvoteAggreator (cAggreator c)) e r"
    using assms(2) by (simp add: proposal_inv_def proposal_ok_def)
  moreover have "entitled (Epoch c) cm (finvoteAggreator (cAggreator c)) e r \<le> 1"
    using assms(3) not_decided_0 [of "finvoteAggreator (cAggreator c)" e cm] by (auto simp: entitled_def)
  ultimately show ?thesis by (rule order_trans)
qed

text \<open>Every conclusion in the log of a node follows from votes the node received and checked.\<close>

lemma logged_verdicts:
  assumes "core_log E (core_init E name cm ps sg st txs) ms ds c"
  obtains vs where "verdicts e r ds = decisions (snd (runs (FinVoteAggreator_Append cm) NewFinVoteAggreator vs))"
    and "\<And>v. v \<in> set vs \<Longrightarrow> MFinVote v \<in> set ms \<and> fvEpoch v = e \<and> fvRound v = r \<and>
      fvAuthor v \<in> members cm \<and> message_Verify E cm (MFinVote v) = Ret True"
proof -
  have "cCommittee c' = cm \<and> aCommittee (cAggreator c') = cm"
    if "(core_step E)\<^sup>*\<^sup>* (core_init E name cm ps sg st txs) c'" for c'
    using reachable_committee [of E name cm ps sg st txs c'] that by (simp add: core_reachable_def)
  from log_accounts [OF assms init_counters this, of e r]
  obtain vs where vs: "accounts E cm ms e r (counter_at (finvoteAggreator (cAggreator c)) NewFinVoteAggreator e r)
      (verdicts e r ds) vs" by blast
  show thesis
  proof (rule that [of vs])
    show "verdicts e r ds = decisions (snd (runs (FinVoteAggreator_Append cm) NewFinVoteAggreator vs))"
      using vs by (simp add: accounts_def)
    show "MFinVote v \<in> set ms \<and> fvEpoch v = e \<and> fvRound v = r \<and> fvAuthor v \<in> members cm \<and>
        message_Verify E cm (MFinVote v) = Ret True" if "v \<in> set vs" for v
      using vs that smFinVote.verified_from_member [of E cm v True] by (auto simp: accounts_def)
  qed
qed

lemma in_verdicts: "(e, r, a) \<in> set ds \<longleftrightarrow> a \<in> set (verdicts e r ds)"
  by (force simp: verdicts_def)

text \<open>
  Two nodes of one committee: if the checked final votes of a correct member for a round do not
  contradict each other, neither do the conclusions.
\<close>

lemma logs_agree:
  assumes "committee_tolerates cm F"
    and "core_log E (core_init E n1 cm ps1 sg1 st1 txs1) ms1 ds1 c1"
    and "core_log E (core_init E n2 cm ps2 sg2 st2 txs2) ms2 ds2 c2"
    and same: "\<And>v w. MFinVote v \<in> set ms1 \<Longrightarrow> MFinVote w \<in> set ms2 \<Longrightarrow> fvAuthor v = fvAuthor w \<Longrightarrow>
      fvAuthor v \<in> members cm - F \<Longrightarrow> message_Verify E cm (MFinVote v) = Ret True \<Longrightarrow>
      message_Verify E cm (MFinVote w) = Ret True \<Longrightarrow> fvEpoch v = e \<Longrightarrow> fvEpoch w = e \<Longrightarrow>
      fvRound v = r \<Longrightarrow> fvRound w = r \<Longrightarrow> fvFlag v = fvFlag w"
    and "(e, r, ACTION_COMMIT) \<in> set ds1"
  shows "(e, r, ACTION_NO) \<notin> set ds2"
proof -
  obtain vs where vs: "verdicts e r ds1 = decisions (snd (runs (FinVoteAggreator_Append cm) NewFinVoteAggreator vs))"
    "\<And>v. v \<in> set vs \<Longrightarrow> MFinVote v \<in> set ms1 \<and> fvEpoch v = e \<and> fvRound v = r \<and> fvAuthor v \<in> members cm \<and>
      message_Verify E cm (MFinVote v) = Ret True"
    using logged_verdicts [OF assms(2), of e r] by blast
  obtain ws where ws: "verdicts e r ds2 = decisions (snd (runs (FinVoteAggreator_Append cm) NewFinVoteAggreator ws))"
    "\<And>v. v \<in> set ws \<Longrightarrow> MFinVote v \<in> set ms2 \<and> fvEpoch v = e \<and> fvRound v = r \<and> fvAuthor v \<in> members cm \<and>
      message_Verify E cm (MFinVote v) = Ret True"
    using logged_verdicts [OF assms(3), of e r] by blast
  have "fvFlag v = fvFlag w" if "v \<in> set vs" "w \<in> set ws" "fvAuthor v = fvAuthor w" "fvAuthor v \<notin> F" for v w
    using same [of v w] vs(2) [OF that(1)] ws(2) [OF that(2)] that(3,4) by simp
  then have "ACTION_NO \<notin> set (decisions (snd (runs (FinVoteAggreator_Append cm) NewFinVoteAggreator ws)))"
    by (intro commit_excludes_no [OF assms(1), of vs]) (use vs ws assms(5) in \<open>auto simp: in_verdicts\<close>)
  then show ?thesis by (simp add: in_verdicts ws(1))
qed

section \<open>What was heard\<close>

text \<open>The authors counted for a round are never forgotten.\<close>

definition has_heard :: "int \<Rightarrow> int \<Rightarrow> NodeID set \<Rightarrow> NodeID set \<Rightarrow> Core \<Rightarrow> bool" where
  "has_heard e r fs ds c \<longleftrightarrow>
     fs \<subseteq> heard_finishes (cAggreator c) e r \<and> ds \<subseteq> heard_dones (cAggreator c) e r"

lemma has_heard_view: "progress_view c' = progress_view c \<Longrightarrow> has_heard e r fs ds c' = has_heard e r fs ds c"
  by (simp add: progress_view_def has_heard_def heard_finishes_def heard_dones_def)

lemma handleFinish_heard:
  "heard_finishes (cAggreator (fst (handleFinish E c f))) e r =
     (if \<not> messgaeFilter c (fEpoch f) \<and> e = fEpoch f \<and> r = fRound f
      then insert (fAuthor f) (heard_finishes (cAggreator c) e r) else heard_finishes (cAggreator c) e r)"
  "heard_dones (cAggreator (fst (handleFinish E c f))) = heard_dones (cAggreator c)"
proof -
  obtain a x where a: "AddFinishVote (cAggreator c) f = (a, x)" by fastforce
  then have c': "cAggreator (fst (handleFinish E c f)) = (if messgaeFilter c (fEpoch f) then cAggreator c else a)"
    by (simp add: handleFinish_def Let_def split: sum.split)
  show "heard_finishes (cAggreator (fst (handleFinish E c f))) e r =
      (if \<not> messgaeFilter c (fEpoch f) \<and> e = fEpoch f \<and> r = fRound f
       then insert (fAuthor f) (heard_finishes (cAggreator c) e r) else heard_finishes (cAggreator c) e r)"
    using AddFinishVote_heard(3) [OF a, of e r] AddFinishVote_heard(4) [OF a] by (auto simp: c')
  show "heard_dones (cAggreator (fst (handleFinish E c f))) = heard_dones (cAggreator c)"
    using AddFinishVote_heard(2) [OF a] by (simp add: c')
qed

lemma handleDone_heard:
  assumes "handleDone E c d = Ret (c', x)"
  shows "heard_dones (cAggreator c') e r =
     (if \<not> messgaeFilter c (dEpoch d) \<and> e = dEpoch d \<and> r = dRound d
      then insert (dAuthor d) (heard_dones (cAggreator c) e r) else heard_dones (cAggreator c) e r)"
    and "heard_finishes (cAggreator c') = heard_finishes (cAggreator c)"
proof -
  obtain a y where a: "AddDoneVote (cAggreator c) d = (a, y)" by fastforce
  with assms have c': "cAggreator c' = (if messgaeFilter c (dEpoch d) then cAggreator c else a)"
    by (auto simp: handleDone_def Let_def dest!: processLeader_flags split: if_splits sum.splits)
  show "heard_dones (cAggreator c') e r =
      (if \<not> messgaeFilter c (dEpoch d) \<and> e = dEpoch d \<and> r = dRound d
       then insert (dAuthor d) (heard_dones (cAggreator c) e r) else heard_dones (cAggreator c) e r)"
    using AddDoneVote_heard(3) [OF a, of e r] AddDoneVote_heard(4) [OF a] by (auto simp: c')
  show "heard_finishes (cAggreator c') = heard_finishes (cAggreator c)"
    using AddDoneVote_heard(2) [OF a] by (simp add: c')
qed

interpretation hears: core_closed E "has_heard e r fs ds" "\<lambda>_ _ _. True" for E e r fs ds
proof
  show "has_heard e r fs ds c \<Longrightarrow> has_heard e r fs ds (fst (handleFinish E c f))" for c f
    by (auto simp: has_heard_def handleFinish_heard)
  show "has_heard e r fs ds c \<Longrightarrow> handleDone E c d = Ret (c', x) \<Longrightarrow> has_heard e r fs ds c'" for c d c' x
    by (auto simp: has_heard_def handleDone_heard)
  show "has_heard e r fs ds c \<Longrightarrow> has_heard e r fs ds (fst (handlePrevote E c pv))" for c pv
    by (simp add: has_heard_view [OF handlePrevote_view])
  show "has_heard e r fs ds c \<Longrightarrow> has_heard e r fs ds (fst (handleFinvote E c fv))" for c fv
    by (simp add: has_heard_view [OF handleFinvote_view])
qed (auto simp: has_heard_def core_effects split: option.split)

text \<open>Whoever's checked Finish or Done was taken is among them, as long as the epoch is not over.\<close>

fun finishers :: "('a consensus_env_scheme) \<Rightarrow> Committee \<Rightarrow> int \<Rightarrow> int \<Rightarrow> message \<Rightarrow> NodeID set" where
  "finishers E cm e r (MFinish f) =
     (if fEpoch f = e \<and> fRound f = r \<and> message_Verify E cm (MFinish f) = Ret True then {fAuthor f} else {})"
| "finishers E cm e r _ = {}"

fun doners :: "('a consensus_env_scheme) \<Rightarrow> Committee \<Rightarrow> int \<Rightarrow> int \<Rightarrow> message \<Rightarrow> NodeID set" where
  "doners E cm e r (MDone d) =
     (if dEpoch d = e \<and> dRound d = r \<and> message_Verify E cm (MDone d) = Ret True then {dAuthor d} else {})"
| "doners E cm e r _ = {}"

lemma dispatch_heard:
  assumes "Core_dispatch E c m = Ret (c', x)" and "Epoch c \<le> e"
  shows "has_heard e r (finishers E (cCommittee c) e r m) (doners E (cCommittee c) e r m) c'"
  using assms
  by (cases m) (auto simp: Core_dispatch_def has_heard_def handleFinish_heard handleDone_heard messgaeFilter_def
      simp del: message_Verify.simps dest!: arg_cong [of "handleFinish _ _ _" _ fst])

lemma log_heard:
  assumes "core_log E c0 ms ds c" and "Epoch c \<le> e"
    and id: "\<And>c. (core_step E)\<^sup>*\<^sup>* c0 c \<Longrightarrow> cCommittee c = cm"
  shows "has_heard e r (\<Union>m \<in> set ms. finishers E cm e r m) (\<Union>m \<in> set ms. doners E cm e r m) c"
  using assms(1,2)
proof (induction rule: core_log.induct)
  case start
  then show ?case by (simp add: has_heard_def)
next
  case (internal ms ds c c')
  have step: "core_step E c c'" by (rule core_step.internal [OF internal.hyps(2)])
  have "Epoch c \<le> Epoch c'" using growing.step_keeps [OF step, of "Epoch c" "{}"] by simp
  with internal have "has_heard e r (\<Union>m \<in> set ms. finishers E cm e r m) (\<Union>m \<in> set ms. doners E cm e r m) c" by simp
  from hears.step_keeps [OF step this] show ?case .
next
  case (receive ms ds c m rest c' x)
  have step: "core_step E c c'" by (rule core_step.receive [OF receive.hyps(2,3)])
  have "Epoch c \<le> Epoch c'" using growing.step_keeps [OF step, of "Epoch c" "{}"] by simp
  with receive have e: "Epoch c \<le> e"
    and "has_heard e r (\<Union>m \<in> set ms. finishers E cm e r m) (\<Union>m \<in> set ms. doners E cm e r m) c" by simp_all
  from hears.step_keeps [OF step this(2)]
  have "has_heard e r (\<Union>m \<in> set ms. finishers E cm e r m) (\<Union>m \<in> set ms. doners E cm e r m) c'" .
  moreover have "cCommittee c = cm" using id receive.hyps(1) core_log_iff by blast
  with dispatch_heard [OF receive.hyps(3), of e r] e
  have "has_heard e r (finishers E cm e r m) (doners E cm e r m) c'" by simp
  ultimately show ?case by (simp add: has_heard_def)
qed

end
