(* ===== verification/Scenario.thy ===== *)
theory Scenario
  imports Executions "HOL-Library.List_Lexorder"
begin

text \<open>
  A concrete instance of the parameters and a short run of a node of a committee of four: it
  starts, receives its own proposal, stores it, and halts the epoch on a Halt message for the
  block. The states of the run are the concrete inputs at which the node's properties are used.
\<close>

section \<open>A concrete node\<close>

text \<open>
  An instance of the parameters: a padding function for the hash, signatures that are the
  message, a database that is a list of pairs, an encoder that knows a few blocks.
\<close>

definition sample_block :: Block where
  "sample_block = \<lparr>bProposer = 1, bBatch = \<lparr>ID = 1, Txs = [[5]]\<rparr>,
     bSignature = \<lparr>Sig = sha256 sample_store_env [49, 49, 5]\<rparr>\<rparr>"

definition sample_cb :: ConsensusBlock where
  "sample_cb = NewConsensusBlock 0 [] 0"

text \<open>A block with a payload, proposed by the node that made the payload.\<close>

definition sample_paid :: ConsensusBlock where
  "sample_paid = NewConsensusBlock 1 [Block_Hash sample_store_env sample_block] 0"

definition sample_env :: consensus_env where
  "sample_env =
     \<lparr>sha256 = sha256 sample_store_env, ed_sign = ed_sign sample_store_env,
      ed_verify = ed_verify sample_store_env, tbls_sign = tbls_sign sample_store_env,
      tbls_recover = tbls_recover sample_store_env, nuts_get = nuts_get sample_store_env,
      nuts_put = nuts_put sample_store_env, nuts_nf = nuts_nf sample_store_env,
      gob_enc_Block = (\<lambda>b. if b = sample_block then Inr [1] else Inl (ErrExternal ''gob'')),
      gob_dec_Block = (\<lambda>v. if v = [1] then Inr sample_block else Inl (ErrExternal ''gob'')),
      map_order = sorted_list_of_set,
      gob_enc_CB = (\<lambda>b. if b = sample_cb then Inr [2] else if b = sample_paid then Inr [3] else Inl (ErrExternal ''gob'')),
      gob_dec_CB = (\<lambda>v. if v = [2] then Inr sample_cb else if v = [3] then Inr sample_paid else Inl (ErrExternal ''gob''))\<rparr>"

definition sample_pool :: PoolState where
  "sample_pool = \<lparr>poolParameters = DefaultPoolParameters,
     txqueue = \<lparr>queue = [], batchChannel = [], wind = 0, rind = - 1, nums = 0, maxQueueSize = 0,
                batchSize = 0, qN = 4, qId = 0, bcnt = 0\<rparr>,
     maker = newTxMaker 16 1000, txChannel = []\<rparr>"

abbreviation sample_store :: Store where
  "sample_store \<equiv> NewStore NewDefaultNutsDB"

definition sample_mempool :: Mempool where
  "sample_mempool = NewMempool 0 committee4 DefaultParameters sample_sig sample_store sample_pool"

definition sample_core :: Core where
  "sample_core = NewCore 0 committee4 DefaultParameters sample_sig sample_mempool"

definition sample_node :: Core where
  "sample_node = Core_start sample_env sample_core"

abbreviation sample_reachable :: "Core \<Rightarrow> bool" where
  "sample_reachable \<equiv> core_reachable sample_env 0 committee4 DefaultParameters sample_sig sample_store sample_pool"

lemma sample_env_ok:
  "nutsdb_ok sample_env" "gob_Block_ok sample_env" "gob_CB_ok sample_env" "map_order_ok sample_env"
  "ed25519_ok sample_env (Prikey (PriKey sample_sig)) (Pubkey (Committee_Name committee4 0))"
  by (auto simp: nutsdb_ok_def gob_Block_ok_def gob_CB_ok_def map_order_ok_def sample_env_def sample_store_env_def
      ed25519_ok_def Committee_Name_def lookup_authority_def committee4_def upt_rec numeral_eq_Suc
      split: option.splits if_splits)

lemma sample_store_ok: "store_inv sample_env sample_store"
  using sample_env_ok(1) by (simp add: store_inv_def NewStore_def)

lemma sample_node_init:
  "sample_node = core_init sample_env 0 committee4 DefaultParameters sample_sig sample_store sample_pool"
  by (simp add: sample_node_def sample_core_def sample_mempool_def)

lemma sample_node_reachable: "sample_reachable sample_node"
  by (simp add: core_reachable_def sample_node_def sample_core_def sample_mempool_def)

section \<open>A block of another node\<close>

lemma sample_mempool_inv: "mempool_inv sample_env sample_mempool"
  by (simp add: sample_mempool_def NewMempool_inv [OF sample_store_ok])

lemma sample_key1: "ed25519_ok sample_env (Prikey (PriKey sample_sig)) (Pubkey (Committee_Name (mCommittee sample_mempool) 1))"
  by (simp add: sample_env_def sample_store_env_def ed25519_ok_def Committee_Name_def lookup_authority_def
      committee4_def upt_rec sample_mempool_def NewMempool_def)

lemma sample_block_made: "NewBlock sample_env 1 \<lparr>ID = 1, Txs = [[5]]\<rparr> sample_sig = Inr sample_block"
  by code_simp

lemma sample_room: "\<not> queue_full sample_mempool"
  by (simp add: queue_full_def sample_mempool_def NewMempool_def DefaultParameters_def)

lemma sample_block_new: "isl (GetBlock sample_env (mStore sample_mempool) (Block_Hash sample_env sample_block))"
  by code_simp

lemma sample_block_fits: "snd (StoreBlock sample_env (mStore sample_mempool) sample_block) = None"
  by code_simp

section \<open>Starting\<close>

lemma sample_cb_simps [simp]: "cbPayLoads sample_cb = []" "cbEpoch sample_cb = 0" "cbProposer sample_cb = 0"
  by (simp_all add: sample_cb_def NewConsensusBlock_def)

definition sample_first :: SPBProposal where
  "sample_first = projr (NewSPBProposal sample_env 0 (Some sample_cb) 0 0 SPB_ONE_PHASE sample_sig)"

lemma sample_first_simps [simp]:
  "pEpoch sample_first = 0" "pRound sample_first = 0" "pPhase sample_first = SPB_ONE_PHASE"
  "pB sample_first = Some sample_cb" "pAuthor sample_first = 0"
  by (simp_all add: sample_first_def)

lemma sample_payloads: "fst (snd (HandleMakeBlockMsg sample_env sample_mempool n)) = []"
  by (simp add: HandleMakeBlockMsg_def sample_mempool_def NewMempool_def payloadProcess_def StoreBlock_def
      Block_Encode_def sample_env_def sample_block_def NewBlock_def RequestSignature_def queue_full_def
      case_prod_beta Let_def DefaultParameters_def)

lemma sample_node_eq:
  "sample_node = core_broadcast (sample_core\<lparr>cMempool := cMempool sample_node\<rparr>) (MProposal sample_first)"
  by (simp add: sample_node_def Core_start_def sample_core_def NewCore_def generatorBlock_def case_prod_beta
      sample_payloads propose_def core_broadcast_def core_send_def core_self_def DefaultParameters_def Let_def
      sample_first_def sample_cb_def)

lemma sample_node_simps [simp]:
  "RecvCh sample_node = [MProposal sample_first]"
  "Sent sample_node = [Transmitor_Send committee4 0 NONE (MProposal sample_first)]"
  "HaltFlags sample_node = {}" "Epoch sample_node = 0" "cCommittee sample_node = committee4"
  "cCommitor sample_node = NewCommittor" "cAggreator sample_node = NewAggreator committee4"
  by (subst sample_node_eq, simp add: core_broadcast_def core_send_def core_self_def sample_core_def NewCore_def)+

lemma sample_keys:
  "a \<in> {0, 1, 2, 3} \<Longrightarrow> ed25519_ok sample_env (Prikey (PriKey sample_sig)) (Pubkey (Committee_Name committee4 a))"
  by (auto simp: sample_env_def sample_store_env_def ed25519_ok_def Committee_Name_def lookup_authority_def
      committee4_def upt_rec)

lemma sample_verifies:
  assumes "authentic sample_env sample_sig m" and "message_author m \<in> {0, 1, 2, 3}" and "m \<noteq> MElectShare None"
  shows "message_Verify sample_env committee4 m = Ret True"
  using authentic_verifies [of sample_env sample_sig committee4 m] assms sample_keys by blast

section \<open>Storing the proposal\<close>

definition sample_stored :: Core where
  "sample_stored =
     (case Core_dispatch sample_env (sample_node\<lparr>RecvCh := []\<rparr>) (MProposal sample_first) of
        Ret (c, r) \<Rightarrow> c | Panic x \<Rightarrow> sample_node)"

lemma sample_store_cb:
  "snd (storeConsensusBlock sample_env c sample_cb) = None"
  "snd (storeConsensusBlock sample_env c sample_paid) = None"
  by (simp_all add: storeConsensusBlock_def ConsensusBlock_Encode_def case_prod_beta Store_Write_err NutsDB_Put_def
      sample_env_def sample_store_env_def)

lemma startProposal_same [simp]:
  "RecvCh (startProposal c p) = RecvCh c" "HaltFlags (startProposal c p) = HaltFlags c"
  "Epoch (startProposal c p) = Epoch c" "cCommitor (startProposal c p) = cCommitor c"
  "cCommittee (startProposal c p) = cCommittee c" "cAggreator (startProposal c p) = cAggreator c"
  "cMempool (startProposal c p) = cMempool c"
  by (simp_all add: startProposal_def getSpbInstance_def core_go_def case_prod_beta Let_def split: option.split)

text \<open>A proposal reaches a node with room for it: what changes and what does not.\<close>

lemma sample_proposal_stored:
  assumes "sample_reachable c" and "Epoch c = 0" and "HaltFlags c = {}" and "b \<in> {sample_cb, sample_paid}"
    and "authentic sample_env sample_sig (MProposal p)" and "pAuthor p \<in> {0, 1, 2, 3}"
    and "pPhase p = SPB_ONE_PHASE" and "pEpoch p = 0" and "pB p = Some b"
    and "\<forall>d \<in> set (cbPayLoads b). readable sample_env (mStore (cMempool c)) d"
  shows "\<exists>st s. Core_dispatch sample_env (c\<lparr>RecvCh := []\<rparr>) (MProposal p) =
      Ret (startProposal (c\<lparr>RecvCh := [], cMempool := (cMempool c)\<lparr>mStore := st, mSync := s\<rparr>\<rparr>) p, None) \<and>
    getConsensusBlock sample_env (c\<lparr>cMempool := (cMempool c)\<lparr>mStore := st\<rparr>\<rparr>) (ConsensusBlock_Hash sample_env b) = Inr (Some b) \<and>
    (\<exists>v. st = fst (Store_Write sample_env (mStore (cMempool c)) (ConsensusBlock_Hash sample_env b) v))"
proof -
  let ?c = "c\<lparr>RecvCh := []\<rparr>"
  obtain c1 where c1: "storeConsensusBlock sample_env ?c b = (c1, None)"
    using assms(4) sample_store_cb [of ?c] by (metis empty_iff insert_iff prod.collapse)
  obtain v st where v: "ConsensusBlock_Encode sample_env b = Inr v" and
    st: "Store_Write sample_env (mStore (cMempool c)) (ConsensusBlock_Hash sample_env b) v = (st, None)" and
    c1': "c1 = ?c\<lparr>cMempool := (cMempool c)\<lparr>mStore := st\<rparr>\<rparr>"
    using c1 by (auto simp: storeConsensusBlock_def Let_def split: sum.splits prod.splits)
  have inv: "store_inv sample_env (mStore (cMempool c))"
    using reachable_mempool_inv [OF assms(1) sample_store_ok] by (simp add: mempool_inv_def)
  have cm: "cCommittee c = committee4" using reachable_committee [OF assms(1)] by simp
  have "getConsensusBlock sample_env c1 (ConsensusBlock_Hash sample_env b) = Inr (Some b)"
    using inv by (intro getConsensusBlock_stored [OF _ sample_env_ok(3) c1]) simp
  then have get: "getConsensusBlock sample_env (c\<lparr>cMempool := (cMempool c)\<lparr>mStore := st\<rparr>\<rparr>) (ConsensusBlock_Hash sample_env b) = Inr (Some b)"
    by (simp add: c1' getConsensusBlock_def)
  have "message_Verify sample_env (cCommittee ?c) (MProposal p) = Ret True"
    using sample_verifies [OF assms(5)] assms(6) by (simp add: cm del: message_Verify.simps)
  moreover have "\<forall>d \<in> set (cbPayLoads b). readable sample_env (mStore (cMempool c1)) d"
    using assms(10) readable_Write [OF inv, of "ConsensusBlock_Hash sample_env b" v] by (simp add: c1' st)
  ultimately obtain s where "Core_dispatch sample_env ?c (MProposal p) =
      Ret (startProposal (c1\<lparr>cMempool := (cMempool c1)\<lparr>mSync := s\<rparr>\<rparr>) p, None)"
    using proposal_effect [OF _ assms(7,9) _ _ c1] assms(2,3,8) by auto
  with get st show ?thesis by (auto simp: c1' intro!: exI [of _ st] exI [of _ v])
qed

lemma sample_stores:
  "Core_dispatch sample_env (sample_node\<lparr>RecvCh := []\<rparr>) (MProposal sample_first) = Ret (sample_stored, None)"
  "getConsensusBlock sample_env sample_stored (ConsensusBlock_Hash sample_env sample_cb) = Inr (Some sample_cb)"
  "RecvCh sample_stored = []" "HaltFlags sample_stored = {}" "Epoch sample_stored = 0"
  "cCommitor sample_stored = NewCommittor" "cCommittee sample_stored = committee4"
  "cAggreator sample_stored = NewAggreator committee4"
  "\<exists>v s. cMempool sample_stored = (cMempool sample_node)\<lparr>mSync := s, mStore :=
      fst (Store_Write sample_env (mStore (cMempool sample_node)) (ConsensusBlock_Hash sample_env sample_cb) v)\<rparr>"
proof -
  have "authentic sample_env sample_sig (MProposal sample_first)" by (simp add: sample_first_def)
  from sample_proposal_stored [OF sample_node_reachable _ _ _ this, of sample_cb]
  obtain st s v where d: "Core_dispatch sample_env (sample_node\<lparr>RecvCh := []\<rparr>) (MProposal sample_first) =
      Ret (startProposal (sample_node\<lparr>RecvCh := [], cMempool := (cMempool sample_node)\<lparr>mStore := st, mSync := s\<rparr>\<rparr>) sample_first, None)"
    and get: "getConsensusBlock sample_env (sample_node\<lparr>cMempool := (cMempool sample_node)\<lparr>mStore := st\<rparr>\<rparr>)
      (ConsensusBlock_Hash sample_env sample_cb) = Inr (Some sample_cb)"
    and v: "st = fst (Store_Write sample_env (mStore (cMempool sample_node)) (ConsensusBlock_Hash sample_env sample_cb) v)"
    by auto
  then have st: "sample_stored =
      startProposal (sample_node\<lparr>RecvCh := [], cMempool := (cMempool sample_node)\<lparr>mStore := st, mSync := s\<rparr>\<rparr>) sample_first"
    by (simp add: sample_stored_def)
  show "Core_dispatch sample_env (sample_node\<lparr>RecvCh := []\<rparr>) (MProposal sample_first) = Ret (sample_stored, None)"
    unfolding st by (rule d)
  show "getConsensusBlock sample_env sample_stored (ConsensusBlock_Hash sample_env sample_cb) = Inr (Some sample_cb)"
    using get by (simp add: st getConsensusBlock_def)
  show "RecvCh sample_stored = []" "HaltFlags sample_stored = {}" "Epoch sample_stored = 0"
    "cCommitor sample_stored = NewCommittor" "cCommittee sample_stored = committee4"
    "cAggreator sample_stored = NewAggreator committee4"
    by (simp_all add: st)
  show "\<exists>v s. cMempool sample_stored = (cMempool sample_node)\<lparr>mSync := s, mStore :=
      fst (Store_Write sample_env (mStore (cMempool sample_node)) (ConsensusBlock_Hash sample_env sample_cb) v)\<rparr>"
    by (intro exI [of _ v] exI [of _ s]) (simp add: st v)
qed

lemma sample_stored_reachable: "sample_reachable sample_stored"
  using sample_node_reachable core_step.receive [of sample_node "MProposal sample_first" "[]", OF _ sample_stores(1)]
  by (simp add: core_reachable_def rtranclp.rtrancl_into_rtrancl)

text \<open>One message arrives at a node that waits for it.\<close>

lemma RecvCh_idle: "RecvCh c = [] \<Longrightarrow> (core_self c m)\<lparr>RecvCh := []\<rparr> = c"
  by (cases c) (simp add: core_self_def)

lemma idle_receives:
  assumes "sample_reachable c" and "RecvCh c = []" and "Core_dispatch sample_env c m = Ret (c', x)"
  shows "sample_reachable c'"
proof -
  have "RecvCh (core_self c m) = [m]" using assms(2) by (simp add: core_self_def)
  moreover have "Core_dispatch sample_env ((core_self c m)\<lparr>RecvCh := []\<rparr>) m = Ret (c', x)"
    by (simp only: RecvCh_idle [OF assms(2)] assms(3))
  ultimately have "core_step sample_env (core_self c m) c'" by (rule core_step.receive)
  moreover have "core_step sample_env c (core_self c m)" by (rule core_step.internal [OF core_local.network])
  ultimately show ?thesis using assms(1) by (simp add: core_reachable_def rtranclp.rtrancl_into_rtrancl)
qed

section \<open>Halting\<close>

definition sample_halt :: Halt where
  "sample_halt = projr (NewHalt sample_env 0 0 (ConsensusBlock_Hash sample_env sample_cb) 0 0 sample_sig)"

lemma sample_halt_simps [simp]:
  "hEpoch sample_halt = 0" "hBlockHash sample_halt = ConsensusBlock_Hash sample_env sample_cb"
  by (simp_all add: sample_halt_def)

lemma sample_halt_verifies: "message_Verify sample_env committee4 (MHalt sample_halt) = Ret True"
  by (rule sample_verifies) (simp_all add: sample_halt_def)

definition sample_halted :: Core where
  "sample_halted = (case Core_dispatch sample_env sample_stored (MHalt sample_halt) of
     Ret (c, r) \<Rightarrow> c | Panic x \<Rightarrow> sample_stored)"

lemma sample_halts:
  "Core_dispatch sample_env sample_stored (MHalt sample_halt) = Ret (sample_halted, None)"
  "HaltFlags sample_halted = {0}"
proof -
  note sample_halt_verifies
  moreover obtain c' where "handleHalt sample_env sample_stored sample_halt = Ret (c', None)" "HaltFlags c' = {0}"
    using halt_effect [of sample_stored sample_halt sample_env sample_cb]
    by (auto simp: sample_stores(2-6))
  ultimately show "Core_dispatch sample_env sample_stored (MHalt sample_halt) = Ret (sample_halted, None)"
    "HaltFlags sample_halted = {0}"
    by (simp_all add: sample_halted_def Core_dispatch_def sample_stores(7))
qed

lemma sample_halted_reachable: "sample_reachable sample_halted"
  by (rule idle_receives [OF sample_stored_reachable sample_stores(3) sample_halts(1)])

section \<open>A block with a payload\<close>

lemma sample_mempool_started: "\<exists>p. cMempool sample_node = sample_mempool\<lparr>mTxPool := p\<rparr>"
  by (auto simp: sample_node_def Core_start_def sample_core_def NewCore_def generatorBlock_def propose_def
      core_broadcast_def core_send_def core_self_def DefaultParameters_def HandleMakeBlockMsg_def sample_mempool_def
      NewMempool_def payloadProcess_def StoreBlock_def Block_Encode_def sample_env_def sample_block_def NewBlock_def
      RequestSignature_def queue_full_def case_prod_beta Let_def)

definition sample_offer :: SPBProposal where
  "sample_offer = projr (NewSPBProposal sample_env 1 (Some sample_paid) 0 0 SPB_ONE_PHASE sample_sig)"

lemma sample_offer_simps [simp]:
  "pEpoch sample_offer = 0" "pPhase sample_offer = SPB_ONE_PHASE" "pB sample_offer = Some sample_paid"
  "pAuthor sample_offer = 1"
  by (simp_all add: sample_offer_def)

lemma sample_paid_simps [simp]:
  "cbPayLoads sample_paid = [Block_Hash sample_env sample_block]" "cbEpoch sample_paid = 0"
  by (simp_all add: sample_paid_def NewConsensusBlock_def Block_Hash_def hash_parts_def Hasher_Sum256_def sample_env_def)

lemma sample_keys_differ: "Block_Hash sample_env sample_block \<noteq> ConsensusBlock_Hash sample_env sample_cb"
  by code_simp

lemma sample_stored_idle:
  "sample_stored\<lparr>cMempool := x, RecvCh := []\<rparr> = sample_stored\<lparr>cMempool := x\<rparr>"
  "sample_stored\<lparr>RecvCh := [], cMempool := x\<rparr> = sample_stored\<lparr>cMempool := x\<rparr>"
  by (rule Core.equality; simp add: sample_stores)+

text \<open>The payload arrives before the block that lists it.\<close>

lemma sample_payload_arrives:
  obtains m where "Mempool_dispatch sample_env (cMempool sample_stored) (OtherBlockMsg (Some sample_block)) = Ret (m, None)"
    and "readable sample_env (mStore m) (Block_Hash sample_env sample_block)"
proof -
  obtain v s where stored: "cMempool sample_stored = (cMempool sample_node)\<lparr>mSync := s, mStore :=
      fst (Store_Write sample_env (mStore (cMempool sample_node)) (ConsensusBlock_Hash sample_env sample_cb) v)\<rparr>"
    using sample_stores(9) by blast
  obtain p where "cMempool sample_node = sample_mempool\<lparr>mTxPool := p\<rparr>" using sample_mempool_started by blast
  with stored have m: "cMempool sample_stored = sample_mempool\<lparr>mTxPool := p, mSync := s, mStore :=
      fst (Store_Write sample_env sample_store (ConsensusBlock_Hash sample_env sample_cb) v)\<rparr>" (is "_ = ?m")
    by (simp add: sample_mempool_def NewMempool_def)
  have inv: "mempool_inv sample_env ?m"
    unfolding m [symmetric] by (rule reachable_mempool_inv [OF sample_stored_reachable sample_store_ok])
  have "Block_Verify sample_env (mCommittee ?m) sample_block = Ret True"
    using NewBlock_verifies [OF sample_key1 sample_block_made] by simp
  moreover have "\<not> queue_full ?m" using sample_room by (simp add: queue_full_def)
  moreover have "isl (GetBlock sample_env (mStore ?m) (Block_Hash sample_env sample_block))"
    using sample_block_new sample_keys_differ
    by (simp add: GetBlock_def kv.read_after_write [OF sample_store_ok] sample_mempool_def NewMempool_def)
  moreover have "snd (StoreBlock sample_env (mStore ?m) sample_block) = None"
    by (simp add: StoreBlock_def Block_Encode_def Store_Write_err NutsDB_Put_def sample_env_def sample_store_env_def)
  ultimately obtain st where h: "HandleOthorBlock sample_env ?m (Some sample_block) =
      Ret (enqueue (?m\<lparr>mStore := st\<rparr>) (Block_Hash sample_env sample_block), None)"
    and g: "GetBlock sample_env st (Block_Hash sample_env sample_block) = Inr (Some sample_block)"
    using HandleOthorBlock_new [OF inv sample_env_ok(2)] by blast
  from g have "readable sample_env st (Block_Hash sample_env sample_block)"
    by (auto simp: GetBlock_def readable_iff split: sum.splits if_splits)
  with h show thesis
    by (intro that [of "enqueue (?m\<lparr>mStore := st\<rparr>) (Block_Hash sample_env sample_block)"])
      (simp_all add: m Mempool_dispatch_def enqueue_def)
qed

lemma sample_paid_committed: "\<exists>c. sample_reachable c \<and> commitCh (cCommitor c) = [sample_paid]"
proof -
  obtain m where m: "Mempool_dispatch sample_env (cMempool sample_stored) (OtherBlockMsg (Some sample_block)) = Ret (m, None)"
    "readable sample_env (mStore m) (Block_Hash sample_env sample_block)" by (rule sample_payload_arrives)
  let ?c = "sample_stored\<lparr>cMempool := m\<rparr>"
  have r: "sample_reachable ?c"
    using sample_stored_reachable core_step.internal [OF core_local.work [OF core_work.mempool [OF m(1)]]]
    by (simp add: core_reachable_def rtranclp.rtrancl_into_rtrancl)
  have "authentic sample_env sample_sig (MProposal sample_offer)" by (simp add: sample_offer_def)
  then
  obtain st s v where d: "Core_dispatch sample_env ?c (MProposal sample_offer) =
      Ret (startProposal (?c\<lparr>cMempool := m\<lparr>mStore := st, mSync := s\<rparr>\<rparr>) sample_offer, None)" (is "_ = Ret (?c1, None)")
    and get: "getConsensusBlock sample_env (?c\<lparr>cMempool := m\<lparr>mStore := st\<rparr>\<rparr>) (ConsensusBlock_Hash sample_env sample_paid) =
      Inr (Some sample_paid)"
    and st: "st = fst (Store_Write sample_env (mStore m) (ConsensusBlock_Hash sample_env sample_paid) v)"
    using sample_proposal_stored [OF r, of sample_paid sample_offer] m(2)
    by (simp add: sample_stores sample_stored_idle) blast
  have r1: "sample_reachable ?c1" by (rule idle_receives [OF r _ d]) (simp add: sample_stores)
  let ?h = "projr (NewHalt sample_env 1 1 (ConsensusBlock_Hash sample_env sample_paid) 0 0 sample_sig)"
  have "store_inv sample_env (mStore m)"
    using reachable_mempool_inv [OF r sample_store_ok] by (simp add: mempool_inv_def)
  then have "\<forall>d \<in> set (cbPayLoads sample_paid). readable sample_env (mStore (cMempool ?c1)) d"
    using m(2) by (simp add: st readable_Write)
  moreover have "getConsensusBlock sample_env ?c1 (hBlockHash ?h) = Inr (Some sample_paid)"
    using get by (simp add: getConsensusBlock_def)
  ultimately obtain c2 where c2: "handleHalt sample_env ?c1 ?h = Ret (c2, None)"
    "cCommitor c2 = Committor_Commit NewCommittor sample_paid"
    using halt_effect [of ?c1 ?h sample_env sample_paid] by (auto simp: sample_stores)
  have "message_Verify sample_env (cCommittee ?c1) (MHalt ?h) = Ret True"
    using sample_verifies [of "MHalt ?h"] by (simp add: sample_stores del: message_Verify.simps)
  with c2(1) have "Core_dispatch sample_env ?c1 (MHalt ?h) = Ret (c2, None)"
    by (simp add: Core_dispatch_def del: message_Verify.simps)
  from idle_receives [OF r1 _ this] have "sample_reachable c2" by (simp add: sample_stores)
  moreover have "commitCh (Committor_Commit NewCommittor sample_paid) = [sample_paid]"
    by (simp add: Committor_Commit_def NewCommittor_def commit_loop.simps commit_next_def i64_def)
  ultimately show ?thesis using c2(2) by auto
qed

section \<open>Counting votes\<close>

lemma sample_receives:
  assumes "core_log sample_env sample_node ms ds c" and "RecvCh c = []"
    and "Core_dispatch sample_env c m = Ret (c', x)"
  shows "core_log sample_env sample_node (ms @ [m]) (ds @ verdict sample_env c m) c'"
proof -
  have "core_log sample_env sample_node ms ds (core_self c m)"
    by (rule core_log.internal [OF assms(1) core_local.network])
  moreover have "RecvCh (core_self c m) = m # []" using assms(2) by (simp add: core_self_def)
  moreover have "Core_dispatch sample_env ((core_self c m)\<lparr>RecvCh := []\<rparr>) m = Ret (c', x)"
    using assms(3) by (simp only: RecvCh_idle [OF assms(2)])
  ultimately have "core_log sample_env sample_node (ms @ [m]) (ds @ verdict sample_env (core_self c m) m) c'"
    by (rule core_log.receive)
  moreover have "verdict sample_env (core_self c m) m = verdict sample_env c m"
    by (simp add: verdict_def core_self_def messgaeFilter_def split: message.split)
  ultimately show ?thesis by simp
qed

lemma sample_stored_log: "core_log sample_env sample_node [MProposal sample_first] [] sample_stored"
proof -
  have "core_log sample_env sample_node ([] @ [MProposal sample_first])
      ([] @ verdict sample_env sample_node (MProposal sample_first)) sample_stored"
    by (rule core_log.receive [OF core_log.start _ sample_stores(1)]) simp
  then show ?thesis by (simp add: verdict_def)
qed

definition sample_finvote :: "NodeID \<Rightarrow> int \<Rightarrow> FinVote" where
  "sample_finvote a flag = projr (NewFinVote sample_env a 0 0 0 flag Digest0 sample_sig)"

lemma sample_finvote_simps [simp]:
  "fvAuthor (sample_finvote a fl) = a" "fvEpoch (sample_finvote a fl) = 0" "fvRound (sample_finvote a fl) = 0"
  "fvFlag (sample_finvote a fl) = fl"
  by (simp_all add: sample_finvote_def)

lemma sample_finvote_verifies:
  "a \<in> {0, 1, 2, 3} \<Longrightarrow> message_Verify sample_env committee4 (MFinVote (sample_finvote a fl)) = Ret True"
  by (rule sample_verifies) (auto simp: sample_finvote_def)

lemma sample_counts:
  assumes "core_log sample_env sample_node ms ds c" and "RecvCh c = []" and "Epoch c = 0" and "cCommittee c = committee4"
    and "AddFinVote (cAggreator c) (sample_finvote a fl) = (ag, x)" and "a \<in> {0, 1, 2, 3}"
  shows "core_log sample_env sample_node (ms @ [MFinVote (sample_finvote a fl)])
      (ds @ map (\<lambda>y. (0, 0, y)) (decisions [x])) (fst (handleFinvote sample_env c (sample_finvote a fl)))"
proof -
  note v = sample_finvote_verifies [OF assms(6), of fl]
  obtain c' y where h: "handleFinvote sample_env c (sample_finvote a fl) = (c', y)" by fastforce
  have d: "Core_dispatch sample_env c (MFinVote (sample_finvote a fl)) = Ret (c', y)"
    using v h by (simp add: Core_dispatch_def assms(4) del: message_Verify.simps)
  from sample_receives [OF assms(1,2) d] v h assms(3-5) show ?thesis
    by (simp add: verdict_def messgaeFilter_def del: message_Verify.simps)
qed

text \<open>A vote that leaves the count open.\<close>

lemma sample_waits:
  assumes "Epoch c = 0" and "AddFinVote (cAggreator c) (sample_finvote a fl) = (ag, Inr ACTION_NONE)"
  shows "fst (handleFinvote sample_env c (sample_finvote a fl)) = c\<lparr>cAggreator := ag\<rparr>"
  using assms by (simp add: handleFinvote_def messgaeFilter_def)

text \<open>The counters after the votes \<open>vs\<close> of epoch 0, round 0.\<close>

definition sample_counter :: "FinVote list \<Rightarrow> FinVoteAggreator" where
  "sample_counter vs = fst (runs (FinVoteAggreator_Append committee4) NewFinVoteAggreator vs)"

definition sample_counted :: "FinVote list \<Rightarrow> Core" where
  "sample_counted vs = sample_stored\<lparr>cAggreator :=
     (NewAggreator committee4)\<lparr>finvoteAggreator := put2 Map.empty 0 0 (sample_counter vs)\<rparr>\<rparr>"

lemma sample_counted_simps [simp]:
  "RecvCh (sample_counted vs) = []" "Epoch (sample_counted vs) = 0" "cCommittee (sample_counted vs) = committee4"
  by (simp_all add: sample_counted_def sample_stores)

lemma sample_AddFinVote:
  assumes "FinVoteAggreator_Append committee4 (sample_counter vs) (sample_finvote a fl) = (f, x)"
  shows "AddFinVote (cAggreator (sample_counted vs)) (sample_finvote a fl) =
      (cAggreator (sample_counted (vs @ [sample_finvote a fl])), x)"
    and "vs = [] \<Longrightarrow> AddFinVote (cAggreator sample_stored) (sample_finvote a fl) =
      (cAggreator (sample_counted [sample_finvote a fl]), x)"
  using assms
  by (simp_all add: AddFinVote_def sample_counted_def sample_counter_def runs_append NewAggreator_def counter_at_def
      sample_stores put2_def get2_def inner_def)

lemma sample_count_first:
  assumes "a \<in> {0, 1, 2, 3}"
  shows "core_log sample_env sample_node [MProposal sample_first, MFinVote (sample_finvote a fl)] []
    (sample_counted [sample_finvote a fl])"
proof -
  obtain f where "FinVoteAggreator_Append committee4 (sample_counter []) (sample_finvote a fl) = (f, Inr ACTION_NONE)"
    by (cases "fl = VOTE_FLAG_YES")
      (simp_all add: sample_counter_def FinVoteAggreator_Append_def NewFinVoteAggreator_def)
  note add = sample_AddFinVote(2) [OF this refl]
  from sample_counts [OF sample_stored_log sample_stores(3,5,7) add assms] sample_waits [OF sample_stores(5) add]
  show ?thesis by (simp add: sample_counted_def)
qed

lemma sample_count_next:
  assumes "core_log sample_env sample_node ms ds (sample_counted vs)" and "a \<in> {0, 1, 2, 3}"
    and "FinVoteAggreator_Append committee4 (sample_counter vs) (sample_finvote a fl) = (f, Inr ACTION_NONE)"
  shows "core_log sample_env sample_node (ms @ [MFinVote (sample_finvote a fl)]) ds
    (sample_counted (vs @ [sample_finvote a fl]))"
proof -
  note add = sample_AddFinVote(1) [OF assms(3)]
  have "fst (handleFinvote sample_env (sample_counted vs) (sample_finvote a fl)) = sample_counted (vs @ [sample_finvote a fl])"
    by (subst sample_waits [OF sample_counted_simps(2) add]) (simp add: sample_counted_def)
  with sample_counts [OF assms(1) sample_counted_simps add assms(2)] show ?thesis by simp
qed

lemma sample_count_last:
  assumes "core_log sample_env sample_node ms ds (sample_counted vs)" and "a \<in> {0, 1, 2, 3}"
    and "FinVoteAggreator_Append committee4 (sample_counter vs) (sample_finvote a fl) = (f, Inr y)" and "y \<noteq> ACTION_NONE"
  shows "core_log sample_env sample_node (ms @ [MFinVote (sample_finvote a fl)]) (ds @ [(0, 0, y)])
    (fst (handleFinvote sample_env (sample_counted vs) (sample_finvote a fl)))"
  using sample_counts [OF assms(1) sample_counted_simps sample_AddFinVote(1) [OF assms(3)] assms(2)] assms(4) by simp

text \<open>All yes, and one yes followed by two no.\<close>

lemma sample_log_commit:
  "core_log sample_env sample_node [MProposal sample_first, MFinVote (sample_finvote 0 VOTE_FLAG_YES),
     MFinVote (sample_finvote 1 VOTE_FLAG_YES), MFinVote (sample_finvote 3 VOTE_FLAG_YES)] [(0, 0, ACTION_COMMIT)]
     (fst (handleFinvote sample_env (sample_counted [sample_finvote 0 VOTE_FLAG_YES, sample_finvote 1 VOTE_FLAG_YES])
        (sample_finvote 3 VOTE_FLAG_YES)))"
proof -
  have "core_log sample_env sample_node ([MProposal sample_first, MFinVote (sample_finvote 0 VOTE_FLAG_YES)]
      @ [MFinVote (sample_finvote 1 VOTE_FLAG_YES)]) []
      (sample_counted ([sample_finvote 0 VOTE_FLAG_YES] @ [sample_finvote 1 VOTE_FLAG_YES]))"
    by (rule sample_count_next [OF sample_count_first])
      (simp_all add: sample_counter_def FinVoteAggreator_Append_def NewFinVoteAggreator_def)
  from sample_count_last [OF this, of 3 VOTE_FLAG_YES _ ACTION_COMMIT] show ?thesis
    by (simp add: sample_counter_def FinVoteAggreator_Append_def NewFinVoteAggreator_def)
qed

lemma sample_log_mixed:
  "core_log sample_env sample_node [MProposal sample_first, MFinVote (sample_finvote 1 VOTE_FLAG_YES),
     MFinVote (sample_finvote 3 VOTE_FLAG_NO), MFinVote (sample_finvote 2 VOTE_FLAG_NO)] [(0, 0, ACTION_YES)]
     (fst (handleFinvote sample_env (sample_counted [sample_finvote 1 VOTE_FLAG_YES, sample_finvote 3 VOTE_FLAG_NO])
        (sample_finvote 2 VOTE_FLAG_NO)))"
proof -
  have "core_log sample_env sample_node ([MProposal sample_first, MFinVote (sample_finvote 1 VOTE_FLAG_YES)]
      @ [MFinVote (sample_finvote 3 VOTE_FLAG_NO)]) []
      (sample_counted ([sample_finvote 1 VOTE_FLAG_YES] @ [sample_finvote 3 VOTE_FLAG_NO]))"
    by (rule sample_count_next [OF sample_count_first])
      (simp_all add: sample_counter_def FinVoteAggreator_Append_def NewFinVoteAggreator_def)
  from sample_count_last [OF this, of 2 VOTE_FLAG_NO _ ACTION_YES] show ?thesis
    by (simp add: sample_counter_def FinVoteAggreator_Append_def NewFinVoteAggreator_def)
qed

section \<open>Counting Finish messages\<close>

definition sample_finish :: "NodeID \<Rightarrow> Finish" where
  "sample_finish a = projr (NewFinish sample_env a Digest0 0 0 sample_sig)"

lemma sample_finish_simps [simp]:
  "fAuthor (sample_finish a) = a" "fEpoch (sample_finish a) = 0" "fRound (sample_finish a) = 0"
  by (simp_all add: sample_finish_def)

lemma sample_finish_verifies:
  "a \<in> {0, 1, 2, 3} \<Longrightarrow> message_Verify sample_env committee4 (MFinish (sample_finish a)) = Ret True"
  by (rule sample_verifies) (auto simp: sample_finish_def)

definition sample_finishes :: "NodeID list \<Rightarrow> Core" where
  "sample_finishes as = foldl (\<lambda>c a. fst (handleFinish sample_env c (sample_finish a))) sample_stored as"

text \<open>A Finish message arrives at a node that waits in epoch 0.\<close>

lemma sample_finish_next:
  assumes log: "core_log sample_env sample_node ms ds c" and "RecvCh c = []" and "Epoch c = 0"
    and "heard_finishes (cAggreator c) 0 0 = set as" and "a \<in> {0, 1, 2, 3}"
    and c': "c' = fst (handleFinish sample_env c (sample_finish a))"
  shows "core_log sample_env sample_node (ms @ [MFinish (sample_finish a)]) ds c'"
    and "heard_finishes (cAggreator c') 0 0 = set (a # as)" and "Epoch c' = 0"
    and "card (set (a # as)) < 3 \<Longrightarrow> RecvCh c' = []"
proof -
  let ?m = "MFinish (sample_finish a)"
  have "sample_reachable c"
    using log core_log_iff [of sample_env sample_node c] by (auto simp: core_reachable_def sample_node_init)
  from reachable_committee [OF this] have cm: "cCommittee c = committee4" "aCommittee (cAggreator c) = committee4"
    by simp_all
  moreover have "\<not> messgaeFilter c (fEpoch (sample_finish a))" by (simp add: messgaeFilter_def assms(3))
  ultimately show "heard_finishes (cAggreator c') 0 0 = set (a # as)" "Epoch c' = 0"
    "card (set (a # as)) < 3 \<Longrightarrow> RecvCh c' = []"
    using handleFinish_below [of c "sample_finish a" sample_env] assms(2-4) by (simp_all add: c' hi_def)
  have "Core_dispatch sample_env c ?m = Ret (c', snd (handleFinish sample_env c (sample_finish a)))"
    using sample_finish_verifies [OF assms(5)] by (simp add: Core_dispatch_def cm c' del: message_Verify.simps)
  from sample_receives [OF log assms(2) this] show "core_log sample_env sample_node (ms @ [?m]) ds c'"
    by (simp add: verdict_def)
qed

lemma sample_finishes_log:
  "core_log sample_env sample_node [MProposal sample_first, MFinish (sample_finish 0), MFinish (sample_finish 1),
     MFinish (sample_finish 2)] [] (sample_finishes [0, 1, 2])"
  "Epoch (sample_finishes [0, 1, 2]) = 0"
proof -
  have 0: "heard_finishes (cAggreator sample_stored) 0 0 = set []"
    by (simp add: sample_stores heard_finishes_def counter_at_def NewAggreator_def NewFinishAggreator_def)
  let ?c1 = "fst (handleFinish sample_env sample_stored (sample_finish 0))"
  note 1 = sample_finish_next [OF sample_stored_log sample_stores(3,5) 0, of 0 ?c1, OF _ refl]
  have r1: "RecvCh ?c1 = []" by (rule 1(4)) simp_all
  let ?c2 = "fst (handleFinish sample_env ?c1 (sample_finish 1))"
  note 2 = sample_finish_next [OF 1(1) r1 1(3,2), of 1 ?c2, OF _ _ _ _ refl]
  have r2: "RecvCh ?c2 = []" by (rule 2(4)) simp_all
  note 3 = sample_finish_next [OF 2(1) r2 2(3,2), of 2 "sample_finishes [0, 1, 2]"]
  show "core_log sample_env sample_node [MProposal sample_first, MFinish (sample_finish 0), MFinish (sample_finish 1),
      MFinish (sample_finish 2)] [] (sample_finishes [0, 1, 2])"
    using 3(1) by (simp add: sample_finishes_def)
  show "Epoch (sample_finishes [0, 1, 2]) = 0" by (rule 3(3)) (simp_all add: sample_finishes_def)
qed

section \<open>Counting a prevote\<close>

definition sample_prevote :: Prevote where
  "sample_prevote = projr (NewPrevote sample_env 1 0 0 0 VOTE_FLAG_YES Digest0 sample_sig)"

lemma sample_prevote_simps [simp]:
  "pvAuthor sample_prevote = 1" "pvEpoch sample_prevote = 0" "pvRound sample_prevote = 0"
  "pvFlag sample_prevote = VOTE_FLAG_YES"
  by (simp_all add: sample_prevote_def)

definition sample_prevoted :: Core where
  "sample_prevoted = fst (handlePrevote sample_env sample_stored sample_prevote)"

lemma sample_prevoted_reachable: "sample_reachable sample_prevoted"
proof -
  have "message_Verify sample_env committee4 (MPrevote sample_prevote) = Ret True"
    by (rule sample_verifies) (simp_all add: sample_prevote_def)
  then have "Core_dispatch sample_env sample_stored (MPrevote sample_prevote) =
      Ret (sample_prevoted, snd (handlePrevote sample_env sample_stored sample_prevote))"
    by (simp add: Core_dispatch_def sample_stores(7) sample_prevoted_def del: message_Verify.simps)
  from idle_receives [OF sample_stored_reachable sample_stores(3) this] show ?thesis .
qed

lemma sample_prevoted_heard:
  "pvaYesNums (heard_prevotes (cAggreator sample_prevoted) 0 0) = 1"
  "pvaNoNums (heard_prevotes (cAggreator sample_prevoted) 0 0) = 0"
  by (simp_all add: sample_prevoted_def handlePrevote_def messgaeFilter_def sample_stores AddPreVote_def heard_prevotes_def
      counter_at_def NewAggreator_def NewPrevoteAggreator_def PreVoteAggreator_Append_def core_broadcast_def core_effects)

end
