(* ===== verification/Deploy.thy ===== *)
theory Deploy
  imports Boot Scenario
begin

text \<open>
  A cluster on one machine: the files that the local benchmark (\<^verbatim>\<open>benchmark/benchmark/local.py\<close>,
  with \<^verbatim>\<open>config.py\<close> and the names of \<^verbatim>\<open>utils.py\<close>) prepares with the program's own commands, and
  the nodes it then runs. A Python exception is \<open>Panic\<close>. The files are removed first, so that a
  JSON text is all of its file.
\<close>

section \<open>File names\<close>

definition PathMaker_key_file :: "nat \<Rightarrow> string" where
  "PathMaker_key_file i = ''.node-key-'' @ Itoa (int i) @ ''.json''"

definition PathMaker_threshold_key_file :: "nat \<Rightarrow> string" where
  "PathMaker_threshold_key_file i = ''.node-ts-key-'' @ Itoa (int i) @ ''.json''"

abbreviation (input) committee_file :: string where "committee_file \<equiv> ''.committee.json''"
abbreviation (input) parameters_file :: string where "parameters_file \<equiv> ''.parameters.json''"



text \<open>\<^verbatim>\<open>rm -f .*.json\<close> in the working directory.\<close>

definition cleanup_configs :: "filesystem \<Rightarrow> filesystem" where
  "cleanup_configs fs = fs\<lparr>files := (\<lambda>p. case p of
       [w] \<Rightarrow> if 6 \<le> length w \<and> take 1 w = ''.'' \<and> drop (length w - 5) w = ''.json'' then None else files fs p
     | _ \<Rightarrow> files fs p)\<rparr>"

section \<open>Keys and the committee\<close>










section \<open>The benchmark\<close>






section \<open>Facts\<close>

lemma resolve_plain: "CHR ''/'' \<notin> set name \<Longrightarrow> name \<noteq> [] \<Longrightarrow> name \<noteq> ''.'' \<Longrightarrow> resolve name = [name]"
  by (cases name) (auto simp: resolve_def)

lemma resolve_here: "resolve (''./'' @ ''/'') = []"
  by (simp add: resolve_def)

lemma resolve_names [simp]:
  "resolve (PathMaker_key_file i) = [PathMaker_key_file i]"
  "resolve (PathMaker_threshold_key_file i) = [PathMaker_threshold_key_file i]"
  "resolve (key_file ''./'' i) = [PathMaker_key_file i]"
  "resolve (ts_key_file ''./'' i) = [PathMaker_threshold_key_file i]"
  "resolve committee_file = [committee_file]" "resolve parameters_file = [parameters_file]"
  unfolding resolve_key_file resolve_ts_key_file resolve_here PathMaker_key_file_def PathMaker_threshold_key_file_def
  using Itoa_no_slash [of i] by (simp_all add: resolve_plain)

lemma names_differ [simp]:
  "PathMaker_key_file i \<noteq> PathMaker_threshold_key_file j"
  "PathMaker_key_file i \<noteq> committee_file" "PathMaker_key_file i \<noteq> parameters_file"
  "PathMaker_threshold_key_file i \<noteq> committee_file" "PathMaker_threshold_key_file i \<noteq> parameters_file"
  by (simp_all add: PathMaker_key_file_def PathMaker_threshold_key_file_def)

lemma cleanup_denied [simp]: "denied (cleanup_configs fs) = denied fs"
  by (simp add: cleanup_configs_def)





























section \<open>A start that goes well\<close>




























section \<open>Sample cluster\<close>






section \<open>Properties\<close>



end
