(* ===== verification/Consistency.thy ===== *)
theory Consistency
  imports Commit_Order Config "HOL-Library.Sublist"
begin

text \<open>
  The consistency check of the benchmark (\<^verbatim>\<open>benchmark/consistency.py\<close>): it reads the commit reports
  that the committors of the nodes have logged and compares their order. The lines are those the
  goroutine \<^verbatim>\<open>run\<close> of \<^verbatim>\<open>commitor.go\<close> prints through the info log.
\<close>

section \<open>Commit reports\<close>

text \<open>One line of the info log, with the time stamp the \<^verbatim>\<open>log\<close> package puts there.\<close>

definition report_line :: "string \<Rightarrow> NodeID \<times> int \<Rightarrow> string" where
  "report_line stamp r =
     ''[INFO] '' @ stamp @ '' commitor.go:50: commit Block node '' @ Itoa (fst r) @ '' batch_id '' @ Itoa (snd r) @ '' ''"

section \<open>Extraction\<close>

fun strip_prefix :: "string \<Rightarrow> string \<Rightarrow> string option" where
  "strip_prefix [] s = Some s"
| "strip_prefix (p # ps) [] = None"
| "strip_prefix (p # ps) (x # xs) = (if p = x then strip_prefix ps xs else None)"

text \<open>The pattern at the head of a text: its two groups and what follows.\<close>

definition match_commit :: "string \<Rightarrow> ((string \<times> string) \<times> string) option" where
  "match_commit s =
     (case strip_prefix ''commit Block node '' s of
        None \<Rightarrow> None
      | Some t \<Rightarrow>
          (case strip_prefix '' batch_id '' (dropWhile is_digit t) of
             None \<Rightarrow> None
           | Some u \<Rightarrow>
               if takeWhile is_digit t = [] \<or> takeWhile is_digit u = [] then None
               else Some ((takeWhile is_digit t, takeWhile is_digit u), dropWhile is_digit u)))"

lemma strip_prefix_length: "strip_prefix p s = Some t \<Longrightarrow> length s = length p + length t"
  by (induction p s rule: strip_prefix.induct) (auto split: if_splits)

lemma match_commit_shorter:
  assumes "match_commit s = Some (m, rest)"
  shows "length rest < length s"
proof -
  from assms obtain t u where t: "strip_prefix ''commit Block node '' s = Some t"
    and u: "strip_prefix '' batch_id '' (dropWhile is_digit t) = Some u" "rest = dropWhile is_digit u"
    by (auto simp: match_commit_def split: option.splits if_splits)
  have "length s = 18 + length t" using strip_prefix_length [OF t] by simp
  moreover have "length (dropWhile is_digit t) = 10 + length u" using strip_prefix_length [OF u(1)] by simp
  moreover note length_dropWhile_le [of is_digit t] length_dropWhile_le [of is_digit u]
  ultimately show ?thesis unfolding u(2) by linarith
qed

function findall :: "string \<Rightarrow> (string \<times> string) list" where
  "findall [] = []"
| "findall (x # xs) =
     (case match_commit (x # xs) of Some (m, rest) \<Rightarrow> m # findall rest | None \<Rightarrow> findall xs)"
  by pat_completeness auto

termination
  by (relation "measure length") (auto dest: match_commit_shorter)

definition extract_committed_digests :: "string list \<Rightarrow> (string \<times> string) list" where
  "extract_committed_digests lines = foldl (\<lambda>digests line. digests @ findall line) [] lines"

section \<open>Comparison\<close>

definition remove_duplicates :: "'x list \<Rightarrow> 'x list \<times> nat" where
  "remove_duplicates seq =
     (case foldl (\<lambda>(seen, result, count) item.
         if item \<notin> seen then (insert item seen, result @ [item], count) else (seen, result, count + 1))
       ({}, [], 0) seq of (_, result, count) \<Rightarrow> (result, count))"

text \<open>The first of the longest sequences.\<close>

fun longest :: "string \<times> 'x list \<Rightarrow> (string \<times> 'x list) list \<Rightarrow> string \<times> 'x list" where
  "longest best [] = best"
| "longest best (e # es) = longest (if length (snd best) < length (snd e) then e else best) es"

definition compare_digest_sequences :: "(string \<times> string list) list \<Rightarrow> bool outcome" where
  "compare_digest_sequences log_files =
     (let digest_sequences = foldl (\<lambda>d (f, lines).
            AList.update f (fst (remove_duplicates (extract_committed_digests lines))) d) [] log_files
      in case digest_sequences of
           [] \<Rightarrow> Panic ''ValueError: max() arg is an empty sequence''
         | e # es \<Rightarrow>
             let (ref_file, ref_digests) = longest e es
             in Ret (foldl (\<lambda>all_match (f, digests).
                  if f = ref_file then all_match
                  else if digests \<noteq> take (length digests) ref_digests then False else all_match) True digest_sequences))"

section \<open>Facts\<close>

lemma findall_skip: "x \<noteq> CHR ''c'' \<Longrightarrow> findall (x # xs) = findall xs"
  by (simp add: match_commit_def)

lemma findall_skip_all: "CHR ''c'' \<notin> set s \<Longrightarrow> findall (s @ t) = findall t"
  by (induction s) (auto simp: findall_skip simp del: findall.simps(2))

lemma digits_Itoa:
  "takeWhile is_digit (Itoa (int i) @ CHR '' '' # s) = Itoa (int i)"
  "dropWhile is_digit (Itoa (int i) @ CHR '' '' # s) = CHR '' '' # s"
  using Itoa_digits [of _ i] by (simp_all add: takeWhile_append2 dropWhile_append2 is_digit_def)

lemma Itoa_not_Nil [simp]: "Itoa (int i) \<noteq> []"
  by (simp add: Itoa_def)

lemma findall_report:
  assumes "CHR ''c'' \<notin> set stamp"
  shows "findall (report_line stamp (int p, int b)) = [(Itoa (int p), Itoa (int b))]"
proof -
  let ?tail = "Itoa (int p) @ '' batch_id '' @ Itoa (int b) @ '' ''"
  have "findall (report_line stamp (int p, int b)) = findall ('' commitor.go:50: commit Block node '' @ ?tail)"
    using findall_skip_all [of "''[INFO] '' @ stamp" "'' commitor.go:50: commit Block node '' @ ?tail"] assms
    by (simp add: report_line_def del: findall.simps)
  also have "\<dots> = findall (''commit Block node '' @ ?tail)"
    by (simp add: match_commit_def)
  also have "\<dots> = (Itoa (int p), Itoa (int b)) # findall '' ''"
  proof -
    have "match_commit (''commit Block node '' @ ?tail) = Some ((Itoa (int p), Itoa (int b)), '' '')"
      using digits_Itoa [of p "''batch_id '' @ Itoa (int b) @ '' ''"] digits_Itoa [of b "[]"]
      by (simp add: match_commit_def)
    then show ?thesis by (simp del: append.simps(2) add: append.simps(2) [of _ _ ?tail])
  qed
  finally show ?thesis by (simp add: match_commit_def)
qed

lemma extract_reports:
  assumes "\<forall>(t, p, b) \<in> set rs. CHR ''c'' \<notin> set t"
  shows "extract_committed_digests (map (\<lambda>(t, p, b). report_line t (int p, int b)) rs) =
    map (\<lambda>(t, p, b). (Itoa (int p), Itoa (int b))) rs"
proof -
  have "foldl (\<lambda>ds line. ds @ findall line) ds ls = ds @ concat (map findall ls)" for ds ls
    by (induction ls arbitrary: ds) simp_all
  then have "extract_committed_digests (map (\<lambda>(t, p, b). report_line t (int p, int b)) rs) =
      concat (map (\<lambda>(t, p, b). findall (report_line t (int p, int b))) rs)"
    by (simp add: extract_committed_digests_def comp_def case_prod_unfold)
  also have "\<dots> = map (\<lambda>(t, p, b). (Itoa (int p), Itoa (int b))) rs"
    using assms by (induction rs) (auto simp: findall_report)
  finally show ?thesis .
qed

text \<open>The loop of \<^verbatim>\<open>remove_duplicates\<close> keeps the first occurrence of every item.\<close>

definition first_occurrences :: "'x list \<Rightarrow> 'x list" where
  "first_occurrences xs = rev (remdups (rev xs))"

lemma remove_duplicates_loop:
  "\<exists>count'. foldl (\<lambda>(seen, result, count) item.
      if item \<notin> seen then (insert item seen, result @ [item], count) else (seen, result, count + 1))
    (set ys, first_occurrences ys, count) xs = (set (ys @ xs), first_occurrences (ys @ xs), count') \<and>
    count' + length (first_occurrences (ys @ xs)) = count + length (first_occurrences ys) + length xs"
proof (induction xs arbitrary: ys count)
  case (Cons x xs)
  show ?case
  proof (cases "x \<in> set ys")
    case True
    with Cons [of "ys @ [x]" "count + 1"] show ?thesis by (simp add: first_occurrences_def insert_absorb)
  next
    case False
    with Cons [of "ys @ [x]" count] show ?thesis by (simp add: first_occurrences_def)
  qed
qed simp

lemma remove_duplicates_first:
  "fst (remove_duplicates xs) = first_occurrences xs"
  "snd (remove_duplicates xs) + length (first_occurrences xs) = length xs"
  using remove_duplicates_loop [of "[]" 0 xs] by (auto simp: remove_duplicates_def first_occurrences_def)

lemma remdups_map_inj: "inj_on f (set xs) \<Longrightarrow> remdups (map f xs) = map f (remdups xs)"
  by (induction xs) (auto simp: inj_on_def)

lemma first_occurrences_map: "inj_on f (set xs) \<Longrightarrow> first_occurrences (map f xs) = map f (first_occurrences xs)"
  using remdups_map_inj [of f "rev xs"] by (simp add: first_occurrences_def rev_map)

lemma prefix_map_inj: "inj f \<Longrightarrow> prefix (map f xs) (map f ys) \<longleftrightarrow> prefix xs ys"
proof (induction xs arbitrary: ys)
  case (Cons x xs)
  then show ?case by (cases ys) (auto simp: inj_eq)
qed simp

lemma longest_max:
  "longest e es \<in> set (e # es) \<and> (\<forall>x \<in> set (e # es). length (snd x) \<le> length (snd (longest e es)))"
proof (induction es arbitrary: e)
  case (Cons x es)
  from Cons [of "if length (snd e) < length (snd x) then x else e"] show ?case by auto
qed simp

text \<open>The verdict: every sequence is a prefix of the reference, that is, any two are comparable.\<close>

lemma prefixes_of_longest:
  assumes "r \<in> S" and "\<And>s. s \<in> S \<Longrightarrow> length s \<le> length r"
  shows "(\<forall>s \<in> S. s = take (length s) r) \<longleftrightarrow> (\<forall>s \<in> S. \<forall>t \<in> S. prefix s t \<or> prefix t s)"
proof
  assume "\<forall>s \<in> S. s = take (length s) r"
  then have "\<forall>s \<in> S. prefix s r" by (metis take_is_prefix)
  then show "\<forall>s \<in> S. \<forall>t \<in> S. prefix s t \<or> prefix t s" by (metis prefix_same_cases)
next
  assume "\<forall>s \<in> S. \<forall>t \<in> S. prefix s t \<or> prefix t s"
  with assms have "\<forall>s \<in> S. prefix s r" by (metis prefix_length_prefix prefix_order.refl)
  then show "\<forall>s \<in> S. s = take (length s) r" by (auto simp: prefix_def)
qed

lemma all_match_loop:
  "foldl (\<lambda>all_match (f, digests).
      if f = r then all_match else if digests \<noteq> take (length digests) d then False else all_match) ok es \<longleftrightarrow>
    ok \<and> (\<forall>(f, digests) \<in> set es. f = r \<or> digests = take (length digests) d)"
  by (induction es arbitrary: ok) auto

lemma compare_verdict:
  assumes "distinct (map fst log_files)" and "log_files \<noteq> []"
  shows "compare_digest_sequences log_files =
    Ret (\<forall>s \<in> (\<lambda>e. first_occurrences (extract_committed_digests (snd e))) ` set log_files.
         \<forall>t \<in> (\<lambda>e. first_occurrences (extract_committed_digests (snd e))) ` set log_files. prefix s t \<or> prefix t s)"
proof -
  let ?seq = "\<lambda>e :: string \<times> string list. first_occurrences (extract_committed_digests (snd e))"
  define ds where "ds = map (\<lambda>e. (fst e, ?seq e)) log_files"
  define S where "S = snd ` set ds"
  have S: "S = ?seq ` set log_files" by (simp add: S_def ds_def image_comp comp_def)
  have loop: "foldl (\<lambda>d (f, lines). AList.update f (fst (remove_duplicates (extract_committed_digests lines))) d) [] log_files = ds"
    using foldl_update [OF assms(1), of ?seq] by (simp add: case_prod_unfold remove_duplicates_first ds_def)
  have "ds \<noteq> []" using assms(2) by (simp add: ds_def)
  then obtain e es where e: "ds = e # es" by (cases ds) simp_all
  obtain r d where r: "longest e es = (r, d)" by (cases "longest e es") simp
  have rd: "(r, d) \<in> set ds" "\<And>x. x \<in> set ds \<Longrightarrow> length (snd x) \<le> length d"
    using longest_max [of e es, folded e, unfolded r] by simp_all
  have longest: "d \<in> S" "\<And>s. s \<in> S \<Longrightarrow> length s \<le> length d" unfolding S_def using rd by force+
  have "distinct (map fst ds)" using assms(1) by (simp add: ds_def comp_def)
  then have own: "s = d" if "(r, s) \<in> set ds" for s
    using rd(1) that by (meson eq_key_imp_eq_value)
  have "(\<forall>(f, s) \<in> set ds. f = r \<or> s = take (length s) d) \<longleftrightarrow> (\<forall>s \<in> S. s = take (length s) d)"
    unfolding S_def using own by fastforce
  also have "\<dots> \<longleftrightarrow> (\<forall>s \<in> S. \<forall>t \<in> S. prefix s t \<or> prefix t s)"
    using longest by (rule prefixes_of_longest)
  finally have "compare_digest_sequences log_files = Ret (\<forall>s \<in> S. \<forall>t \<in> S. prefix s t \<or> prefix t s)"
    unfolding compare_digest_sequences_def loop Let_def by (simp add: e r all_match_loop del: list.set)
  then show ?thesis by (simp only: S)
qed

section \<open>Property\<close>

text \<open>
  C40. The consistency check is exact. Given the info logs of one or more nodes, each a sequence of
  commit reports as the committor prints them, the check succeeds if and only if the reports of any
  two nodes, without repetitions, agree in order as far as the shorter one reaches.
\<close>

theorem consistency_check_exact:
  assumes "distinct (map fst logs)" and "logs \<noteq> []"
    and "\<forall>(f, rs) \<in> set logs. \<forall>(t, p, b) \<in> set rs. CHR ''c'' \<notin> set t"
  shows "compare_digest_sequences (map (\<lambda>(f, rs). (f, map (\<lambda>(t, p, b). report_line t (int p, int b)) rs)) logs) =
    Ret (\<forall>x \<in> set logs. \<forall>y \<in> set logs.
      prefix (first_occurrences (map snd (snd x))) (first_occurrences (map snd (snd y))) \<or>
      prefix (first_occurrences (map snd (snd y))) (first_occurrences (map snd (snd x))))"
proof -
  let ?text = "\<lambda>(p, b). (Itoa (int p), Itoa (int b))"
  let ?lines = "\<lambda>rs. map (\<lambda>(t, p, b). report_line t (int p, int b)) rs"
  let ?files = "map (\<lambda>(f, rs). (f, ?lines rs)) logs"
  have inj: "inj ?text" by (auto simp: inj_def Itoa_inj)
  have seq: "first_occurrences (extract_committed_digests (?lines (snd x))) =
      map ?text (first_occurrences (map snd (snd x)))" if "x \<in> set logs" for x
  proof -
    have "extract_committed_digests (?lines (snd x)) = map ?text (map snd (snd x))"
      using extract_reports [of "snd x"] assms(3) that by (auto simp: case_prod_unfold)
    then show ?thesis using inj by (simp add: first_occurrences_map inj_on_subset del: map_map)
  qed
  have "distinct (map fst ?files)" "?files \<noteq> []" using assms(1,2) by (simp_all add: comp_def case_prod_unfold)
  from compare_verdict [OF this] have "compare_digest_sequences ?files =
      Ret (\<forall>x \<in> set logs. \<forall>y \<in> set logs.
        prefix (map ?text (first_occurrences (map snd (snd x)))) (map ?text (first_occurrences (map snd (snd y)))) \<or>
        prefix (map ?text (first_occurrences (map snd (snd y)))) (map ?text (first_occurrences (map snd (snd x)))))"
    using seq by (simp add: case_prod_unfold)
  then show ?thesis by (simp only: prefix_map_inj [OF inj])
qed

theorem consistency_check_exact_witness:
  "compare_digest_sequences
      [(''node-info-0.log'', [report_line ''11:27'' (0, 1), report_line ''11:28'' (0, 1), report_line ''11:29'' (3, 2)]),
       (''node-info-1.log'', [report_line ''11:27'' (0, 1)])] = Ret True \<and>
   compare_digest_sequences
      [(''node-info-0.log'', [report_line ''11:27'' (0, 1), report_line ''11:28'' (3, 2)]),
       (''node-info-1.log'', [report_line ''11:27'' (3, 2)])] = Ret False"
  using consistency_check_exact
      [of "[(''node-info-0.log'', [(''11:27'', 0, 1), (''11:28'', 0, 1), (''11:29'', 3, 2)]), (''node-info-1.log'', [(''11:27'', 0, 1)])]"]
    consistency_check_exact
      [of "[(''node-info-0.log'', [(''11:27'', 0, 1), (''11:28'', 3, 2)]), (''node-info-1.log'', [(''11:27'', 3, 2)])]"]
  by (simp add: first_occurrences_def)

end
