(* ===== verification/Cluster.thy ===== *)
theory Cluster
  imports Scenario
begin

text \<open>
  Several nodes of one committee and the network between them. The correct members \<open>H\<close> run the
  code; the network delivers any message to any of them at any time, in any order and as often as
  it likes, but, coin shares apart, not a message that passes the signature check in the name of a
  correct member who never sent it (so it makes no use of messages with equal digests, which exist: see
  \<open>done_digest_collision\<close>). What faulty members send is arbitrary. \<open>taken\<close> and \<open>concluded\<close> are the log of a
  node's execution: the messages its main loop took and what it concluded from final votes.
\<close>

section \<open>Steps\<close>

record Cluster =
  nodes :: "NodeID \<Rightarrow> Core"
  taken :: "NodeID \<Rightarrow> message list"
  concluded :: "NodeID \<Rightarrow> (int \<times> int \<times> int) list"

text \<open>The check of a coin share always succeeds: anyone can send one in the name of anyone.\<close>

fun coin_share :: "message \<Rightarrow> bool" where
  "coin_share (MElectShare _) = True"
| "coin_share _ = False"

definition genuine :: "('a consensus_env_scheme) \<Rightarrow> Committee \<Rightarrow> NodeID set \<Rightarrow> Cluster \<Rightarrow> message \<Rightarrow> bool" where
  "genuine E cm H g m \<longleftrightarrow>
     (\<not> coin_share m \<and> message_Verify E cm m = Ret True \<and> message_author m \<in> H \<longrightarrow>
        m \<in> set (messages (nodes g (message_author m))))"

inductive cluster_step ::
  "('a consensus_env_scheme) \<Rightarrow> Committee \<Rightarrow> NodeID set \<Rightarrow> Cluster \<Rightarrow> Cluster \<Rightarrow> bool"
  for E :: "'a consensus_env_scheme" and cm :: Committee and H :: "NodeID set" where
  deliver: "n \<in> H \<Longrightarrow> genuine E cm H g m \<Longrightarrow>
    cluster_step E cm H g (g\<lparr>nodes := (nodes g)(n := core_self (nodes g n) m)\<rparr>)"
| take_message: "n \<in> H \<Longrightarrow> RecvCh (nodes g n) = m # rest \<Longrightarrow>
    Core_dispatch E ((nodes g n)\<lparr>RecvCh := rest\<rparr>) m = Ret (c', x) \<Longrightarrow>
    cluster_step E cm H g
      (g\<lparr>nodes := (nodes g)(n := c'), taken := (taken g)(n := taken g n @ [m]),
         concluded := (concluded g)(n := concluded g n @ verdict E (nodes g n) m)\<rparr>)"
| work: "n \<in> H \<Longrightarrow> core_work E (nodes g n) c' \<Longrightarrow>
    cluster_step E cm H g (g\<lparr>nodes := (nodes g)(n := c')\<rparr>)"

text \<open>All members start with the same committee and each with its own key, store and pool.\<close>

definition cluster_init ::
  "('a consensus_env_scheme) \<Rightarrow> Committee \<Rightarrow> (NodeID \<Rightarrow> Parameters) \<Rightarrow> (NodeID \<Rightarrow> SigService)
   \<Rightarrow> (NodeID \<Rightarrow> Store) \<Rightarrow> (NodeID \<Rightarrow> PoolState) \<Rightarrow> Cluster" where
  "cluster_init E cm ps sg st txs =
     \<lparr>nodes = (\<lambda>n. core_init E n cm (ps n) (sg n) (st n) (txs n)), taken = (\<lambda>_. []), concluded = (\<lambda>_. [])\<rparr>"

definition cluster_reachable ::
  "('a consensus_env_scheme) \<Rightarrow> Committee \<Rightarrow> NodeID set \<Rightarrow> (NodeID \<Rightarrow> Parameters) \<Rightarrow> (NodeID \<Rightarrow> SigService)
   \<Rightarrow> (NodeID \<Rightarrow> Store) \<Rightarrow> (NodeID \<Rightarrow> PoolState) \<Rightarrow> Cluster \<Rightarrow> bool" where
  "cluster_reachable E cm H ps sg st txs g \<longleftrightarrow> (cluster_step E cm H)\<^sup>*\<^sup>* (cluster_init E cm ps sg st txs) g"

section \<open>One node of the cluster\<close>

text \<open>What a member does is an execution of a node in the environment the others make up.\<close>

lemma cluster_log:
  assumes "cluster_reachable E cm H ps sg st txs g"
  shows "core_log E (core_init E n cm (ps n) (sg n) (st n) (txs n)) (taken g n) (concluded g n) (nodes g n)"
  using assms unfolding cluster_reachable_def
proof (induction rule: rtranclp_induct)
  case base
  show ?case by (simp add: cluster_init_def core_log.start)
next
  case (step g g')
  from step.hyps(2) step.IH show ?case
    by (cases rule: cluster_step.cases)
      (auto intro: core_log.internal core_local.intros core_log.receive)
qed

lemma cluster_node:
  "cluster_reachable E cm H ps sg st txs g \<Longrightarrow>
    core_reachable E n cm (ps n) (sg n) (st n) (txs n) (nodes g n)"
  using cluster_log [of E cm H ps sg st txs g n] unfolding core_reachable_def by (meson core_log_iff)

section \<open>Where messages come from\<close>

interpretation sends: core_invariant E "\<lambda>c. M \<subseteq> set (messages c)" "\<lambda>_ _ _. True" for E M
  by unfold_locales
    (auto simp: core_effects invokeDoneAndShare_def hasDone_def Transmitor_Send_def split: option.split)

text \<open>
  Apart from messages of its broadcast instances, a node finds on its channel what was there
  before (\<open>M\<close>) and what it has sent itself.
\<close>

definition echoes :: "message set \<Rightarrow> Core \<Rightarrow> bool" where
  "echoes M c \<longleftrightarrow> (\<forall>m \<in> set (RecvCh c). m \<in> M \<or> m \<in> set (messages c) \<or> instance_message m)"

interpretation echo: core_reduced E "echoes M" "\<lambda>_ _ _. True" for E M
  by unfold_locales
    (auto simp: echoes_def core_effects core_broadcast_def invokeDoneAndShare_def hasDone_def Transmitor_Send_def
      split: option.split)

text \<open>Messages whose sender the network vouches for.\<close>

definition tracked :: "('a consensus_env_scheme) \<Rightarrow> Committee \<Rightarrow> NodeID set \<Rightarrow> message \<Rightarrow> bool" where
  "tracked E cm H m \<longleftrightarrow>
     \<not> instance_message m \<and> \<not> coin_share m \<and> message_Verify E cm m = Ret True \<and> message_author m \<in> H"

lemma sent_by_itself:
  assumes "cluster_reachable E cm H ps sg st txs g" and "m \<in> set (messages (nodes g n))" and "tracked E cm H' m"
  shows "message_author m = n"
proof -
  note r = cluster_node [OF assms(1), of n]
  have "sent_own E (nodes g n)" by (rule signed.reachable_keep [OF r]) (simp_all add: sent_own_def NewCore_def)
  moreover have "cName (nodes g n) = n"
    using identity.reachable_keep [OF r, of n "sg n" cm] by (simp add: NewCore_def NewAggreator_def)
  moreover have "m \<noteq> MElectShare None" using assms(3) by (auto simp: tracked_def)
  ultimately show ?thesis using assms(2) by (auto simp: sent_own_def own_def)
qed

definition attributed :: "('a consensus_env_scheme) \<Rightarrow> Committee \<Rightarrow> NodeID set \<Rightarrow> Cluster \<Rightarrow> bool" where
  "attributed E cm H g \<longleftrightarrow>
     (\<forall>n \<in> H. \<forall>m \<in> set (RecvCh (nodes g n)) \<union> set (taken g n).
        tracked E cm H m \<longrightarrow> m \<in> set (messages (nodes g (message_author m))))"

lemma step_sends:
  assumes "cluster_step E cm H g g'"
  shows "set (messages (nodes g n)) \<subseteq> set (messages (nodes g' n))"
  using assms
proof (cases rule: cluster_step.cases)
  case (deliver n' m)
  then show ?thesis by (simp add: core_self_def)
next
  case (take_message n' m rest c' x)
  with sends.dispatches [of "set (messages (nodes g n'))" "(nodes g n')\<lparr>RecvCh := rest\<rparr>" E m c' x] show ?thesis by simp
next
  case (work n' c')
  with sends.work_keeps [of E "nodes g n'" c' "set (messages (nodes g n'))"] show ?thesis by simp
qed

lemma step_attributed:
  assumes step: "cluster_step E cm H g g'" and "attributed E cm H g"
    and own: "\<And>n m. m \<in> set (messages (nodes g' n)) \<Longrightarrow> tracked E cm H m \<Longrightarrow> message_author m = n"
  shows "attributed E cm H g'"
proof -
  have old: "m \<in> set (messages (nodes g' (message_author m)))"
    if "n \<in> H" "m \<in> set (RecvCh (nodes g n)) \<union> set (taken g n)" "tracked E cm H m" for n m
    using assms(2) that step_sends [OF step, of "message_author m"] unfolding attributed_def by blast
  have new: "m \<in> set (RecvCh (nodes g n)) \<union> set (taken g n) \<or> instance_message m \<or> m \<in> set (messages (nodes g' n)) \<or>
      genuine E cm H g m" if "n \<in> H" "m \<in> set (RecvCh (nodes g' n)) \<union> set (taken g' n)" for n m
    using step
  proof (cases rule: cluster_step.cases)
    case (deliver n' m')
    with that show ?thesis by (auto simp: core_self_def split: if_splits)
  next
    case (take_message n' m' rest c' x)
    have "echoes (set (RecvCh (nodes g n'))) ((nodes g n')\<lparr>RecvCh := rest\<rparr>)"
      using take_message(3) by (simp add: echoes_def)
    from echo.dispatches [OF this take_message(4)] that take_message(1,3) show ?thesis
      by (auto simp: echoes_def split: if_splits)
  next
    case (work n' c')
    have "echoes (set (RecvCh (nodes g n'))) (nodes g n')" by (simp add: echoes_def)
    from echo.work_keeps [OF work(3) this] that work(1) show ?thesis by (auto simp: echoes_def split: if_splits)
  qed
  show ?thesis
    unfolding attributed_def
  proof (intro ballI impI)
    fix n m
    assume m: "n \<in> H" "m \<in> set (RecvCh (nodes g' n)) \<union> set (taken g' n)" "tracked E cm H m"
    from new [OF m(1,2)] consider "m \<in> set (RecvCh (nodes g n)) \<union> set (taken g n)" | "m \<in> set (messages (nodes g' n))"
      | "m \<in> set (messages (nodes g (message_author m)))"
      using m(3) by (auto simp: tracked_def genuine_def)
    then show "m \<in> set (messages (nodes g' (message_author m)))"
    proof cases
      case 1
      then show ?thesis by (rule old [OF m(1) _ m(3)])
    next
      case 2
      with own [OF 2 m(3)] show ?thesis by simp
    next
      case 3
      with step_sends [OF step] show ?thesis by blast
    qed
  qed
qed

text \<open>What is taken in the name of a correct member was sent by it.\<close>

lemma cluster_attributed:
  assumes "cluster_reachable E cm H ps sg st txs g"
  shows "attributed E cm H g"
  using assms unfolding cluster_reachable_def
proof (induction rule: rtranclp_induct)
  case base
  let ?g = "cluster_init E cm ps sg st txs"
  have r: "cluster_reachable E cm H ps sg st txs ?g" by (simp add: cluster_reachable_def)
  have "m \<in> set (messages (nodes ?g n))" if "m \<in> set (RecvCh (nodes ?g n))" "\<not> instance_message m" for n m
  proof -
    have "echoes {} (core_init E n cm (ps n) (sg n) (st n) (txs n))"
      by (rule echo.started) (simp_all add: echoes_def NewCore_def)
    with that show ?thesis by (auto simp: cluster_init_def echoes_def)
  qed
  with sent_by_itself [OF r] show ?case
    by (fastforce simp: attributed_def tracked_def cluster_init_def)
next
  case (step g g')
  have "cluster_reachable E cm H ps sg st txs g'" using step.hyps by (simp add: cluster_reachable_def)
  from step_attributed [OF step.hyps(2) step.IH sent_by_itself [OF this]] show ?case .
qed

lemma taken_was_sent:
  "cluster_reachable E cm H ps sg st txs g \<Longrightarrow> n \<in> H \<Longrightarrow> m \<in> set (taken g n) \<Longrightarrow> tracked E cm H m \<Longrightarrow>
    m \<in> set (messages (nodes g (message_author m)))"
  using cluster_attributed unfolding attributed_def by blast

section \<open>A concrete run\<close>

text \<open>A first-phase proposal with a block is always processed, and nothing is sent on the way.\<close>

lemma dispatch_proposal:
  assumes "message_Verify E (cCommittee c) (MProposal p) = Ret True" and "pB p = Some b" and "pPhase p = SPB_ONE_PHASE"
  shows "\<exists>c' x. Core_dispatch E c (MProposal p) = Ret (c', x) \<and> RecvCh c' = RecvCh c \<and> Sent c' = Sent c"
proof -
  have verifies: "\<exists>c2 ok. verifyConsensusBlock E c1 (Some b) = Ret (c2, ok) \<and> RecvCh c2 = RecvCh c1 \<and> Sent c2 = Sent c1" for c1
    by (simp add: verifyConsensusBlock_def case_prod_beta)
  obtain c0 ok where "verifyConsensusBlock E (fst (core_Leader c (pEpoch p) (pRound p))) (Some b) = Ret (c0, ok)"
    "RecvCh c0 = RecvCh c" "Sent c0 = Sent c"
    using verifies [of "fst (core_Leader c (pEpoch p) (pRound p))"] by (auto simp: core_Leader_def case_prod_beta)
  then have "\<exists>c1. commit_halted E c p = Ret c1 \<and> RecvCh c1 = RecvCh c \<and> Sent c1 = Sent c"
    using assms(2) by (cases ok) (auto simp: commit_halted_def core_Leader_def core_commit_def case_prod_beta Let_def)
  then obtain c1 where c1: "commit_halted E c p = Ret c1" "RecvCh c1 = RecvCh c" "Sent c1 = Sent c" by blast
  obtain c2 y where s: "storeConsensusBlock E c1 b = (c2, y)" by fastforce
  with storeConsensusBlock_same [OF s] have c2: "RecvCh c2 = RecvCh c1" "Sent c2 = Sent c1" by auto
  obtain c3 ok where "verifyConsensusBlock E c2 (Some b) = Ret (c3, ok)" "RecvCh c3 = RecvCh c2" "Sent c3 = Sent c2"
    using verifies [of c2] by blast
  moreover have "Sent (startProposal c3 p) = Sent c3"
    by (simp add: startProposal_def getSpbInstance_def core_go_def case_prod_beta Let_def split: option.split)
  ultimately show ?thesis
    using assms c1 s c2
    by (cases y) (auto simp: Core_dispatch_def handleSpbProposal_def simp del: message_Verify.simps)
qed

definition sample_cluster :: Cluster where
  "sample_cluster = cluster_init sample_env committee4 (\<lambda>_. DefaultParameters) (\<lambda>_. sample_sig) (\<lambda>_. sample_store)
     (\<lambda>_. sample_pool)"

abbreviation sample_cluster_reachable :: "Cluster \<Rightarrow> bool" where
  "sample_cluster_reachable \<equiv> cluster_reachable sample_env committee4 {0, 1, 2} (\<lambda>_. DefaultParameters)
     (\<lambda>_. sample_sig) (\<lambda>_. sample_store) (\<lambda>_. sample_pool)"

lemma sample_started:
  assumes "0 \<le> n"
  shows "\<exists>b. RecvCh (nodes sample_cluster n) =
      [MProposal (projr (NewSPBProposal sample_env n (Some b) 0 0 SPB_ONE_PHASE sample_sig))] \<and>
    messages (nodes sample_cluster n) = RecvCh (nodes sample_cluster n) \<and> cCommittee (nodes sample_cluster n) = committee4"
  using assms
  by (auto simp: sample_cluster_def cluster_init_def Core_start_def NewCore_def propose_def core_broadcast_def
      core_send_def core_self_def generatorBlock_def Transmitor_Send_def DefaultParameters_def case_prod_beta Let_def)

lemma cluster_next: "cluster_reachable E cm H ps sg st txs g \<Longrightarrow> cluster_step E cm H g g' \<Longrightarrow> cluster_reachable E cm H ps sg st txs g'"
  by (simp add: cluster_reachable_def rtranclp.rtrancl_into_rtrancl)

lemma cluster_takes_proposal:
  assumes "cluster_reachable E cm H ps sg st txs g" and "n \<in> H" and "RecvCh (nodes g n) = MProposal p # rest"
    and "message_Verify E cm (MProposal p) = Ret True" and "pB p = Some b" and "pPhase p = SPB_ONE_PHASE"
  obtains g' where "cluster_reachable E cm H ps sg st txs g'" and "taken g' = (taken g)(n := taken g n @ [MProposal p])"
    and "RecvCh (nodes g' n) = rest" and "\<And>k. k \<noteq> n \<Longrightarrow> nodes g' k = nodes g k"
    and "\<And>k. Sent (nodes g' k) = Sent (nodes g k)" and "\<And>k. cAggreator (nodes g' k) = cAggreator (nodes g k)"
proof -
  let ?c = "(nodes g n)\<lparr>RecvCh := rest\<rparr>"
  have v: "message_Verify E (cCommittee ?c) (MProposal p) = Ret True"
    using reachable_committee [OF cluster_node [OF assms(1), of n]] assms(4) by (simp del: message_Verify.simps)
  obtain c' x where c': "Core_dispatch E ?c (MProposal p) = Ret (c', x)" "RecvCh c' = rest" "Sent c' = Sent (nodes g n)"
    using dispatch_proposal [OF v assms(5,6)] by auto
  have "handleSpbProposal E ?c p = Ret (c', x)"
    using c'(1) v by (auto simp: Core_dispatch_def simp del: message_Verify.simps)
  from counted.handles_proposal [OF _ this] have a: "cAggreator c' = cAggreator (nodes g n)" by simp
  show thesis
    by (rule that [OF cluster_next [OF assms(1) cluster_step.take_message [OF assms(2,3) c'(1)]]])
      (simp_all add: c' a)
qed

text \<open>Node 0 takes its own proposal; then it reaches node 1, which takes its own before.\<close>

lemma sample_cluster_run:
  "\<exists>g. sample_cluster_reachable g \<and> MProposal sample_first \<in> set (taken g 0) \<and> MProposal sample_first \<in> set (taken g 1) \<and>
    (\<forall>h. cAggreator (nodes g h) = NewAggreator committee4)"
proof -
  let ?H = "{0, 1, 2} :: NodeID set" and ?p = "MProposal sample_first" and ?g = sample_cluster
  have r0: "sample_cluster_reachable ?g" by (simp add: cluster_reachable_def sample_cluster_def)
  have c0: "nodes ?g 0 = sample_node" by (simp add: sample_cluster_def cluster_init_def sample_node_init)
  have p: "message_Verify sample_env committee4 ?p = Ret True" by (rule sample_verifies) (simp_all add: sample_first_def)
  have sent: "?p \<in> set (messages sample_node)" by (simp add: Transmitor_Send_def)
  obtain b where b: "RecvCh (nodes ?g 1) = [MProposal (projr (NewSPBProposal sample_env 1 (Some b) 0 0 SPB_ONE_PHASE sample_sig))]"
      (is "_ = [?q]") using sample_started [of 1] by auto
  have q: "message_Verify sample_env committee4 ?q = Ret True" by (rule sample_verifies) simp_all
  obtain g1 where g1: "sample_cluster_reachable g1" "taken g1 = (taken ?g)(0 := taken ?g 0 @ [?p])"
    "nodes g1 1 = nodes ?g 1" "\<And>k. Sent (nodes g1 k) = Sent (nodes ?g k)" "\<And>k. cAggreator (nodes g1 k) = cAggreator (nodes ?g k)"
    by (rule cluster_takes_proposal [OF r0, of 0 sample_first "[]" sample_cb]) (use c0 p in \<open>simp_all del: message_Verify.simps\<close>)
  define g2 where "g2 = g1\<lparr>nodes := (nodes g1)(1 := core_self (nodes g1 1) ?p)\<rparr>"
  have "genuine sample_env committee4 ?H g1 ?p" using sent by (simp add: genuine_def g1(4) c0)
  with g1(1) have r2: "sample_cluster_reachable g2"
    unfolding g2_def by (intro cluster_next [OF g1(1)] cluster_step.deliver) simp_all
  have g2: "RecvCh (nodes g2 1) = [?q, ?p]" "\<And>k. Sent (nodes g2 k) = Sent (nodes ?g k)" "taken g2 = taken g1"
    "\<And>k. cAggreator (nodes g2 k) = cAggreator (nodes ?g k)"
    using g1(3-5) b by (simp_all add: g2_def core_self_def)
  obtain g3 where g3: "sample_cluster_reachable g3" "taken g3 = (taken g2)(1 := taken g2 1 @ [?q])"
    "RecvCh (nodes g3 1) = [?p]" "\<And>k. Sent (nodes g3 k) = Sent (nodes g2 k)" "\<And>k. cAggreator (nodes g3 k) = cAggreator (nodes g2 k)"
    by (rule cluster_takes_proposal [OF r2 _ g2(1) q]) simp_all
  obtain g4 where g4: "sample_cluster_reachable g4" "taken g4 = (taken g3)(1 := taken g3 1 @ [?p])"
    "\<And>k. Sent (nodes g4 k) = Sent (nodes g3 k)" "\<And>k. cAggreator (nodes g4 k) = cAggreator (nodes g3 k)"
    by (rule cluster_takes_proposal [OF g3(1) _ g3(3) p, of sample_cb]) simp_all
  have "cAggreator (nodes ?g h) = NewAggreator committee4" for h
    unfolding sample_cluster_def cluster_init_def by (simp, rule counted.started) (simp_all add: NewCore_def)
  then show ?thesis
    using g4(1) by (intro exI [of _ g4]) (auto simp: g4(2,4) g3(2,5) g2(3,4) g1(2))
qed

end
