(* ===== verification/Transport.thy ===== *)
theory Transport
  imports Network "HOL-Library.Sublist"
begin

text \<open>
  The transport between nodes as it runs: the goroutines of both ends of every connection
  (\<^verbatim>\<open>network/network.go\<close>, \<^verbatim>\<open>core/transmitor.go\<close>, \<^verbatim>\<open>mempool/transmit.go\<close>), interleaved in any order.
  A message passes the channel of the transmitter, the channel of the sender, the loop over its
  addresses, the channel of a connection, the connection, the channel of the receiver and the
  goroutine that forwards it by module.

  An endpoint is named by the address it listens on. A connection is keyed by its two ends, since a
  sender dials an address at most once. For the statements, the channels of the receiving side
  record with a message the endpoint it came from, and \<open>sent\<close> keeps what was handed to the
  transmitter. Whether a dial or a write succeeds is open.
\<close>

section \<open>State\<close>

record 'm Receiver =
  addr :: string
  msg :: "(string \<times> 'm) list"

definition NewReceiver :: "string \<Rightarrow> 'm Receiver" where
  "NewReceiver address = \<lparr>addr = address, msg = []\<rparr>"

text \<open>
  Both \<^verbatim>\<open>Transmitor\<close> and \<^verbatim>\<open>Transmit\<close>. \<open>sending\<close> is the position of the sender's loop: the message it
  is at and the addresses that are left.
\<close>

record 'm Transmitor =
  sender :: "'m Sender"
  receiver :: "'m Receiver"
  recvCh :: "(string \<times> 'm) list"
  out :: "'m NetMessage list"
  sending :: "('m \<times> string) list"

definition NewTransmitor :: "string \<Rightarrow> 'm Transmitor" where
  "NewTransmitor address =
     \<lparr>sender = NewSender, receiver = NewReceiver address, recvCh = [], out = [], sending = []\<rparr>"

section \<open>Goroutines\<close>

text \<open>\<^verbatim>\<open>Send\<close> of a transmitter, once the addresses are chosen.\<close>

definition tr_send :: "'m Transmitor \<Rightarrow> 'm NetMessage \<Rightarrow> 'm Transmitor" where
  "tr_send t nm = t\<lparr>out := out t @ [nm]\<rparr>"

text \<open>The goroutine that hands messages to the sender.\<close>

fun tr_hand_over :: "'m Transmitor \<Rightarrow> 'm Transmitor option" where
  "tr_hand_over t =
     (case out t of
        [] \<Rightarrow> None
      | nm # nms \<Rightarrow> Some (t\<lparr>out := nms, sender := Sender_Send (sender t) nm\<rparr>))"

text \<open>The loop of the sender: the next message, or the next address of a message.\<close>

fun Sender_next :: "(string \<Rightarrow> go_error option) \<Rightarrow> 'm Transmitor \<Rightarrow> 'm Transmitor option" where
  "Sender_next dial t =
     (case sending t of
        (m, a) # todo \<Rightarrow> Some (t\<lparr>sending := todo, sender := Sender_deliver dial m (sender t) a\<rparr>)
      | [] \<Rightarrow>
          (case msgCh (sender t) of
             [] \<Rightarrow> None
           | nm # nms \<Rightarrow>
               Some (t\<lparr>sending := map (Pair (Msg nm)) (Address nm), sender := (sender t)\<lparr>msgCh := nms\<rparr>\<rparr>)))"

text \<open>The goroutine of a connection takes the next message from its channel.\<close>

fun conn_take :: "'m Transmitor \<Rightarrow> string \<Rightarrow> ('m Transmitor \<times> 'm) option" where
  "conn_take t a =
     (case conns (sender t) a of
        Some (m # ms) \<Rightarrow> Some (t\<lparr>sender := (sender t)\<lparr>conns := (conns (sender t))(a \<mapsto> ms)\<rparr>\<rparr>, m)
      | _ \<Rightarrow> None)"

text \<open>\<^verbatim>\<open>serveConn\<close> puts a message into the channel of the receiver.\<close>

definition Receiver_put :: "'m Transmitor \<Rightarrow> string \<Rightarrow> 'm \<Rightarrow> 'm Transmitor" where
  "Receiver_put t from m = t\<lparr>receiver := (receiver t)\<lparr>msg := msg (receiver t) @ [(from, m)]\<rparr>\<rparr>"

text \<open>The goroutine that takes messages from the receiver; \<open>fwd\<close> is its switch over modules.\<close>

fun tr_take_in ::
  "((string \<times> 'm) list \<Rightarrow> string \<times> 'm \<Rightarrow> (string \<times> 'm) list) \<Rightarrow> 'm Transmitor \<Rightarrow> 'm Transmitor option" where
  "tr_take_in fwd t =
     (case msg (receiver t) of
        [] \<Rightarrow> None
      | x # xs \<Rightarrow> Some (t\<lparr>receiver := (receiver t)\<lparr>msg := xs\<rparr>, recvCh := fwd (recvCh t) x\<rparr>))"

section \<open>The network\<close>

record 'm network =
  ends :: "string \<Rightarrow> 'm Transmitor"
  wire :: "string \<Rightarrow> string \<Rightarrow> 'm gobval list"
  closed :: "(string \<times> string) set"
  sent :: "string \<Rightarrow> 'm NetMessage list"

definition network_init :: "'m network" where
  "network_init = \<lparr>ends = NewTransmitor, wire = (\<lambda>_ _. []), closed = {}, sent = (\<lambda>_. [])\<rparr>"

abbreviation set_end :: "'m network \<Rightarrow> string \<Rightarrow> 'm Transmitor \<Rightarrow> 'm network" where
  "set_end g a t \<equiv> g\<lparr>ends := (ends g)(a := t)\<rparr>"

abbreviation set_wire :: "'m network \<Rightarrow> string \<Rightarrow> string \<Rightarrow> 'm gobval list \<Rightarrow> 'm network" where
  "set_wire g a b w \<equiv> g\<lparr>wire := (wire g)(a := (wire g a)(b := w))\<rparr>"

text \<open>What the goroutines of the endpoints \<open>N\<close> do when nothing goes wrong.\<close>

inductive good_step ::
  "'m Codec \<Rightarrow> ((string \<times> 'm) list \<Rightarrow> string \<times> 'm \<Rightarrow> (string \<times> 'm) list) \<Rightarrow> string set
   \<Rightarrow> 'm network \<Rightarrow> 'm network \<Rightarrow> bool"
  for cc :: "'m Codec" and fwd :: "(string \<times> 'm) list \<Rightarrow> string \<times> 'm \<Rightarrow> (string \<times> 'm) list" and N :: "string set" where
  hand_over: "a \<in> N \<Longrightarrow> tr_hand_over (ends g a) = Some t \<Longrightarrow> good_step cc fwd N g (set_end g a t)"
| deliver: "a \<in> N \<Longrightarrow> Sender_next (\<lambda>b. if b \<in> N then None else Some e) (ends g a) = Some t \<Longrightarrow>
    good_step cc fwd N g (set_end g a t)"
| write_to: "a \<in> N \<Longrightarrow> b \<in> N \<Longrightarrow> conn_take (ends g a) b = Some (t, m) \<Longrightarrow>
    good_step cc fwd N g (set_wire (set_end g a t) a b (Codec_Write cc (wire g a b) m))"
| read_from: "a \<in> N \<Longrightarrow> b \<in> N \<Longrightarrow> (a, b) \<notin> closed g \<Longrightarrow> Codec_Read cc (wire g a b) = Ret (Inr (m, w)) \<Longrightarrow>
    good_step cc fwd N g (set_wire (set_end g b (Receiver_put (ends g b) a m)) a b w)"
| take_in: "b \<in> N \<Longrightarrow> tr_take_in fwd (ends g b) = Some t \<Longrightarrow> good_step cc fwd N g (set_end g b t)"

text \<open>
  What can go wrong: a dial fails, a write fails before or after the type id, a read fails and the
  handler of the connection returns.
\<close>

inductive bad_step ::
  "'m Codec \<Rightarrow> string set \<Rightarrow> 'm network \<Rightarrow> 'm network \<Rightarrow> bool"
  for cc :: "'m Codec" and N :: "string set" where
  dial_fails: "a \<in> N \<Longrightarrow> Sender_next dial (ends g a) = Some t \<Longrightarrow> bad_step cc N g (set_end g a t)"
| write_fails: "a \<in> N \<Longrightarrow> conn_take (ends g a) b = Some (t, m) \<Longrightarrow> w \<in> {[], [GobInt (msg_type cc m)]} \<Longrightarrow>
    bad_step cc N g (set_wire (set_end g a t) a b (wire g a b @ w))"
| read_fails: "b \<in> N \<Longrightarrow> bad_step cc N g (g\<lparr>closed := insert (a, b) (closed g)\<rparr>)"

inductive send_step :: "string set \<Rightarrow> 'm network \<Rightarrow> 'm network \<Rightarrow> bool"
  for N :: "string set" where
  send: "a \<in> N \<Longrightarrow>
    send_step N g (g\<lparr>ends := (ends g)(a := tr_send (ends g a) nm), sent := (sent g)(a := sent g a @ [nm])\<rparr>)"

definition net_step ::
  "'m Codec \<Rightarrow> ((string \<times> 'm) list \<Rightarrow> string \<times> 'm \<Rightarrow> (string \<times> 'm) list) \<Rightarrow> string set
   \<Rightarrow> 'm network \<Rightarrow> 'm network \<Rightarrow> bool" where
  "net_step cc fwd N g g' \<longleftrightarrow> send_step N g g' \<or> good_step cc fwd N g g' \<or> bad_step cc N g g'"

text \<open>Runs from the start: any, and those without a failure.\<close>

definition net_reachable ::
  "'m Codec \<Rightarrow> ((string \<times> 'm) list \<Rightarrow> string \<times> 'm \<Rightarrow> (string \<times> 'm) list) \<Rightarrow> string set \<Rightarrow> 'm network \<Rightarrow> bool" where
  "net_reachable cc fwd N g \<longleftrightarrow> (net_step cc fwd N)\<^sup>*\<^sup>* network_init g"

definition net_undisturbed ::
  "'m Codec \<Rightarrow> ((string \<times> 'm) list \<Rightarrow> string \<times> 'm \<Rightarrow> (string \<times> 'm) list) \<Rightarrow> string set \<Rightarrow> 'm network \<Rightarrow> bool" where
  "net_undisturbed cc fwd N g \<longleftrightarrow> (\<lambda>g g'. send_step N g g' \<or> good_step cc fwd N g g')\<^sup>*\<^sup>* network_init g"

text \<open>No goroutine can go on.\<close>

definition net_idle ::
  "'m Codec \<Rightarrow> ((string \<times> 'm) list \<Rightarrow> string \<times> 'm \<Rightarrow> (string \<times> 'm) list) \<Rightarrow> string set \<Rightarrow> 'm network \<Rightarrow> bool" where
  "net_idle cc fwd N g \<longleftrightarrow> (\<nexists>g'. good_step cc fwd N g g')"

section \<open>What is on its way\<close>

definition due :: "string \<Rightarrow> 'm NetMessage list \<Rightarrow> 'm list" where
  "due b nms = concat (map (\<lambda>nm. replicate (count_list (Address nm) b) (Msg nm)) nms)"

definition outgoing :: "'m Transmitor \<Rightarrow> string \<Rightarrow> 'm list" where
  "outgoing t b = carried (sender t) b @ map fst (filter (\<lambda>(m, a). a = b) (sending t))
     @ due b (msgCh (sender t)) @ due b (out t)"

definition came_from :: "string \<Rightarrow> (string \<times> 'm) list \<Rightarrow> 'm list" where
  "came_from a xs = map snd (filter (\<lambda>x. fst x = a) xs)"

definition arrived :: "('m \<Rightarrow> bool) \<Rightarrow> string \<Rightarrow> 'm Transmitor \<Rightarrow> 'm list" where
  "arrived keep a t = came_from a (recvCh t) @ filter keep (came_from a (msg (receiver t)))"

fun on_wire :: "'m gobval list \<Rightarrow> 'm list" where
  "on_wire [] = []"
| "on_wire (GobInt _ # w) = on_wire w"
| "on_wire (GobMsg m # w) = m # on_wire w"

definition traffic :: "('m \<Rightarrow> bool) \<Rightarrow> 'm network \<Rightarrow> string \<Rightarrow> string \<Rightarrow> 'm list" where
  "traffic keep g a b = arrived keep a (ends g b) @ filter keep (on_wire (wire g a b) @ outgoing (ends g a) b)"

text \<open>Every struct on a connection follows its type id.\<close>

fun wire_ok :: "'m Codec \<Rightarrow> 'm gobval list \<Rightarrow> bool" where
  "wire_ok cc [] \<longleftrightarrow> True"
| "wire_ok cc (GobMsg m # w) \<longleftrightarrow> False"
| "wire_ok cc (GobInt t # GobMsg m # w) \<longleftrightarrow> t = msg_type cc m \<and> wire_ok cc w"
| "wire_ok cc (GobInt t # w) \<longleftrightarrow> wire_ok cc w"

lemma due_simps [simp]:
  "due b [] = []" "due b (nm # nms) = replicate (count_list (Address nm) b) (Msg nm) @ due b nms"
  "due b (xs @ ys) = due b xs @ due b ys"
  by (simp_all add: due_def)

lemma came_from_simps [simp]:
  "came_from a [] = []" "came_from a (x # xs) = (if fst x = a then [snd x] else []) @ came_from a xs"
  "came_from a (xs @ ys) = came_from a xs @ came_from a ys"
  by (simp_all add: came_from_def)

lemma on_wire_append [simp]: "on_wire (w @ v) = on_wire w @ on_wire v"
  by (induction w rule: on_wire.induct) auto

lemma wire_ok_write: "wire_ok cc w \<Longrightarrow> wire_ok cc (Codec_Write cc w m)"
  by (induction cc w rule: wire_ok.induct) (auto simp: Codec_Write_def)

lemma wire_ok_type: "wire_ok cc w \<Longrightarrow> wire_ok cc (w @ [GobInt t])"
  by (induction cc w rule: wire_ok.induct) auto

lemma Codec_Read_ok:
  assumes "gob_ok cc" and "wire_ok cc w" and "Codec_Read cc w = Ret (Inr (m, w'))"
  shows "w = GobInt (msg_type cc m) # GobMsg m # w' \<and> wire_ok cc w'"
  using assms by (auto simp: Codec_Read_def gob_ok_def split: list.splits gobval.splits if_splits sum.splits)

lemma todo_map: "map fst (filter (\<lambda>(m, a). a = b) (map (Pair m) as)) = replicate (count_list as b) m"
  by (induction as) auto

lemma hand_over_effect:
  assumes "tr_hand_over t = Some t'"
  shows "outgoing t' b = outgoing t b \<and> recvCh t' = recvCh t \<and> receiver t' = receiver t"
  using assms by (auto simp: outgoing_def Sender_Send_def carried_def split: list.splits)

lemma Sender_next_effect:
  assumes "Sender_next dial t = Some t'"
  shows "subseq (outgoing t' b) (outgoing t b) \<and> (dial b = None \<longrightarrow> outgoing t' b = outgoing t b)
    \<and> recvCh t' = recvCh t \<and> receiver t' = receiver t"
proof (cases "sending t")
  case Nil
  with assms show ?thesis
    by (auto simp: outgoing_def carried_def todo_map split: list.splits)
next
  case (Cons x todo)
  obtain m a where x: "x = (m, a)" by (cases x)
  have "carried (Sender_deliver dial m (sender t) a) b =
      carried (sender t) b @ (if a = b \<and> (conns (sender t) b \<noteq> None \<or> dial b = None) then [m] else [])"
    by (auto simp: Sender_deliver_def carried_def split: option.splits)
  moreover have "msgCh (Sender_deliver dial m (sender t) a) = msgCh (sender t)"
    by (auto simp: Sender_deliver_def split: option.splits)
  moreover have "subseq (xs @ ys) (xs @ m # ys)" for xs ys :: "'a list"
    by (simp add: subseq_append' list_emb_Cons)
  ultimately show ?thesis using assms Cons x by (auto simp: outgoing_def)
qed

lemma conn_take_effect:
  assumes "conn_take t a = Some (t', m)"
  shows "outgoing t b = (if b = a then [m] else []) @ outgoing t' b \<and> recvCh t' = recvCh t \<and> receiver t' = receiver t"
  using assms by (auto simp: outgoing_def carried_def split: option.splits list.splits)

lemma Receiver_put_effect:
  "outgoing (Receiver_put t from m) b = outgoing t b"
  "arrived keep a (Receiver_put t from m) = arrived keep a t @ (if from = a then filter keep [m] else [])"
  by (simp_all add: Receiver_put_def outgoing_def arrived_def)

lemma tr_send_effect:
  "outgoing (tr_send t nm) b = outgoing t b @ due b [nm]" "arrived keep a (tr_send t nm) = arrived keep a t"
  by (simp_all add: tr_send_def outgoing_def arrived_def)

lemma arrived_cong: "recvCh t' = recvCh t \<and> receiver t' = receiver t \<Longrightarrow> arrived keep a t' = arrived keep a t"
  by (simp add: arrived_def)


section \<open>Invariants of the connections\<close>

lemma Sender_next_subset:
  "Sender_next dial t = Some t' \<Longrightarrow> set (outgoing t' b) \<subseteq> set (outgoing t b)"
  using Sender_next_effect [of dial t t' b] list_emb_set [of "(=)" "outgoing t' b" "outgoing t b"] by blast

lemma outgoing_take_in: "tr_take_in fwd t = Some t' \<Longrightarrow> outgoing t' b = outgoing t b"
  by (auto simp: outgoing_def split: list.splits)

lemma good_sent [simp]: "good_step cc fwd N g g' \<Longrightarrow> sent g' = sent g"
  by (erule good_step.cases) auto

lemma bad_sent [simp]: "bad_step cc N g g' \<Longrightarrow> sent g' = sent g"
  by (erule bad_step.cases) auto

lemma wire_ok_step:
  assumes "gob_ok cc" and "\<And>a b. wire_ok cc (wire g a b)" and "net_step cc fwd N g g'"
  shows "wire_ok cc (wire g' a b)"
  using assms(3) unfolding net_step_def
proof (elim disjE)
  assume "good_step cc fwd N g g'"
  then show ?thesis
    by cases (use assms(2) Codec_Read_ok [OF assms(1) assms(2)] in \<open>auto simp: wire_ok_write\<close>)
next
  assume "bad_step cc N g g'"
  then show ?thesis by cases (use assms(2) in \<open>auto simp: wire_ok_type\<close>)
qed (auto elim!: send_step.cases intro: assms(2))

lemma wire_ok_reachable:
  assumes "gob_ok cc" and "net_reachable cc fwd N g"
  shows "wire_ok cc (wire g a b)"
  using assms(2) unfolding net_reachable_def
  by (induction arbitrary: a b) (auto simp: network_init_def intro: wire_ok_step [OF assms(1)])

text \<open>Without failures a connection holds whole messages, of what its end sent, and stays open.\<close>

definition wire_whole :: "'m Codec \<Rightarrow> 'm gobval list \<Rightarrow> bool" where
  "wire_whole cc w \<longleftrightarrow> w = concat (map (Codec_Write cc []) (on_wire w))"

definition undisturbed_inv :: "'m Codec \<Rightarrow> 'm network \<Rightarrow> bool" where
  "undisturbed_inv cc g \<longleftrightarrow> closed g = {} \<and>
     (\<forall>a b. wire_ok cc (wire g a b) \<and> wire_whole cc (wire g a b) \<and>
        set (on_wire (wire g a b) @ outgoing (ends g a) b) \<subseteq> Msg ` set (sent g a))"

lemma undisturbed_step:
  assumes "gob_ok cc" and inv: "undisturbed_inv cc g" and "send_step N g g' \<or> good_step cc fwd N g g'"
  shows "undisturbed_inv cc g'"
  using assms(3)
proof
  assume "send_step N g g'"
  then show ?thesis using inv by cases (auto simp: undisturbed_inv_def tr_send_effect subset_iff)
next
  have flow: "wire_ok cc (wire g a b)" "wire_whole cc (wire g a b)"
    "set (on_wire (wire g a b) @ outgoing (ends g a) b) \<subseteq> Msg ` set (sent g a)" for a b
    using inv by (auto simp: undisturbed_inv_def)
  assume "good_step cc fwd N g g'"
  then show ?thesis
  proof cases
    case (hand_over c t)
    then show ?thesis using inv hand_over_effect [OF hand_over(3)] by (auto simp: undisturbed_inv_def)
  next
    case (deliver c e t)
    then show ?thesis using inv Sender_next_subset [OF deliver(3)] by (fastforce simp: undisturbed_inv_def)
  next
    case (write_to c d t m)
    have "set (outgoing t b) \<subseteq> Msg ` set (sent g c) \<and> m \<in> Msg ` set (sent g c)" for b
      using conn_take_effect [OF write_to(4)] flow(3) [of c d] flow(3) [of c b] by (auto split: if_splits)
    moreover have "wire_whole cc (Codec_Write cc (wire g c d) m)"
      using flow(2) [of c d] by (simp add: wire_whole_def Codec_Write_def)
    ultimately show ?thesis
      using inv write_to wire_ok_write [OF flow(1)] by (auto simp: undisturbed_inv_def Codec_Write_def)
  next
    case (read_from c d m w)
    have "wire g c d = GobInt (msg_type cc m) # GobMsg m # w \<and> wire_ok cc w"
      using Codec_Read_ok [OF assms(1) flow(1) read_from(5)] .
    moreover from this have "wire_whole cc w" using flow(2) [of c d] by (simp add: wire_whole_def Codec_Write_def)
    ultimately show ?thesis
      using inv read_from flow(3) [of c d] by (auto simp: undisturbed_inv_def Receiver_put_effect)
  next
    case (take_in c t)
    then show ?thesis using inv outgoing_take_in [OF take_in(3)] by (auto simp: undisturbed_inv_def)
  qed
qed

lemma undisturbed_holds:
  assumes "gob_ok cc" and "net_undisturbed cc fwd N g"
  shows "undisturbed_inv cc g"
  using assms(2) unfolding net_undisturbed_def
proof induction
  case base
  show ?case
    by (simp add: undisturbed_inv_def network_init_def wire_whole_def outgoing_def NewTransmitor_def NewSender_def carried_def)
qed (rule undisturbed_step [OF assms(1)])

text \<open>The channel of an endpoint changes only by forwarding.\<close>

lemma good_recvCh:
  assumes "good_step cc fwd N g g'" and "recvCh (ends g' b) \<noteq> recvCh (ends g b)"
  shows "\<exists>t. tr_take_in fwd (ends g b) = Some t \<and> g' = set_end g b t"
  using assms
proof (induction rule: good_step.induct)
  case (hand_over a g t)
  have "recvCh t = recvCh (ends g a)" using hand_over_effect [OF hand_over(2), of b] by blast
  with hand_over(3) show ?case by (simp split: if_splits)
next
  case (deliver a e g t)
  have "recvCh t = recvCh (ends g a)" using Sender_next_effect [OF deliver(2), of b] by blast
  with deliver(3) show ?case by (simp split: if_splits)
next
  case (write_to a c g t m)
  have "recvCh t = recvCh (ends g a)" using conn_take_effect [OF write_to(3), of b] by blast
  with write_to(4) show ?case by (simp split: if_splits)
next
  case (read_from a c g m w)
  from read_from(5) show ?case by (simp add: Receiver_put_def split: if_splits)
next
  case (take_in c g t)
  from take_in(3) have "c = b" by (simp split: if_splits)
  with take_in(2) show ?case by blast
qed

section \<open>The goroutines come to rest\<close>

text \<open>
  A message weighs more the further it is from its receiver; a message that waits for its addresses
  weighs what its deliveries will.
\<close>

definition load :: "'m NetMessage \<Rightarrow> nat" where
  "load nm = 1 + 4 * length (Address nm)"

definition end_weight :: "string set \<Rightarrow> 'm Transmitor \<Rightarrow> nat" where
  "end_weight N t = (\<Sum>nm\<leftarrow>out t. 1 + load nm) + (\<Sum>nm\<leftarrow>msgCh (sender t). load nm) + 4 * length (sending t)
     + (\<Sum>b\<in>N. 3 * length (carried (sender t) b)) + length (msg (receiver t))"

definition net_weight :: "string set \<Rightarrow> 'm network \<Rightarrow> nat" where
  "net_weight N g = (\<Sum>a\<in>N. end_weight N (ends g a)) + (\<Sum>a\<in>N. \<Sum>b\<in>N. 2 * length (on_wire (wire g a b)))"

lemma sum_fun_upd:
  assumes "finite N" and "a \<in> N"
  shows "(\<Sum>x\<in>N. h ((f (a := v)) x)) + h (f a) = (\<Sum>x\<in>N. h (f x)) + (h v :: nat)"
proof -
  have "(\<Sum>x\<in>N. h ((f (a := v)) x)) = h v + (\<Sum>x\<in>N - {a}. h (f x))"
    using assms by (subst sum.remove [of _ a]) (auto intro!: sum.cong)
  moreover have "(\<Sum>x\<in>N. h (f x)) = h (f a) + (\<Sum>x\<in>N - {a}. h (f x))"
    using assms by (rule sum.remove)
  ultimately show ?thesis by simp
qed

lemma hand_over_weight: "tr_hand_over t = Some t' \<Longrightarrow> end_weight N t' < end_weight N t"
  by (auto simp: end_weight_def Sender_Send_def carried_def split: list.splits)

lemma Sender_next_weight:
  assumes "finite N" and "Sender_next dial t = Some t'"
  shows "end_weight N t' < end_weight N t"
proof (cases "sending t")
  case Nil
  with assms(2) show ?thesis by (auto simp: end_weight_def carried_def load_def split: list.splits)
next
  case (Cons x todo)
  obtain m a where x: "x = (m, a)" by (cases x)
  have "(\<Sum>b\<in>N. 3 * length (carried (Sender_deliver dial m (sender t) a) b)) \<le>
      (\<Sum>b\<in>N. 3 * length (carried (sender t) b) + (if b = a then 3 else 0))"
    by (rule sum_mono) (auto simp: Sender_deliver_def carried_def split: option.splits)
  also have "\<dots> \<le> (\<Sum>b\<in>N. 3 * length (carried (sender t) b)) + 3"
    using assms(1) by (simp add: sum.distrib)
  moreover have "msgCh (Sender_deliver dial m (sender t) a) = msgCh (sender t)"
    by (auto simp: Sender_deliver_def split: option.splits)
  ultimately show ?thesis using assms(2) Cons x by (auto simp: end_weight_def)
qed

lemma conn_take_weight:
  assumes "finite N" and "b \<in> N" and "conn_take t b = Some (t', m)"
  shows "end_weight N t' + 3 = end_weight N t"
proof -
  obtain ms where ms: "conns (sender t) b = Some (m # ms)"
    and t': "t' = t\<lparr>sender := (sender t)\<lparr>conns := (conns (sender t))(b \<mapsto> ms)\<rparr>\<rparr>"
    using assms(3) by (auto split: option.splits list.splits)
  have "(\<Sum>x\<in>N. 3 * length (carried (sender t') x)) + 3 * length (carried (sender t) b) =
      (\<Sum>x\<in>N. 3 * length (carried (sender t) x)) + 3 * length ms"
    using sum_fun_upd [OF assms(1,2), of "\<lambda>c. 3 * length (case c of None \<Rightarrow> [] | Some ch \<Rightarrow> ch)" "conns (sender t)" "Some ms"]
    by (simp add: carried_def t')
  then show ?thesis using ms by (simp add: end_weight_def carried_def t')
qed

lemma put_weight: "end_weight N (Receiver_put t from m) = end_weight N t + 1"
  by (simp add: end_weight_def Receiver_put_def)

lemma take_in_weight: "tr_take_in fwd t = Some t' \<Longrightarrow> end_weight N t' + 1 = end_weight N t"
  by (auto simp: end_weight_def split: list.splits)

lemma set_end_weight:
  assumes "finite N" and "a \<in> N"
  shows "net_weight N (set_end g a t) + end_weight N (ends g a) = net_weight N g + end_weight N t"
  using sum_fun_upd [OF assms, of "end_weight N" "ends g" t] by (simp add: net_weight_def)

lemma set_wire_weight:
  assumes "finite N" and "a \<in> N" and "b \<in> N"
  shows "net_weight N (set_wire g a b w) + 2 * length (on_wire (wire g a b)) = net_weight N g + 2 * length (on_wire w)"
  using sum_fun_upd [OF assms(1,2), of "\<lambda>u. \<Sum>b\<in>N. 2 * length (on_wire (u b))" "wire g" "(wire g a)(b := w)"]
    sum_fun_upd [OF assms(1,3), of "\<lambda>u. 2 * length (on_wire u)" "wire g a" w]
  by (simp add: net_weight_def)

lemma read_weight:
  "Codec_Read cc w = Ret (Inr (m, w')) \<Longrightarrow> length (on_wire w) = length (on_wire w') + 1"
  by (auto simp: Codec_Read_def split: list.splits gobval.splits if_splits sum.splits)

lemma good_weight:
  assumes "finite N" and "good_step cc fwd N g g'"
  shows "net_weight N g' < net_weight N g"
  using assms(2)
proof cases
  case (hand_over a t)
  then show ?thesis using hand_over_weight [OF hand_over(3), of N] set_end_weight [OF assms(1), of a g t] by simp
next
  case (deliver a e t)
  then show ?thesis using Sender_next_weight [OF assms(1) deliver(3)] set_end_weight [OF assms(1), of a g t] by simp
next
  case (write_to a b t m)
  then show ?thesis
    using conn_take_weight [OF assms(1) write_to(3,4)] set_end_weight [OF assms(1), of a g t]
      set_wire_weight [OF assms(1), of a b "set_end g a t" "Codec_Write cc (wire g a b) m"]
    by (simp add: Codec_Write_def)
next
  case (read_from a b m w)
  then show ?thesis
    using read_weight [OF read_from(5)] put_weight [of N "ends g b" a m]
      set_end_weight [OF assms(1), of b g "Receiver_put (ends g b) a m"]
      set_wire_weight [OF assms(1), of a b "set_end g b (Receiver_put (ends g b) a m)" w]
    by simp
next
  case (take_in b t)
  then show ?thesis using take_in_weight [OF take_in(3), of N] set_end_weight [OF assms(1), of b g t] by simp
qed

lemma good_terminates: "finite N \<Longrightarrow> wf {(g', g). good_step cc fwd N g g'}"
  by (rule wf_subset [OF wf_measure [of "net_weight N"]]) (auto dest: good_weight)

lemma good_reaches_idle:
  assumes "finite N"
  shows "\<exists>g'. (good_step cc fwd N)\<^sup>*\<^sup>* g g' \<and> net_idle cc fwd N g'"
  using good_terminates [OF assms, of cc fwd]
proof (induction g rule: wf_induct_rule)
  case (less g)
  show ?case
  proof (cases "net_idle cc fwd N g")
    case False
    then obtain g1 where "good_step cc fwd N g g1" by (auto simp: net_idle_def)
    with less [of g1] show ?thesis by (auto intro: converse_rtranclp_into_rtranclp)
  qed auto
qed

text \<open>At rest nothing is under way.\<close>

lemma idle_empty:
  assumes "gob_ok cc" and "undisturbed_inv cc g" and "net_idle cc fwd N g" and "a \<in> N" and "b \<in> N"
    and "\<forall>nm \<in> set (sent g a). msg_type cc (Msg nm) \<in> types cc"
  shows "outgoing (ends g a) b = [] \<and> on_wire (wire g a b) = [] \<and> msg (receiver (ends g b)) = []"
proof -
  have no: "\<not> good_step cc fwd N g g'" for g' using assms(3) by (simp add: net_idle_def)
  have "tr_hand_over (ends g a) = None" using no hand_over [OF assms(4)] by (metis option.exhaust)
  moreover have "Sender_next (\<lambda>b. if b \<in> N then None else Some io_EOF) (ends g a) = None"
    using no deliver [OF assms(4)] by (metis option.exhaust)
  moreover have "conn_take (ends g a) b = None" using no write_to [OF assms(4,5)] by (metis option.exhaust surj_pair)
  moreover have "tr_take_in fwd (ends g b) = None" using no take_in [OF assms(5)] by (metis option.exhaust)
  ultimately have "outgoing (ends g a) b = [] \<and> msg (receiver (ends g b)) = []"
    by (auto simp: outgoing_def carried_def split: list.splits option.splits prod.splits)
  moreover have "on_wire (wire g a b) = []"
  proof (rule ccontr)
    assume "on_wire (wire g a b) \<noteq> []"
    then obtain m ms where ms: "on_wire (wire g a b) = m # ms" by (cases "on_wire (wire g a b)") auto
    have inv: "closed g = {}" "wire_whole cc (wire g a b)" "set (on_wire (wire g a b)) \<subseteq> Msg ` set (sent g a)"
      using assms(2) by (simp_all add: undisturbed_inv_def)
    then have "wire g a b = concat (map (Codec_Write cc []) (m # ms))" "m \<in> Msg ` set (sent g a)"
      using ms by (simp_all only: wire_whole_def set_simps insert_subset)
    then have "Codec_Read cc (wire g a b) = Ret (Inr (m, concat (map (Codec_Write cc []) ms)))"
      using Codec_Read_written [OF assms(1)] assms(6) by auto
    then show False using no read_from [OF assms(4,5)] inv(1) by fastforce
  qed
  ultimately show ?thesis by simp
qed

section \<open>Forwarding by module\<close>

text \<open>
  The contract of the goroutine between the receiver and the channel of a transmitter: it keeps the
  messages of one module, in order. Both transmitters of the program keep it.
\<close>

locale forwarding =
  fixes fwd :: "(string \<times> 'm) list \<Rightarrow> string \<times> 'm \<Rightarrow> (string \<times> 'm) list"
    and keep :: "'m \<Rightarrow> bool"
  assumes forward: "fwd ch x = ch @ (if keep (snd x) then [x] else [])"
begin

lemma take_in_effect:
  assumes "tr_take_in fwd t = Some t'"
  shows "outgoing t' b = outgoing t b" and "arrived keep a t' = arrived keep a t"
  using assms by (auto simp: outgoing_def arrived_def forward split: list.splits)

lemma good_traffic:
  assumes "gob_ok cc" and "\<And>a b. wire_ok cc (wire g a b)" and "good_step cc fwd N g g'" and "b \<in> N"
  shows "traffic keep g' a b = traffic keep g a b"
  using assms(3)
proof cases
  case (hand_over c t)
  then show ?thesis
    using hand_over_effect [OF hand_over(3), of b] arrived_cong [of t "ends g c" keep a] by (auto simp: traffic_def)
next
  case (deliver c e t)
  then show ?thesis
    using Sender_next_effect [OF deliver(3), of b] arrived_cong [of t "ends g c" keep a] assms(4) by (auto simp: traffic_def)
next
  case (write_to c d t m)
  then show ?thesis
    using conn_take_effect [OF write_to(4), of b] arrived_cong [of t "ends g c" keep a]
    by (auto simp: traffic_def Codec_Write_def)
next
  case (read_from c d m w)
  then show ?thesis
    using Codec_Read_ok [OF assms(1) assms(2) read_from(5)]
    by (auto simp: traffic_def Receiver_put_effect)
next
  case (take_in c t)
  then show ?thesis using take_in_effect [OF take_in(3)] by (auto simp: traffic_def)
qed

lemma bad_traffic:
  assumes "bad_step cc N g g'"
  shows "subseq (traffic keep g' a b) (traffic keep g a b)"
  using assms
proof cases
  case (dial_fails c dial t)
  then show ?thesis
    using Sender_next_effect [OF dial_fails(3), of b] arrived_cong [of t "ends g c" keep a]
    by (auto simp: traffic_def subseq_append' subseq_filter)
next
  case (write_fails c d t m w)
  then have "on_wire w = []" by auto
  with write_fails show ?thesis
    using conn_take_effect [OF write_fails(3), of b] arrived_cong [of t "ends g c" keep a]
    by (auto simp: traffic_def subseq_append' list_emb_Cons)
next
  case (read_fails d c)
  then show ?thesis by (simp add: traffic_def)
qed

lemma send_traffic:
  assumes "send_step N g g'"
  shows "\<exists>nms. sent g' a = sent g a @ nms \<and> traffic keep g' a b = traffic keep g a b @ filter keep (due b nms)"
  using assms
proof cases
  case (send c nm)
  then show ?thesis
    by (intro exI [of _ "if c = a then [nm] else []"]) (auto simp: traffic_def tr_send_effect)
qed

lemma init_traffic: "traffic keep network_init a b = []"
  by (simp add: traffic_def network_init_def arrived_def outgoing_def NewTransmitor_def NewReceiver_def NewSender_def carried_def)

text \<open>Whatever fails, what has arrived and what is under way is part of what was sent, in order.\<close>

lemma reachable_traffic:
  assumes "gob_ok cc" and "net_reachable cc fwd N g" and "b \<in> N"
  shows "subseq (traffic keep g a b) (filter keep (due b (sent g a)))"
  using assms(2) unfolding net_reachable_def
proof induction
  case base
  show ?case by (simp add: init_traffic)
next
  case (step g g')
  have ok: "wire_ok cc (wire g a b)" for a b
    using wire_ok_reachable [OF assms(1)] step(1) by (auto simp: net_reachable_def)
  from step(2) consider "send_step N g g'" | "good_step cc fwd N g g'" | "bad_step cc N g g'"
    by (auto simp: net_step_def)
  then show ?case
  proof cases
    case 1
    then obtain nms where "sent g' a = sent g a @ nms" "traffic keep g' a b = traffic keep g a b @ filter keep (due b nms)"
      using send_traffic by blast
    with step(3) show ?thesis by (simp add: subseq_append)
  next
    case 2
    then show ?thesis using step(3) good_traffic [OF assms(1) ok 2 assms(3)] by simp
  next
    case 3
    then show ?thesis using step(3) bad_traffic [OF 3, of a b] by (simp add: subseq_order.trans [of _ "traffic keep g a b"])
  qed
qed

text \<open>Without failures it is all of it.\<close>

lemma undisturbed_traffic:
  assumes "gob_ok cc" and "net_undisturbed cc fwd N g" and "b \<in> N"
  shows "traffic keep g a b = filter keep (due b (sent g a))"
  using assms(2) unfolding net_undisturbed_def
proof induction
  case base
  show ?case by (simp add: init_traffic) (simp add: network_init_def)
next
  case (step g g')
  have "wire_ok cc (wire g a b)" for a b
    using undisturbed_holds [OF assms(1), of fwd N g] step(1) by (auto simp: net_undisturbed_def undisturbed_inv_def)
  then have "good_step cc fwd N g g' \<Longrightarrow> ?case" using good_traffic [OF assms(1)] step(3) assms(3) by fastforce
  moreover have "send_step N g g' \<Longrightarrow> ?case" using send_traffic [of N g g' a b] step(3) by auto
  ultimately show ?case using step(2) by blast
qed

lemma idle_delivered:
  assumes "gob_ok cc" and "net_undisturbed cc fwd N g" and "net_idle cc fwd N g" and "a \<in> N" and "b \<in> N"
    and "\<forall>nm \<in> set (sent g a). msg_type cc (Msg nm) \<in> types cc"
  shows "came_from a (recvCh (ends g b)) = filter keep (due b (sent g a))"
  using idle_empty [OF assms(1) undisturbed_holds [OF assms(1,2)] assms(3-6)] undisturbed_traffic [OF assms(1,2,5), of a]
  by (simp add: traffic_def arrived_def)

text \<open>Nothing arrives any more over a connection whose handler has returned.\<close>

lemma closed_step:
  assumes "net_step cc fwd N g g'" and "(a, b) \<in> closed g"
  shows "(a, b) \<in> closed g' \<and> arrived keep a (ends g' b) = arrived keep a (ends g b)"
proof -
  consider "send_step N g g'" | "good_step cc fwd N g g'" | "bad_step cc N g g'"
    using assms(1) by (auto simp: net_step_def)
  then show ?thesis
  proof cases
    case 1
    then show ?thesis using assms(2) by cases (auto simp: tr_send_effect)
  next
    case 2
    then show ?thesis
      using assms(2) by cases (auto simp: Receiver_put_effect take_in_effect(2)
        dest!: hand_over_effect Sender_next_effect conn_take_effect intro: arrived_cong simp del: tr_hand_over.simps
        Sender_next.simps conn_take.simps tr_take_in.simps)
  next
    case 3
    then show ?thesis
      using assms(2) by cases (auto dest!: Sender_next_effect conn_take_effect intro: arrived_cong simp del:
        Sender_next.simps conn_take.simps)
  qed
qed

lemma closed_stays:
  assumes "(net_step cc fwd N)\<^sup>*\<^sup>* g g'" and "(a, b) \<in> closed g"
  shows "(a, b) \<in> closed g' \<and> arrived keep a (ends g' b) = arrived keep a (ends g b)"
  using assms by induction (auto dest: closed_step)

end

interpretation consensus_transport: forwarding "Transmitor_forward (module \<circ> snd)" "\<lambda>m. module m = ''consensus''"
  for module :: "'m \<Rightarrow> string"
  by unfold_locales (simp add: Transmitor_forward_def)

interpretation mempool_transport: forwarding "Transmit_forward (module \<circ> snd)" "\<lambda>m. module m = ''mempool''"
  for module :: "'m \<Rightarrow> string"
  by unfold_locales (simp add: Transmit_forward_def)

text \<open>The two transports of a node: the goroutine that forwards, and the module it keeps.\<close>

definition transports ::
  "('m \<Rightarrow> string) \<Rightarrow> (((string \<times> 'm) list \<Rightarrow> string \<times> 'm \<Rightarrow> (string \<times> 'm) list) \<times> string) set" where
  "transports module =
     {(Transmitor_forward (module \<circ> snd), ''consensus''), (Transmit_forward (module \<circ> snd), ''mempool'')}"

lemma transports_forward: "(fwd, name) \<in> transports module \<Longrightarrow> forwarding fwd (\<lambda>m. module m = name)"
  using consensus_transport.forwarding_axioms mempool_transport.forwarding_axioms by (auto simp: transports_def)

lemma undisturbed_good:
  assumes "net_undisturbed cc fwd N g" and "(good_step cc fwd N)\<^sup>*\<^sup>* g g'"
  shows "net_undisturbed cc fwd N g' \<and> sent g' = sent g"
  using assms(2,1) unfolding net_undisturbed_def by induction (auto intro: rtranclp.rtrancl_into_rtrancl)

text \<open>
  Between two members. \<open>adr\<close> is the choice of the address (consensus or mempool), \<open>send\<close> the
  choice of the addresses of a message.
\<close>

lemma member_delivery:
  assumes "gob_ok cc" and fwd: "(fwd, name) \<in> transports module" and g: "net_undisturbed cc fwd N g"
    and N: "N = (\<lambda>k. adr (lookup_authority c k)) ` members c"
    and ok: "addresses_ok adr c" "i \<in> members c" "j \<in> members c" "i \<noteq> j"
    and sent: "sent g (adr (lookup_authority c i)) = map (\<lambda>(to, m). send to m) sends"
    and to: "\<forall>(to, m) \<in> set sends. (to = NONE \<or> to \<in> members c) \<and> msg_type cc m \<in> types cc"
    and send: "\<And>to m. Address (send to m) = (if to = NONE
      then map (adr \<circ> snd) (filter (\<lambda>(k, a). k \<noteq> i) (Authorities c)) else [adr (lookup_authority c to)])"
      "\<And>to m. Msg (send to m) = m"
  shows "(\<exists>g'. (good_step cc fwd N)\<^sup>*\<^sup>* g g' \<and> net_idle cc fwd N g') \<and>
    (\<forall>g'. (good_step cc fwd N)\<^sup>*\<^sup>* g g' \<and> net_idle cc fwd N g' \<longrightarrow>
      came_from (adr (lookup_authority c i)) (recvCh (ends g' (adr (lookup_authority c j)))) =
      filter (\<lambda>m. module m = name) (map snd (filter (\<lambda>(to, m). to = NONE \<or> to = j) sends)))"
proof (intro conjI allI impI)
  have "finite N" unfolding N by (simp add: members_def)
  then show "\<exists>g'. (good_step cc fwd N)\<^sup>*\<^sup>* g g' \<and> net_idle cc fwd N g'" by (rule good_reaches_idle)
next
  fix g' assume g': "(good_step cc fwd N)\<^sup>*\<^sup>* g g' \<and> net_idle cc fwd N g'"
  then have u: "net_undisturbed cc fwd N g'" and sent': "sent g' = sent g"
    using undisturbed_good [OF g] by blast+
  have "\<forall>nm \<in> set (sent g' (adr (lookup_authority c i))). msg_type cc (Msg nm) \<in> types cc"
    using to send(2) by (auto simp: sent' sent)
  moreover have "due (adr (lookup_authority c j)) (sent g' (adr (lookup_authority c i))) =
      map snd (filter (\<lambda>(to, m). to = NONE \<or> to = j) sends)"
    unfolding due_def sent' sent
    by (rule to_member_due [OF ok(1,3) ok(4) [symmetric] _ send(1,2)]) (use to in auto)
  ultimately show "came_from (adr (lookup_authority c i)) (recvCh (ends g' (adr (lookup_authority c j)))) =
      filter (\<lambda>m. module m = name) (map snd (filter (\<lambda>(to, m). to = NONE \<or> to = j) sends))"
    using forwarding.idle_delivered [OF transports_forward [OF fwd] assms(1) u conjunct2 [OF g']] ok(2,3) N by simp
qed

section \<open>Properties\<close>

text \<open>
  C32. The transport delivers. In a network whose endpoints are the members of a committee with
  different addresses, and in which no dial, write or read fails, the goroutines come to rest from
  every state, in whatever order they run. At rest the receive channel of a member holds of what
  another member sent exactly the messages sent to all or to it and of the channel's module, in the
  order of sending and once each. This holds for the consensus transport and for the mempool's.
\<close>

theorem network_delivers:
  assumes "gob_ok cc" and "i \<in> members c" and "j \<in> members c" and "i \<noteq> j"
    and "\<forall>(to, m) \<in> set sends. (to = NONE \<or> to \<in> members c) \<and> msg_type cc m \<in> types cc"
  shows "(addresses_ok Addr c \<and> N = Committee_Address c ` members c \<and> fwd = Transmitor_forward (module \<circ> snd) \<and>
      net_undisturbed cc fwd N g \<and> sent g (Committee_Address c i) = map (\<lambda>(to, m). Transmitor_Send c i to m) sends \<longrightarrow>
      (\<exists>g'. (good_step cc fwd N)\<^sup>*\<^sup>* g g' \<and> net_idle cc fwd N g') \<and>
      (\<forall>g'. (good_step cc fwd N)\<^sup>*\<^sup>* g g' \<and> net_idle cc fwd N g' \<longrightarrow>
        came_from (Committee_Address c i) (recvCh (ends g' (Committee_Address c j))) =
        filter (\<lambda>m. module m = ''consensus'') (map snd (filter (\<lambda>(to, m). to = NONE \<or> to = j) sends)))) \<and>
    (addresses_ok MempoolAddr c \<and> N = Committee_MempoolAddress c ` members c \<and> fwd = Transmit_forward (module \<circ> snd) \<and>
      net_undisturbed cc fwd N g \<and> sent g (Committee_MempoolAddress c i) = map (\<lambda>(to, m). MempoolSend c i to m) sends \<longrightarrow>
      (\<exists>g'. (good_step cc fwd N)\<^sup>*\<^sup>* g g' \<and> net_idle cc fwd N g') \<and>
      (\<forall>g'. (good_step cc fwd N)\<^sup>*\<^sup>* g g' \<and> net_idle cc fwd N g' \<longrightarrow>
        came_from (Committee_MempoolAddress c i) (recvCh (ends g' (Committee_MempoolAddress c j))) =
        filter (\<lambda>m. module m = ''mempool'') (map snd (filter (\<lambda>(to, m). to = NONE \<or> to = j) sends))))"
  unfolding Committee_Address_def Committee_MempoolAddress_def
proof ((rule conjI; rule impI), goal_cases)
  case 1
  then show ?case
    by (intro member_delivery [OF assms(1) _ _ _ _ assms(2-4), of fwd "''consensus''" module N g Addr "Transmitor_Send c i"])
      (use assms(5) in \<open>auto simp: transports_def Transmitor_Send_def Committee_BroadCast_eq Committee_Address_def\<close>)
next
  case 2
  then show ?case
    by (intro member_delivery [OF assms(1) _ _ _ _ assms(2-4), of fwd "''mempool''" module N g MempoolAddr "MempoolSend c i"])
      (use assms(5) in \<open>auto simp: transports_def MempoolSend_def Committee_MempoolBroadCast_eq Committee_MempoolAddress_def\<close>)
qed

text \<open>
  C33. The transport under failures. Whatever dials, writes and reads fail, and in whatever order
  the goroutines run, what a channel has received from an endpoint is part of what that endpoint
  sent to its address, of the module of the channel, in the order of sending: nothing is made up,
  doubled, reordered or put into the channel of the other module. Once the handler of a connection
  has returned, the channel gets at most what was already waiting at its receiver from that
  endpoint, whatever is sent later: the sender keeps the connection in its table and never dials
  the address again.
\<close>

theorem network_safe:
  assumes "gob_ok cc" and "(fwd, name) \<in> transports module" and "net_reachable cc fwd N g" and "b \<in> N"
  shows "subseq (came_from a (recvCh (ends g b)))
      (filter (\<lambda>m. module m = name) (concat (map (\<lambda>nm. replicate (count_list (Address nm) b) (Msg nm)) (sent g a)))) \<and>
    (\<forall>g'. (a, b) \<in> closed g \<and> (net_step cc fwd N)\<^sup>*\<^sup>* g g' \<longrightarrow>
      prefix (came_from a (recvCh (ends g' b)))
        (came_from a (recvCh (ends g b)) @ filter (\<lambda>m. module m = name) (came_from a (msg (receiver (ends g b))))))"
proof (intro conjI allI impI)
  note fwd = transports_forward [OF assms(2)]
  have "subseq (came_from a (recvCh (ends g b))) (traffic (\<lambda>m. module m = name) g a b)"
    by (simp add: traffic_def arrived_def prefix_imp_subseq)
  then show "subseq (came_from a (recvCh (ends g b)))
      (filter (\<lambda>m. module m = name) (concat (map (\<lambda>nm. replicate (count_list (Address nm) b) (Msg nm)) (sent g a))))"
    using forwarding.reachable_traffic [OF fwd assms(1,3,4), of a] unfolding due_def by (rule subseq_order.trans)
next
  fix g' assume g': "(a, b) \<in> closed g \<and> (net_step cc fwd N)\<^sup>*\<^sup>* g g'"
  then show "prefix (came_from a (recvCh (ends g' b)))
      (came_from a (recvCh (ends g b)) @ filter (\<lambda>m. module m = name) (came_from a (msg (receiver (ends g b)))))"
    using forwarding.closed_stays [OF transports_forward [OF assms(2)], of cc N g g' a b]
    unfolding arrived_def by (metis prefixI)
qed

section \<open>Instances\<close>

text \<open>A member of a committee of three sends to all, to one and to all.\<close>

definition send_from :: "string \<Rightarrow> 'm network \<Rightarrow> 'm NetMessage \<Rightarrow> 'm network" where
  "send_from a g nm = g\<lparr>ends := (ends g)(a := tr_send (ends g a) nm), sent := (sent g)(a := sent g a @ [nm])\<rparr>"

definition sample_net :: "bool network" where
  "sample_net = foldl (send_from ''a'') network_init
     (map (\<lambda>(to, m). Transmitor_Send committee_abc 0 to m) [(NONE, True), (2, True), (1, False)])"

abbreviation sample_fwd :: "(string \<times> bool) list \<Rightarrow> string \<times> bool \<Rightarrow> (string \<times> bool) list" where
  "sample_fwd \<equiv> Transmitor_forward ((\<lambda>_. ''consensus'') \<circ> snd)"

abbreviation sample_ends :: "string set" where
  "sample_ends \<equiv> {''a'', ''b'', ''c''}"

lemma sends_undisturbed:
  assumes "net_undisturbed cc fwd N g" and "a \<in> N"
  shows "net_undisturbed cc fwd N (foldl (send_from a) g nms)"
  using assms(1)
proof (induction nms arbitrary: g)
  case (Cons nm nms)
  have "send_step N g (send_from a g nm)" unfolding send_from_def by (rule send [OF assms(2)])
  with Cons show ?case by (auto simp: net_undisturbed_def intro: rtranclp.rtrancl_into_rtrancl)
qed simp

lemma sent_from: "sent (foldl (send_from a) g nms) = (sent g)(a := sent g a @ nms)"
  by (induction nms arbitrary: g) (auto simp: send_from_def)

lemma undisturbed_reachable: "net_undisturbed cc fwd N g \<Longrightarrow> net_reachable cc fwd N g"
  unfolding net_undisturbed_def net_reachable_def by (erule rtranclp_mono [THEN predicate2D, rotated]) (auto simp: net_step_def)

lemma sample_net_sent:
  "net_undisturbed bool_codec sample_fwd sample_ends sample_net"
  "sent sample_net ''a'' = map (\<lambda>(to, m). Transmitor_Send committee_abc 0 to m) [(NONE, True), (2, True), (1, False)]"
  unfolding sample_net_def
  by (rule sends_undisturbed, simp add: net_undisturbed_def, simp) (simp only: sent_from, simp add: network_init_def)

lemma committee_abc_ok:
  "gob_ok bool_codec" "addresses_ok Addr committee_abc" "Committee_Address committee_abc 2 = ''c''"
  "Committee_Address committee_abc 0 = ''a''" "Committee_Address committee_abc 1 = ''b''"
  "members committee_abc = {0, 1, 2}" "types bool_codec = {0, 1}" "msg_type bool_codec m \<in> {0, 1}"
  by (auto simp: gob_ok_def bool_codec_def addresses_ok_def wf_committee_def committee_abc_def zero_Authority_def
      members_def Committee_Address_def lookup_authority_def)

theorem network_delivers_witness:
  "\<exists>g'. (good_step bool_codec sample_fwd sample_ends)\<^sup>*\<^sup>* sample_net g' \<and> net_idle bool_codec sample_fwd sample_ends g' \<and>
    came_from ''a'' (recvCh (ends g' ''b'')) = [True, False]"
proof -
  have "\<forall>(to, m) \<in> set [(NONE, True), (2, True), (1, False)].
      (to = NONE \<or> to \<in> members committee_abc) \<and> msg_type bool_codec m \<in> types bool_codec"
    using committee_abc_ok(8) by (auto simp: committee_abc_ok(6,7))
  from network_delivers [OF committee_abc_ok(1) _ _ _ this, of 0 1 sample_ends sample_fwd "\<lambda>_. ''consensus''" sample_net, THEN conjunct1]
  have "\<exists>g'. (good_step bool_codec sample_fwd sample_ends)\<^sup>*\<^sup>* sample_net g' \<and> net_idle bool_codec sample_fwd sample_ends g'"
    and "(good_step bool_codec sample_fwd sample_ends)\<^sup>*\<^sup>* sample_net g' \<and> net_idle bool_codec sample_fwd sample_ends g' \<Longrightarrow>
      came_from ''a'' (recvCh (ends g' ''b'')) = [True, False]" for g'
    by (simp_all add: sample_net_sent committee_abc_ok)
  then show ?thesis by blast
qed

text \<open>
  After these messages have arrived the handler of the connection from the first to the second
  member returns, and the first sends once more.
\<close>

theorem network_safe_witness:
  "\<exists>g g'. net_reachable bool_codec sample_fwd sample_ends g \<and> came_from ''a'' (recvCh (ends g ''b'')) = [True, False] \<and>
    (net_step bool_codec sample_fwd sample_ends)\<^sup>*\<^sup>* g g' \<and> length (sent g' ''a'') = 4 \<and>
    prefix (came_from ''a'' (recvCh (ends g' ''b''))) [True, False]"
proof -
  let ?r = "good_step bool_codec sample_fwd sample_ends"
  obtain g0 where g0: "?r\<^sup>*\<^sup>* sample_net g0" "net_idle bool_codec sample_fwd sample_ends g0"
    using good_reaches_idle [of sample_ends bool_codec sample_fwd sample_net] by auto
  then have u: "net_undisturbed bool_codec sample_fwd sample_ends g0" "sent g0 = sent sample_net"
    using undisturbed_good [OF sample_net_sent(1)] by blast+
  have "due ''b'' (sent g0 ''a'') = [True, False]" unfolding u(2) sample_net_sent(2)
    by (simp add: due_def Transmitor_Send_def Committee_BroadCast_eq committee_abc_def zero_Authority_def
        Committee_Address_def lookup_authority_def)
  then have got: "came_from ''a'' (recvCh (ends g0 ''b'')) = [True, False]" "msg (receiver (ends g0 ''b'')) = []"
    using consensus_transport.idle_delivered [OF committee_abc_ok(1) u(1) g0(2), of "''a''" "''b''"]
      idle_empty [OF committee_abc_ok(1) undisturbed_holds [OF committee_abc_ok(1) u(1)] g0(2), of "''a''" "''b''"]
      committee_abc_ok(7,8) by auto
  define g where "g = g0\<lparr>closed := insert (''a'', ''b'') (closed g0)\<rparr>"
  have "bad_step bool_codec sample_ends g0 g" unfolding g_def by (rule read_fails) simp
  then have g: "net_reachable bool_codec sample_fwd sample_ends g"
    using undisturbed_reachable [OF u(1)] unfolding net_reachable_def
    by (auto simp: net_step_def intro: rtranclp.rtrancl_into_rtrancl)
  define g' where "g' = send_from ''a'' g (Transmitor_Send committee_abc 0 NONE True)"
  have "send_step sample_ends g g'" unfolding g'_def send_from_def by (rule send) simp
  then have g': "(net_step bool_codec sample_fwd sample_ends)\<^sup>*\<^sup>* g g'" by (auto simp: net_step_def)
  have "prefix (came_from ''a'' (recvCh (ends g' ''b''))) [True, False]"
    using network_safe [OF committee_abc_ok(1) _ g, of "''consensus''" "\<lambda>_. ''consensus''" "''b''" "''a''", THEN conjunct2, THEN spec, of g'] g' got
    by (simp add: transports_def g_def)
  moreover have "length (sent g' ''a'') = 4"
    unfolding g'_def g_def send_from_def by (simp add: u(2) sample_net_sent(2))
  moreover have "came_from ''a'' (recvCh (ends g ''b'')) = [True, False]" using got(1) by (simp add: g_def)
  ultimately show ?thesis using g g' by blast
qed

end
