(* ===== verification/System.thy ===== *)
theory System
  imports Cluster Transport
begin

text \<open>
  The whole system: the correct members of a committee running the code, and the consensus
  transport between all members as it is programmed. What a node sends is handed to its transmitter
  in the order of the calls (\<open>handed\<close> counts the messages handed over); what the goroutine of the
  transmitter forwards goes to the channel its main loop reads. Faulty members send what they like
  over the same transport, except for messages that verify in the name of a correct member who did
  not send them.

  The cluster of \<open>Cluster\<close>, whose network may do anything but forge, is an abstraction of this
  system.
\<close>

section \<open>State and steps\<close>

record System =
  cluster :: Cluster
  net :: "message network"
  handed :: "NodeID \<Rightarrow> nat"

text \<open>The codec of the consensus messages (\<^verbatim>\<open>NewCodec(DefaultMessageTypeMap)\<close>).\<close>

definition consensus_codec :: "(int \<Rightarrow> message \<Rightarrow> go_error + message) \<Rightarrow> message Codec" where
  "consensus_codec decode = \<lparr>types = consensus_types, decode_as = decode, msg_type = MsgType\<rparr>"

abbreviation consensus_fwd :: "(string \<times> message) list \<Rightarrow> string \<times> message \<Rightarrow> (string \<times> message) list" where
  "consensus_fwd \<equiv> Transmitor_forward (Module \<circ> snd)"

abbreviation consensus_ends :: "Committee \<Rightarrow> string set" where
  "consensus_ends cm \<equiv> Committee_Address cm ` members cm"

abbreviation set_node :: "System \<Rightarrow> NodeID \<Rightarrow> Core \<Rightarrow> System" where
  "set_node x n c \<equiv> x\<lparr>cluster := (cluster x)\<lparr>nodes := (nodes (cluster x))(n := c)\<rparr>\<rparr>"

abbreviation node_end :: "Committee \<Rightarrow> System \<Rightarrow> NodeID \<Rightarrow> message Transmitor" where
  "node_end cm x n \<equiv> ends (net x) (Committee_Address cm n)"

text \<open>The transport between the nodes: handing over, the goroutines, forwarding to a main loop.\<close>

inductive carry_step ::
  "message Codec \<Rightarrow> Committee \<Rightarrow> NodeID set \<Rightarrow> System \<Rightarrow> System \<Rightarrow> bool"
  for cc :: "message Codec" and cm :: Committee and H :: "NodeID set" where
  hand: "n \<in> H \<Longrightarrow> handed x n < length (Sent (nodes (cluster x) n)) \<Longrightarrow>
    carry_step cc cm H x
      (x\<lparr>net := send_from (Committee_Address cm n) (net x) (Sent (nodes (cluster x) n) ! handed x n),
         handed := (handed x)(n := Suc (handed x n))\<rparr>)"
| goroutine: "good_step cc consensus_fwd (consensus_ends cm) (net x) s \<Longrightarrow>
    \<forall>n \<in> H. recvCh (ends s (Committee_Address cm n)) = recvCh (node_end cm x n) \<Longrightarrow>
    carry_step cc cm H x (x\<lparr>net := s\<rparr>)"
| forward: "n \<in> H \<Longrightarrow> tr_take_in consensus_fwd (node_end cm x n) = Some t \<Longrightarrow>
    msg (receiver (node_end cm x n)) = (a, m) # rest \<Longrightarrow>
    carry_step cc cm H x
      ((set_node x n ((nodes (cluster x) n)\<lparr>RecvCh := Transmitor_forward Module (RecvCh (nodes (cluster x) n)) m\<rparr>))
         \<lparr>net := set_end (net x) (Committee_Address cm n) t\<rparr>)"

text \<open>The nodes: the main loop takes a message, or a goroutine, the mempool or a tick does its work.\<close>

inductive node_step ::
  "('a consensus_env_scheme) \<Rightarrow> NodeID set \<Rightarrow> System \<Rightarrow> System \<Rightarrow> bool"
  for E :: "'a consensus_env_scheme" and H :: "NodeID set" where
  take: "n \<in> H \<Longrightarrow> RecvCh (nodes (cluster x) n) = m # rest \<Longrightarrow>
    Core_dispatch E ((nodes (cluster x) n)\<lparr>RecvCh := rest\<rparr>) m = Ret (c', y) \<Longrightarrow>
    node_step E H x
      (x\<lparr>cluster := (cluster x)\<lparr>nodes := (nodes (cluster x))(n := c'),
           taken := (taken (cluster x))(n := taken (cluster x) n @ [m]),
           concluded := (concluded (cluster x))(n := concluded (cluster x) n @ verdict E (nodes (cluster x) n) m)\<rparr>\<rparr>)"
| work: "n \<in> H \<Longrightarrow> core_work E (nodes (cluster x) n) c' \<Longrightarrow> node_step E H x (set_node x n c')"

text \<open>What faulty members send, and failures of the network.\<close>

inductive faulty_step ::
  "('a consensus_env_scheme) \<Rightarrow> Committee \<Rightarrow> NodeID set \<Rightarrow> System \<Rightarrow> System \<Rightarrow> bool"
  for E :: "'a consensus_env_scheme" and cm :: Committee and H :: "NodeID set" where
  faulty: "n \<in> members cm - H \<Longrightarrow> genuine E cm H (cluster x) (Msg nm) \<Longrightarrow>
    faulty_step E cm H x (x\<lparr>net := send_from (Committee_Address cm n) (net x) nm\<rparr>)"

inductive failure_step :: "message Codec \<Rightarrow> Committee \<Rightarrow> System \<Rightarrow> System \<Rightarrow> bool"
  for cc :: "message Codec" and cm :: Committee where
  failure: "bad_step cc (consensus_ends cm) (net x) s \<Longrightarrow> failure_step cc cm x (x\<lparr>net := s\<rparr>)"

definition system_step ::
  "('a consensus_env_scheme) \<Rightarrow> message Codec \<Rightarrow> Committee \<Rightarrow> NodeID set \<Rightarrow> System \<Rightarrow> System \<Rightarrow> bool" where
  "system_step E cc cm H x y \<longleftrightarrow> carry_step cc cm H x y \<or> node_step E H x y \<or> faulty_step E cm H x y"

definition system_init ::
  "('a consensus_env_scheme) \<Rightarrow> Committee \<Rightarrow> (NodeID \<Rightarrow> Parameters) \<Rightarrow> (NodeID \<Rightarrow> SigService)
   \<Rightarrow> (NodeID \<Rightarrow> Store) \<Rightarrow> (NodeID \<Rightarrow> PoolState) \<Rightarrow> System" where
  "system_init E cm ps sg st txs = \<lparr>cluster = cluster_init E cm ps sg st txs, net = network_init, handed = (\<lambda>_. 0)\<rparr>"

definition system_reachable ::
  "('a consensus_env_scheme) \<Rightarrow> message Codec \<Rightarrow> Committee \<Rightarrow> NodeID set \<Rightarrow> (NodeID \<Rightarrow> Parameters) \<Rightarrow> (NodeID \<Rightarrow> SigService)
   \<Rightarrow> (NodeID \<Rightarrow> Store) \<Rightarrow> (NodeID \<Rightarrow> PoolState) \<Rightarrow> System \<Rightarrow> bool" where
  "system_reachable E cc cm H ps sg st txs x \<longleftrightarrow>
     (\<lambda>x y. system_step E cc cm H x y \<or> failure_step cc cm x y)\<^sup>*\<^sup>* (system_init E cm ps sg st txs) x"

text \<open>Runs without failures of the network.\<close>

definition system_undisturbed ::
  "('a consensus_env_scheme) \<Rightarrow> message Codec \<Rightarrow> Committee \<Rightarrow> NodeID set \<Rightarrow> (NodeID \<Rightarrow> Parameters) \<Rightarrow> (NodeID \<Rightarrow> SigService)
   \<Rightarrow> (NodeID \<Rightarrow> Store) \<Rightarrow> (NodeID \<Rightarrow> PoolState) \<Rightarrow> System \<Rightarrow> bool" where
  "system_undisturbed E cc cm H ps sg st txs x \<longleftrightarrow> (system_step E cc cm H)\<^sup>*\<^sup>* (system_init E cm ps sg st txs) x"

section \<open>The cluster as an abstraction\<close>

lemma send_from_step: "a \<in> N \<Longrightarrow> send_step N g (send_from a g nm)"
  unfolding send_from_def by (rule send)

lemma sent_send_from [simp]: "sent (send_from a g nm) = (sent g)(a := sent g a @ [nm])"
  by (simp add: send_from_def)

lemma ends_send_from [simp]:
  "recvCh (ends (send_from a g nm) b) = recvCh (ends g b)" "receiver (ends (send_from a g nm) b) = receiver (ends g b)"
  by (simp_all add: send_from_def tr_send_def)

text \<open>What a correct member has sent is genuine, and stays so.\<close>

lemma sent_genuine:
  assumes "cluster_reachable E cm H ps sg st txs g" and "m \<in> set (messages (nodes g n))"
  shows "genuine E cm H g m"
proof -
  note r = cluster_node [OF assms(1), of n]
  have "sent_own E (nodes g n)" by (rule signed.reachable_keep [OF r]) (simp_all add: sent_own_def NewCore_def)
  moreover have "cName (nodes g n) = n"
    using identity.reachable_keep [OF r, of n "sg n" cm] by (simp add: NewCore_def NewAggreator_def)
  ultimately have "m = MElectShare None \<or> message_author m = n" using assms(2) by (auto simp: sent_own_def own_def)
  with assms(2) show ?thesis by (auto simp: genuine_def)
qed

lemma genuine_step: "cluster_step E cm H g g' \<Longrightarrow> genuine E cm H g m \<Longrightarrow> genuine E cm H g' m"
  using step_sends [of E cm H g g' "message_author m"] by (auto simp: genuine_def)

text \<open>A step of a node is a step of the cluster; forwarding is a delivery.\<close>

lemma node_step_cluster:
  assumes "node_step E H x y"
  shows "cluster_step E cm H (cluster x) (cluster y) \<and> net y = net x \<and> handed y = handed x"
  using assms
proof cases
  case (take n m rest c' y')
  then show ?thesis by (simp add: cluster_step.take_message)
next
  case (work n c')
  then show ?thesis by (simp add: cluster_step.work)
qed

text \<open>What reaches a node over the transport was sent by the endpoint it came from.\<close>

lemma received_was_sent:
  assumes "gob_ok cc" and "net_reachable cc consensus_fwd N s" and "b \<in> N" and "(a, m) \<in> set (msg (receiver (ends s b)))"
  shows "m \<in> Msg ` set (sent s a)"
proof -
  have "m \<in> set (came_from a (msg (receiver (ends s b))))" using assms(4) by (force simp: came_from_def)
  then have "m \<in> set (traffic (\<lambda>m. Module m = ''consensus'') s a b)"
    by (simp add: traffic_def arrived_def Module_consensus)
  with consensus_transport.reachable_traffic [OF assms(1-3), of a]
  have "m \<in> set (due b (sent s a))" by (auto simp: Module_consensus dest: list_emb_set)
  then show ?thesis by (auto simp: due_def)
qed

lemma refines_step:
  assumes cc: "gob_ok cc" and H: "H \<subseteq> members cm"
    and step: "system_step E cc cm H x y \<or> failure_step cc cm x y"
    and g: "cluster_reachable E cm H ps sg st txs (cluster x)"
    and s: "net_reachable cc consensus_fwd (consensus_ends cm) (net x)"
    and sent: "\<And>a nm. nm \<in> set (sent (net x) a) \<Longrightarrow> genuine E cm H (cluster x) (Msg nm)"
  shows "cluster_reachable E cm H ps sg st txs (cluster y) \<and>
    net_reachable cc consensus_fwd (consensus_ends cm) (net y) \<and>
    (\<forall>a. \<forall>nm \<in> set (sent (net y) a). genuine E cm H (cluster y) (Msg nm))"
proof -
  have net: "net_reachable cc consensus_fwd (consensus_ends cm) s'"
    if "net_step cc consensus_fwd (consensus_ends cm) (net x) s'" for s'
    using s that by (simp add: net_reachable_def rtranclp.rtrancl_into_rtrancl)
  from step consider (carry) "carry_step cc cm H x y" | (node) "node_step E H x y" | (faulty) "faulty_step E cm H x y"
    | (failure) "failure_step cc cm x y" by (auto simp: system_step_def)
  then show ?thesis
  proof cases
    case carry
    then show ?thesis
    proof cases
      case (hand n)
      have "genuine E cm H (cluster x) (Msg (Sent (nodes (cluster x) n) ! handed x n))"
        using hand(3) by (intro sent_genuine [OF g, of _ n]) simp
      moreover have "net_step cc consensus_fwd (consensus_ends cm) (net x) (net y)"
        using hand(1,2) H by (auto simp: net_step_def intro: send_from_step)
      ultimately show ?thesis using hand(1) g sent net by (auto split: if_splits)
    next
      case (goroutine s')
      then show ?thesis using g net sent by (auto simp: net_step_def)
    next
      case (forward n t a m rest)
      have n: "Committee_Address cm n \<in> consensus_ends cm" using forward(2) H by auto
      have "good_step cc consensus_fwd (consensus_ends cm) (net x) (net y)"
        using take_in [OF n forward(3)] forward(1) by simp
      moreover have "genuine E cm H (cluster x) m"
        using received_was_sent [OF cc s n, of a m] forward(4) sent by auto
      then have c: "cluster_step E cm H (cluster x) (cluster y)"
        using cluster_step.deliver [OF forward(2), of E cm "cluster x" m] forward(1)
        by (simp add: core_self_def Transmitor_forward_def Module_consensus)
      ultimately show ?thesis
        using cluster_next [OF g c] net [of "net y"] genuine_step [OF c sent] by (auto simp: net_step_def)
    qed
  next
    case node
    have c: "cluster_step E cm H (cluster x) (cluster y)" "net y = net x"
      using node_step_cluster [OF node, of cm] by auto
    then show ?thesis using cluster_next [OF g c(1)] s genuine_step [OF c(1) sent] by auto
  next
    case faulty
    then show ?thesis
    proof cases
      case (faulty n nm)
      then have "net_step cc consensus_fwd (consensus_ends cm) (net x) (net y)"
        by (auto simp: net_step_def intro: send_from_step)
      with faulty show ?thesis using g sent net by (auto split: if_splits)
    qed
  next
    case failure
    then show ?thesis by cases (use g net sent in \<open>auto simp: net_step_def\<close>)
  qed
qed

lemma system_refines:
  assumes "gob_ok cc" and "H \<subseteq> members cm" and "system_reachable E cc cm H ps sg st txs x"
  shows "cluster_reachable E cm H ps sg st txs (cluster x) \<and>
    net_reachable cc consensus_fwd (consensus_ends cm) (net x) \<and>
    (\<forall>a. \<forall>nm \<in> set (sent (net x) a). genuine E cm H (cluster x) (Msg nm))"
  using assms(3) unfolding system_reachable_def
proof (induction rule: rtranclp_induct)
  case base
  show ?case by (simp add: system_init_def cluster_reachable_def net_reachable_def) (simp add: network_init_def)
next
  case (step x y)
  then show ?case using refines_step [OF assms(1,2) step.hyps(2), of ps sg st txs] by blast
qed

section \<open>Delivery\<close>

text \<open>A node only adds to what it has sent, and nothing vanishes from its channel untaken.\<close>

interpretation sends_in_order: core_invariant E "\<lambda>c. prefix nms (Sent c)" "\<lambda>_ _ _. True" for E nms
  by unfold_locales
    (auto simp: core_effects invokeDoneAndShare_def hasDone_def split: option.split)

interpretation waiting: core_reduced E "\<lambda>c. M \<subseteq> set (RecvCh c)" "\<lambda>_ _ _. True" for E M
  by unfold_locales
    (auto simp: core_effects core_broadcast_def invokeDoneAndShare_def hasDone_def split: option.split)

definition known :: "Cluster \<Rightarrow> NodeID \<Rightarrow> message set" where
  "known g n = set (taken g n) \<union> set (RecvCh (nodes g n))"

lemma node_step_effect:
  assumes "node_step E H x y"
  shows "prefix (Sent (nodes (cluster x) k)) (Sent (nodes (cluster y) k)) \<and> known (cluster x) k \<subseteq> known (cluster y) k"
  using assms
proof cases
  case (take n m rest c' z)
  let ?c = "(nodes (cluster x) n)\<lparr>RecvCh := rest\<rparr>"
  have "prefix (Sent (nodes (cluster x) n)) (Sent c')"
    using sends_in_order.dispatches [of "Sent (nodes (cluster x) n)" ?c E m c' z] take(4) by simp
  moreover have "set rest \<subseteq> set (RecvCh c')"
    using waiting.dispatches [of "set rest" ?c E m c' z] take(4) by simp
  ultimately show ?thesis using take(1,3) by (auto simp: known_def)
next
  case (work n c')
  have "prefix (Sent (nodes (cluster x) n)) (Sent c')"
    using sends_in_order.work_keeps [OF work(3), of "Sent (nodes (cluster x) n)"] by simp
  moreover have "set (RecvCh (nodes (cluster x) n)) \<subseteq> set (RecvCh c')"
    using waiting.work_keeps [OF work(3), of "set (RecvCh (nodes (cluster x) n))"] by simp
  ultimately show ?thesis using work(1) by (auto simp: known_def)
qed

definition carried_over :: "message Codec \<Rightarrow> Committee \<Rightarrow> NodeID set \<Rightarrow> System \<Rightarrow> bool" where
  "carried_over cc cm H x \<longleftrightarrow>
     net_undisturbed cc consensus_fwd (consensus_ends cm) (net x) \<and>
     (\<forall>n \<in> H. handed x n \<le> length (Sent (nodes (cluster x) n)) \<and>
        sent (net x) (Committee_Address cm n) = take (handed x n) (Sent (nodes (cluster x) n)) \<and>
        snd ` set (recvCh (node_end cm x n)) \<subseteq> known (cluster x) n)"

lemma net_undisturbed_next:
  "net_undisturbed cc fwd N s \<Longrightarrow> send_step N s s' \<or> good_step cc fwd N s s' \<Longrightarrow> net_undisturbed cc fwd N s'"
  by (auto simp: net_undisturbed_def intro: rtranclp.rtrancl_into_rtrancl)

lemma carried_over_step:
  assumes H: "H \<subseteq> members cm" and adr: "inj_on (Committee_Address cm) (members cm)"
    and x: "carried_over cc cm H x" and step: "system_step E cc cm H x y"
  shows "carried_over cc cm H y"
proof -
  have u: "net_undisturbed cc consensus_fwd (consensus_ends cm) (net x)" using x by (simp add: carried_over_def)
  have n: "handed x n \<le> length (Sent (nodes (cluster x) n))"
    "sent (net x) (Committee_Address cm n) = take (handed x n) (Sent (nodes (cluster x) n))"
    "snd ` set (recvCh (node_end cm x n)) \<subseteq> known (cluster x) n" if "n \<in> H" for n
    using x that by (simp_all add: carried_over_def)
  have same: "Committee_Address cm n = Committee_Address cm k \<longleftrightarrow> n = k" if "k \<in> members cm" "n \<in> H" for n k
    using adr that H by (auto dest: inj_onD)
  from step consider (carry) "carry_step cc cm H x y" | (node) "node_step E H x y" | (faulty) "faulty_step E cm H x y"
    by (auto simp: system_step_def)
  then show ?thesis
  proof cases
    case carry
    then show ?thesis
    proof cases
      case (hand k)
      then show ?thesis
        using H n net_undisturbed_next [OF u disjI1 [OF send_from_step]] same
        by (auto simp: carried_over_def take_Suc_conv_app_nth)
    next
      case (goroutine s)
      then show ?thesis using n net_undisturbed_next [OF u disjI2] by (auto simp: carried_over_def)
    next
      case (forward k t a m rest)
      have k: "Committee_Address cm k \<in> consensus_ends cm" using forward(2) H by auto
      have t: "recvCh t = recvCh (node_end cm x k) @ [(a, m)]"
        using forward(3,4) by (auto simp: Transmitor_forward_def Module_consensus)
      have kn: "Committee_Address cm n = Committee_Address cm k \<longleftrightarrow> n = k" if "n \<in> H" for n
        using same [of k n] that forward(2) H by auto
      have "known (cluster y) n = known (cluster x) n \<union> (if n = k then {m} else {})" for n
        using forward(1) by (simp add: known_def Transmitor_forward_def Module_consensus)
      then have "snd ` set (recvCh (node_end cm y n)) \<subseteq> known (cluster y) n" if "n \<in> H" for n
        using n(3) [OF that] kn [OF that] t forward(1) by auto
      moreover have "Sent (nodes (cluster y) n) = Sent (nodes (cluster x) n)" for n using forward(1) by simp
      moreover have "net_undisturbed cc consensus_fwd (consensus_ends cm) (net y)" "sent (net y) = sent (net x)" "handed y = handed x"
        using net_undisturbed_next [OF u disjI2 [OF take_in [OF k forward(3)]]] forward(1) by simp_all
      ultimately show ?thesis using n(1,2) by (simp add: carried_over_def)
    qed
  next
    case node
    have "net y = net x" "handed y = handed x" using node_step_cluster [OF node] by auto
    moreover have "take (handed x k) (Sent (nodes (cluster y) k)) = take (handed x k) (Sent (nodes (cluster x) k))"
      "handed x k \<le> length (Sent (nodes (cluster y) k))" "known (cluster x) k \<subseteq> known (cluster y) k" if "k \<in> H" for k
      using node_step_effect [OF node, of k] n(1) [OF that] by (auto simp: prefix_def)
    ultimately show ?thesis using u n by (fastforce simp: carried_over_def)
  next
    case faulty
    then show ?thesis
    proof cases
      case (faulty k nm)
      then show ?thesis
        using n net_undisturbed_next [OF u disjI1 [OF send_from_step]] same [of k]
        by (auto simp: carried_over_def)
    qed
  qed
qed

lemma carried_over_holds:
  assumes "H \<subseteq> members cm" and "inj_on (Committee_Address cm) (members cm)" and "system_undisturbed E cc cm H ps sg st txs x"
  shows "carried_over cc cm H x"
  using assms(3) unfolding system_undisturbed_def
proof (induction rule: rtranclp_induct)
  case base
  show ?case by (simp add: carried_over_def system_init_def net_undisturbed_def) (simp add: network_init_def NewTransmitor_def)
next
  case (step x y)
  then show ?case using carried_over_step [OF assms(1,2)] by blast
qed

text \<open>The transport alone brings everything sent so far to the channels of the receivers.\<close>

definition carried_on :: "System \<Rightarrow> System \<Rightarrow> bool" where
  "carried_on x y \<longleftrightarrow> (\<forall>k. Sent (nodes (cluster y) k) = Sent (nodes (cluster x) k)) \<and> taken (cluster y) = taken (cluster x)"

lemma carried_on_refl [simp]: "carried_on x x"
  by (simp add: carried_on_def)

lemma carried_on_trans: "carried_on x y \<Longrightarrow> carried_on y z \<Longrightarrow> carried_on x z"
  by (simp add: carried_on_def)

lemma good_carry:
  assumes "good_step cc consensus_fwd (consensus_ends cm) (net x) s"
  shows "\<exists>y. carry_step cc cm H x y \<and> net y = s \<and> handed y = handed x \<and> carried_on x y"
proof (cases "\<forall>n \<in> H. recvCh (ends s (Committee_Address cm n)) = recvCh (node_end cm x n)")
  case True
  with assms have "carry_step cc cm H x (x\<lparr>net := s\<rparr>)" by (rule goroutine)
  then show ?thesis by (intro exI [of _ "x\<lparr>net := s\<rparr>"]) (simp add: carried_on_def)
next
  case False
  then obtain n where n: "n \<in> H" "recvCh (ends s (Committee_Address cm n)) \<noteq> recvCh (node_end cm x n)" by blast
  obtain t where t: "tr_take_in consensus_fwd (node_end cm x n) = Some t" "s = set_end (net x) (Committee_Address cm n) t"
    using good_recvCh [OF assms n(2)] by blast
  then obtain a m rest where m: "msg (receiver (node_end cm x n)) = (a, m) # rest" by (auto split: list.splits)
  let ?c = "(nodes (cluster x) n)\<lparr>RecvCh := Transmitor_forward Module (RecvCh (nodes (cluster x) n)) m\<rparr>"
  from forward [OF n(1) t(1) m] show ?thesis
    by (intro exI [of _ "(set_node x n ?c)\<lparr>net := s\<rparr>"]) (simp add: t(2) carried_on_def)
qed

lemma good_carries:
  assumes "(good_step cc consensus_fwd (consensus_ends cm))\<^sup>*\<^sup>* (net x) s"
  shows "\<exists>y. (carry_step cc cm H)\<^sup>*\<^sup>* x y \<and> net y = s \<and> handed y = handed x \<and> carried_on x y"
  using assms
proof (induction rule: rtranclp_induct)
  case base
  show ?case by (intro exI [of _ x]) simp
next
  case (step s s')
  then obtain y where y: "(carry_step cc cm H)\<^sup>*\<^sup>* x y" "net y = s" "handed y = handed x" "carried_on x y" by blast
  obtain z where "carry_step cc cm H y z" "net z = s'" "handed z = handed y" "carried_on y z"
    using good_carry [of cc cm y s' H] step.hyps(2) y(2) by blast
  with y show ?case
    using carried_on_trans [of x y z] by (intro exI [of _ z]) (auto intro: rtranclp.rtrancl_into_rtrancl)
qed

lemma all_handed:
  assumes "finite H" and "\<forall>n \<in> H. handed x n \<le> length (Sent (nodes (cluster x) n))"
  shows "\<exists>y. (carry_step cc cm H)\<^sup>*\<^sup>* x y \<and> cluster y = cluster x \<and>
    (\<forall>n \<in> H. handed y n = length (Sent (nodes (cluster x) n)))"
  using assms(2)
proof (induction "\<Sum>n\<in>H. length (Sent (nodes (cluster x) n)) - handed x n" arbitrary: x rule: less_induct)
  case less
  show ?case
  proof (cases "\<forall>n \<in> H. handed x n = length (Sent (nodes (cluster x) n))")
    case True
    then show ?thesis by (intro exI [of _ x]) simp
  next
    case False
    then obtain n where "n \<in> H" "handed x n \<noteq> length (Sent (nodes (cluster x) n))" by blast
    with less(2) have n: "n \<in> H" "handed x n < length (Sent (nodes (cluster x) n))" by (auto simp: le_neq_implies_less)
    define y where "y = x\<lparr>net := send_from (Committee_Address cm n) (net x) (Sent (nodes (cluster x) n) ! handed x n),
         handed := (handed x)(n := Suc (handed x n))\<rparr>"
    have xy: "carry_step cc cm H x y" unfolding y_def by (rule hand [OF n])
    have "(\<Sum>k\<in>H. length (Sent (nodes (cluster y) k)) - handed y k) < (\<Sum>k\<in>H. length (Sent (nodes (cluster x) k)) - handed x k)"
      by (rule sum_strict_mono_ex1 [OF assms(1)]) (use n in \<open>auto simp: y_def\<close>)
    moreover have "\<forall>k \<in> H. handed y k \<le> length (Sent (nodes (cluster y) k))" using less(2) n by (simp add: y_def)
    ultimately obtain z where "(carry_step cc cm H)\<^sup>*\<^sup>* y z" "cluster z = cluster y" "\<forall>k \<in> H. handed z k = length (Sent (nodes (cluster y) k))"
      using less(1) [of y] by blast
    with xy show ?thesis by (intro exI [of _ z]) (auto simp: y_def intro: converse_rtranclp_into_rtranclp)
  qed
qed

lemma carries_system: "(carry_step cc cm H)\<^sup>*\<^sup>* x y \<Longrightarrow> (system_step E cc cm H)\<^sup>*\<^sup>* x y"
  by (erule rtranclp_mono [THEN predicate2D, rotated]) (auto simp: system_step_def)

lemma undisturbed_system:
  "system_undisturbed E cc cm H ps sg st txs x \<Longrightarrow> system_reachable E cc cm H ps sg st txs x"
  unfolding system_undisturbed_def system_reachable_def by (erule rtranclp_mono [THEN predicate2D, rotated]) auto

lemma undisturbed_carries:
  "system_undisturbed E cc cm H ps sg st txs x \<Longrightarrow> (carry_step cc cm H)\<^sup>*\<^sup>* x y \<Longrightarrow> system_undisturbed E cc cm H ps sg st txs y"
  unfolding system_undisturbed_def by (erule rtranclp_trans [OF _ carries_system])

text \<open>The addresses of a message a node has sent differ, so it is due once at each of them.\<close>

lemma due_addressed:
  assumes "addresses_ok Addr cm" and "\<forall>nm \<in> set nms. addressed_by cm n nm"
  shows "due b nms = map Msg (filter (\<lambda>nm. b \<in> set (Address nm)) nms)"
proof -
  have "distinct (Address nm)" if "addressed_by cm n nm" for nm
  proof -
    obtain to m where "nm = Transmitor_Send cm n to m" using \<open>addressed_by cm n nm\<close> unfolding addressed_by_def by blast
    then have "Address nm = (if to = NONE then Committee_BroadCast cm n else [Committee_Address cm to])"
      by (simp add: Transmitor_Send_def)
    moreover have "distinct (Committee_BroadCast cm n)"
      using assms(1) unfolding addresses_ok_def Committee_BroadCast_eq by (intro distinct_map_filter) blast
    ultimately show ?thesis by simp
  qed
  with assms(2) show ?thesis by (induction nms) (auto simp: count_list_distinct)
qed

lemma consensus_codec_simps [simp]:
  "msg_type (consensus_codec decode) = MsgType" "types (consensus_codec decode) = consensus_types"
  by (simp_all add: consensus_codec_def)

lemma addresses_inj_on: "addresses_ok Addr cm \<Longrightarrow> inj_on (Committee_Address cm) (members cm)"
  by (rule inj_onI) (simp add: Committee_Address_def addresses_inj)

lemma system_addressed:
  assumes "gob_ok cc" and "H \<subseteq> members cm" and "system_reachable E cc cm H ps sg st txs x"
  shows "\<forall>nm \<in> set (Sent (nodes (cluster x) n)). addressed_by cm n nm"
proof -
  have r: "core_reachable E n cm (ps n) (sg n) (st n) (txs n) (nodes (cluster x) n)"
    using cluster_node system_refines [OF assms] by blast
  have "\<forall>nm \<in> set (Sent (nodes (cluster x) n)).
      addressed_by (cCommittee (nodes (cluster x) n)) (cName (nodes (cluster x) n)) nm"
    by (rule addressed.reachable_keep [OF r]) (simp_all add: NewCore_def)
  moreover have "cName (nodes (cluster x) n) = n \<and> cCommittee (nodes (cluster x) n) = cm"
    using identity.reachable_keep [OF r, of n "sg n" cm] by (simp add: NewCore_def NewAggreator_def)
  ultimately show ?thesis by simp
qed

text \<open>At rest a channel has got from a correct member exactly what this has sent to it.\<close>

lemma system_at_rest:
  assumes cc: "gob_ok (consensus_codec decode)" and H: "H \<subseteq> members cm" and adr: "addresses_ok Addr cm"
    and x: "system_undisturbed E (consensus_codec decode) cm H ps sg st txs x"
    and rest: "net_idle (consensus_codec decode) consensus_fwd (consensus_ends cm) (net x)"
    and n: "n \<in> H" "handed x n = length (Sent (nodes (cluster x) n))" and k: "k \<in> H"
  shows "came_from (Committee_Address cm n) (recvCh (node_end cm x k)) =
      map Msg (filter (\<lambda>nm. Committee_Address cm k \<in> set (Address nm)) (Sent (nodes (cluster x) n)))"
proof -
  have c: "carried_over (consensus_codec decode) cm H x" by (rule carried_over_holds [OF H addresses_inj_on [OF adr] x])
  then have sent: "sent (net x) (Committee_Address cm n) = Sent (nodes (cluster x) n)"
    using n by (auto simp: carried_over_def)
  have "came_from (Committee_Address cm n) (recvCh (node_end cm x k)) =
      filter (\<lambda>m. Module m = ''consensus'') (due (Committee_Address cm k) (sent (net x) (Committee_Address cm n)))"
    by (rule consensus_transport.idle_delivered [OF cc _ rest])
      (use c n(1) k H in \<open>auto simp: carried_over_def MsgType_registered\<close>)
  also have "\<dots> = due (Committee_Address cm k) (Sent (nodes (cluster x) n))" by (simp add: Module_consensus sent)
  also have "\<dots> = map Msg (filter (\<lambda>nm. Committee_Address cm k \<in> set (Address nm)) (Sent (nodes (cluster x) n)))"
    by (rule due_addressed [OF adr system_addressed [OF cc H undisturbed_system [OF x]]])
  finally show ?thesis .
qed

lemma system_comes_to_rest:
  assumes "H \<subseteq> members cm" and "addresses_ok Addr cm" and "system_undisturbed E cc cm H ps sg st txs x"
  shows "\<exists>y. (carry_step cc cm H)\<^sup>*\<^sup>* x y \<and> carried_on x y \<and> net_idle cc consensus_fwd (consensus_ends cm) (net y) \<and>
    (\<forall>n \<in> H. handed y n = length (Sent (nodes (cluster y) n)))"
proof -
  have fin: "finite (members cm)" by (simp add: members_def)
  then have H: "finite H" using assms(1) by (rule rev_finite_subset)
  have "\<forall>n \<in> H. handed x n \<le> length (Sent (nodes (cluster x) n))"
    using carried_over_holds [OF assms(1) addresses_inj_on [OF assms(2)] assms(3)] by (simp add: carried_over_def)
  from all_handed [OF H this, of cc cm] obtain y where y: "(carry_step cc cm H)\<^sup>*\<^sup>* x y" "cluster y = cluster x"
    "\<forall>n \<in> H. handed y n = length (Sent (nodes (cluster x) n))" by blast
  obtain s where s: "(good_step cc consensus_fwd (consensus_ends cm))\<^sup>*\<^sup>* (net y) s" "net_idle cc consensus_fwd (consensus_ends cm) s"
    using good_reaches_idle [of "consensus_ends cm" cc consensus_fwd "net y"] fin by blast
  from good_carries [OF s(1), of H] obtain z where z: "(carry_step cc cm H)\<^sup>*\<^sup>* y z" "net z = s" "handed z = handed y" "carried_on y z"
    by blast
  moreover have "carried_on x z" "\<forall>n \<in> H. handed z n = length (Sent (nodes (cluster z) n))"
    using y z by (simp_all add: carried_on_def)
  ultimately show ?thesis using y(1) s(2) by (intro exI [of _ z]) (auto intro: rtranclp_trans)
qed

lemma system_brings:
  assumes "gob_ok (consensus_codec decode)" and "H \<subseteq> members cm" and "addresses_ok Addr cm"
    and "system_undisturbed E (consensus_codec decode) cm H ps sg st txs x"
  shows "\<exists>y. (carry_step (consensus_codec decode) cm H)\<^sup>*\<^sup>* x y \<and>
    (\<forall>n \<in> H. \<forall>k \<in> H. Sent (nodes (cluster y) n) = Sent (nodes (cluster x) n) \<and>
      came_from (Committee_Address cm n) (recvCh (ends (net y) (Committee_Address cm k))) =
        map Msg (filter (\<lambda>nm. Committee_Address cm k \<in> set (Address nm)) (Sent (nodes (cluster x) n))) \<and>
      snd ` set (recvCh (ends (net y) (Committee_Address cm k))) \<subseteq> set (taken (cluster y) k) \<union> set (RecvCh (nodes (cluster y) k)))"
proof -
  obtain y where y: "(carry_step (consensus_codec decode) cm H)\<^sup>*\<^sup>* x y" "carried_on x y"
    "net_idle (consensus_codec decode) consensus_fwd (consensus_ends cm) (net y)"
    "\<forall>n \<in> H. handed y n = length (Sent (nodes (cluster y) n))"
    using system_comes_to_rest [OF assms(2-4)] by blast
  note u = undisturbed_carries [OF assms(4) y(1)]
  have "\<forall>k \<in> H. snd ` set (recvCh (node_end cm y k)) \<subseteq> known (cluster y) k"
    using carried_over_holds [OF assms(2) addresses_inj_on [OF assms(3)] u] by (simp add: carried_over_def)
  moreover note system_at_rest [OF assms(1-3) u y(3)] y(4)
  ultimately show ?thesis using y(1,2) by (intro exI [of _ y]) (simp add: carried_on_def known_def)
qed

section \<open>A concrete system\<close>

text \<open>Three correct members of four; the fourth sends nothing.\<close>

abbreviation sample_codec :: "message Codec" where
  "sample_codec \<equiv> consensus_codec (\<lambda>_ m. Inr m)"

definition sample_system :: System where
  "sample_system = system_init sample_env committee4 (\<lambda>_. DefaultParameters) (\<lambda>_. sample_sig) (\<lambda>_. sample_store)
     (\<lambda>_. sample_pool)"

abbreviation sample_undisturbed :: "System \<Rightarrow> bool" where
  "sample_undisturbed \<equiv> system_undisturbed sample_env sample_codec committee4 {0, 1, 2} (\<lambda>_. DefaultParameters)
     (\<lambda>_. sample_sig) (\<lambda>_. sample_store) (\<lambda>_. sample_pool)"

lemma committee4_addresses: "addresses_ok Addr committee4"
proof -
  have "distinct (map (Addr \<circ> snd) (Authorities committee4))" by (simp add: committee4_def upt_rec)
  then show ?thesis by (simp add: addresses_ok_def)
qed

lemma sample_system_ok:
  "gob_ok sample_codec" "{0, 1, 2} \<subseteq> members committee4" "addresses_ok Addr committee4" "sample_undisturbed sample_system"
  by (simp_all add: gob_ok_def consensus_codec_def committee4_addresses system_undisturbed_def sample_system_def)

lemma sample_system_sent:
  "nodes (cluster sample_system) 0 = sample_node" "Committee_Address committee4 1 \<in> set (Committee_BroadCast committee4 0)"
  by (simp_all add: sample_system_def system_init_def cluster_init_def sample_node_init
      Committee_Address_def Committee_BroadCast_eq lookup_authority_def committee4_def upt_rec zero_Authority_def)

section \<open>Properties\<close>

text \<open>
  C2. The nodes over the transport as it is programmed refine the cluster with an arbitrary
  network: whatever fails and however all goroutines interleave, the states of the correct members
  are those of a run of the cluster, in which nothing is delivered in the name of a correct member
  that this member did not send. So all that holds in the cluster holds in the system.
\<close>

theorem system_refines_cluster:
  assumes "gob_ok (consensus_codec decode)" and "H \<subseteq> members cm"
    and "system_reachable E (consensus_codec decode) cm H ps sg st txs x"
  shows "cluster_reachable E cm H ps sg st txs (cluster x)"
  using system_refines [OF assms] by blast

text \<open>
  C4. What a correct member sends reaches the correct members it is meant for. In a run without
  failures of the network, with different addresses of the members and whatever faulty members
  send, the transport alone leads to a state in which the channel of every correct member has got
  from every correct member exactly the messages sent to its address so far, in order and once
  each; all of them are taken by its main loop or are waiting for it.
\<close>

theorem system_delivers:
  assumes "gob_ok (consensus_codec decode)" and "H \<subseteq> members cm" and "addresses_ok Addr cm"
    and "system_undisturbed E (consensus_codec decode) cm H ps sg st txs x"
  shows "\<exists>y. (carry_step (consensus_codec decode) cm H)\<^sup>*\<^sup>* x y \<and>
    (\<forall>n \<in> H. \<forall>k \<in> H. Sent (nodes (cluster y) n) = Sent (nodes (cluster x) n) \<and>
      came_from (Committee_Address cm n) (recvCh (ends (net y) (Committee_Address cm k))) =
        map Msg (filter (\<lambda>nm. Committee_Address cm k \<in> set (Address nm)) (Sent (nodes (cluster x) n))) \<and>
      snd ` set (recvCh (ends (net y) (Committee_Address cm k))) \<subseteq> set (taken (cluster y) k) \<union> set (RecvCh (nodes (cluster y) k)))"
  by (rule system_brings [OF assms])

theorem system_delivers_witness:
  "\<exists>y. (carry_step sample_codec committee4 {0, 1, 2})\<^sup>*\<^sup>* sample_system y \<and>
    MProposal sample_first \<in> set (taken (cluster y) 1) \<union> set (RecvCh (nodes (cluster y) 1))"
proof -
  obtain y where y: "(carry_step sample_codec committee4 {0, 1, 2})\<^sup>*\<^sup>* sample_system y"
    "came_from (Committee_Address committee4 0) (recvCh (node_end committee4 y 1)) =
      map Msg (filter (\<lambda>nm. Committee_Address committee4 1 \<in> set (Address nm)) (Sent (nodes (cluster sample_system) 0)))"
    "snd ` set (recvCh (node_end committee4 y 1)) \<subseteq> set (taken (cluster y) 1) \<union> set (RecvCh (nodes (cluster y) 1))"
    using system_delivers [OF sample_system_ok] by auto
  have "MProposal sample_first \<in> set (came_from (Committee_Address committee4 0) (recvCh (node_end committee4 y 1)))"
    unfolding y(2) using sample_system_sent by (simp add: Transmitor_Send_def)
  then have "MProposal sample_first \<in> snd ` set (recvCh (node_end committee4 y 1))" by (auto simp: came_from_def)
  with y(1,3) show ?thesis by blast
qed

theorem system_refines_cluster_witness:
  "\<exists>x. sample_undisturbed x \<and> carried_on sample_system x \<and> MProposal sample_first \<in> set (messages (nodes (cluster x) 0)) \<and>
    net_idle sample_codec consensus_fwd (consensus_ends committee4) (net x) \<and> sample_cluster_reachable (cluster x)"
proof -
  obtain y where y: "(carry_step sample_codec committee4 {0, 1, 2})\<^sup>*\<^sup>* sample_system y" "carried_on sample_system y"
    "net_idle sample_codec consensus_fwd (consensus_ends committee4) (net y)"
    using system_comes_to_rest [OF sample_system_ok(2-4)] by blast
  note u = undisturbed_carries [OF sample_system_ok(4) y(1)]
  have "MProposal sample_first \<in> set (messages (nodes (cluster y) 0))"
    using y(2) sample_system_sent(1) by (simp add: carried_on_def Transmitor_Send_def)
  moreover note system_refines_cluster [OF sample_system_ok(1,2) undisturbed_system [OF u]]
  ultimately show ?thesis using u y(2,3) by blast
qed

end
