(* ===== verification/Disagreement.thy ===== *)
theory Disagreement
  imports Cluster
begin

text \<open>
  Two gaps of \<^verbatim>\<open>core.go\<close> together: a single Halt message of any member ends an epoch
  (\<^verbatim>\<open>handleHalt\<close>), and in an ended epoch the first-phase proposal of the leader it names is
  committed as it is (\<^verbatim>\<open>handleSpbProposal\<close>). One faulty member of four makes two correct members
  commit different blocks.
\<close>

section \<open>A Halt for an incomplete block\<close>

lemma missing_payload:
  assumes "\<not> list_all (readable E (mStore m)) (cbPayLoads b)"
  obtains s st where "HandleVerifyMsg E m (cbProposer b) (cbEpoch b) (cbPayLoads b) (ConsensusBlock_Hash E b) = (m\<lparr>mSync := s\<rparr>, st)"
    and "st \<noteq> OK"
proof -
  have "snd (HandleVerifyMsg E m (cbProposer b) (cbEpoch b) (cbPayLoads b) (ConsensusBlock_Hash E b)) \<noteq> OK"
    using assms ps.check_ok [of E m "cbProposer b" "cbEpoch b" "cbPayLoads b"] by (simp add: list_all_iff)
  moreover obtain s st where "Synchronizer_Verify E (mStore m) (mSync m) (cbProposer b) (cbEpoch b) (cbPayLoads b)
      (ConsensusBlock_Hash E b) = (s, st)" by fastforce
  ultimately show thesis by (intro that [of s st]) (simp_all add: HandleVerifyMsg_def)
qed

text \<open>A proposal with a missing payload is stored, and waits.\<close>

lemma proposal_waits:
  assumes "message_Verify E (cCommittee c) (MProposal p) = Ret True" and "pPhase p = SPB_ONE_PHASE"
    and "pB p = Some b" and "pEpoch p \<notin> HaltFlags c" and "Epoch c \<le> pEpoch p"
    and "storeConsensusBlock E c b = (c1, None)" and "\<not> list_all (readable E (mStore (cMempool c1))) (cbPayLoads b)"
  shows "\<exists>s. Core_dispatch E c (MProposal p) = Ret (c1\<lparr>cMempool := (cMempool c1)\<lparr>mSync := s\<rparr>\<rparr>, None)"
proof -
  obtain s st where "HandleVerifyMsg E (cMempool c1) (cbProposer b) (cbEpoch b) (cbPayLoads b) (ConsensusBlock_Hash E b) =
      ((cMempool c1)\<lparr>mSync := s\<rparr>, st)" "st \<noteq> OK" by (rule missing_payload [OF assms(7)])
  with assms(1-6) show ?thesis
    by (auto simp: Core_dispatch_def handleSpbProposal_def commit_halted_def messgaeFilter_def
        verifyConsensusBlock_def simp del: message_Verify.simps)
qed

text \<open>A Halt for such a block ends the epoch without a commit.\<close>

lemma halt_waits:
  assumes "Epoch c \<le> hEpoch h" and "hEpoch h \<notin> HaltFlags c" and "getConsensusBlock E c (hBlockHash h) = Inr (Some b)"
    and "message_Verify E (cCommittee c) (MHalt h) = Ret True" and "i64 (hEpoch h + 1) = hEpoch h + 1"
    and "\<not> list_all (readable E (mStore (cMempool c))) (cbPayLoads b)"
  shows "\<exists>c' rest. Core_dispatch E c (MHalt h) = Ret (c', None) \<and> HaltFlags c' = insert (hEpoch h) (HaltFlags c) \<and>
    hEpoch h < Epoch c' \<and> RecvCh c' = RecvCh c @ rest \<and> cCommitor c' = cCommitor c \<and> cCommittee c' = cCommittee c \<and>
    get2 (leaders (cElector c')) (hEpoch h) (hRound h) = Some (hLeader h)"
proof -
  let ?c = "c\<lparr>cElector := SetLeader (cElector c) (hEpoch h) (hRound h) (hLeader h)\<rparr>"
  obtain s st where "HandleVerifyMsg E (cMempool c) (cbProposer b) (cbEpoch b) (cbPayLoads b) (ConsensusBlock_Hash E b) =
      ((cMempool c)\<lparr>mSync := s\<rparr>, st)" "st \<noteq> OK" by (rule missing_payload [OF assms(6)])
  moreover have "getConsensusBlock E ?c (hBlockHash h) = Inr (Some b)" using assms(3) by (simp add: getConsensusBlock_def)
  ultimately show ?thesis
    using assms(1,2,4,5)
    by (auto simp: Core_dispatch_def handleHalt_def messgaeFilter_def handleOutput_def verifyConsensusBlock_def advanceNextEpoch_def
        generatorBlock_def propose_def core_broadcast_def core_send_def core_self_def SetLeader_def case_prod_beta
        Let_def simp del: message_Verify.simps)
qed

text \<open>Afterwards a proposal of the leader named by the Halt is committed, whatever its block is.\<close>

lemma late_proposal_commits:
  assumes "pPhase p = SPB_ONE_PHASE" and "pEpoch p \<in> HaltFlags c" and "pEpoch p < Epoch c" and "pB p = Some b"
    and "cbPayLoads b = []" and "get2 (leaders (cElector c)) (pEpoch p) (pRound p) = Some (pAuthor p)"
    and "message_Verify E (cCommittee c) (MProposal p) = Ret True"
  shows "\<exists>c'. Core_dispatch E c (MProposal p) = Ret (c', None) \<and> cCommitor c' = Committor_Commit (cCommitor c) b"
proof -
  obtain el where "Leader (cElector c) (pEpoch p) (pRound p) = (el, pAuthor p)"
    using assms(6) by (auto simp: Leader_def Let_def get2_def init2_def split: option.splits)
  moreover obtain m where "HandleVerifyMsg E (cMempool c) (cbProposer b) (cbEpoch b) (cbPayLoads b) (ConsensusBlock_Hash E b) = (m, OK)"
    using ps.check_ok [of E "cMempool c" "cbProposer b" "cbEpoch b" "cbPayLoads b"] assms(5) by (metis empty_iff list.set(1) prod.collapse)
  ultimately show ?thesis
    using assms
    by (simp add: Core_dispatch_def handleSpbProposal_def commit_halted_def core_Leader_def verifyConsensusBlock_def
        messgaeFilter_def core_commit_def del: message_Verify.simps)
qed

section \<open>Two members\<close>

abbreviation split_reachable :: "Cluster \<Rightarrow> bool" where
  "split_reachable \<equiv> cluster_reachable sample_env committee4 {0, 2, 3} (\<lambda>_. DefaultParameters)
     (\<lambda>_. sample_sig) (\<lambda>_. sample_store) (\<lambda>_. sample_pool)"

definition offered :: "NodeID \<Rightarrow> ConsensusBlock" where
  "offered n = NewConsensusBlock n [] 0"

text \<open>
  What the faulty member 1 sends: to both members the proposal \<^const>\<open>sample_offer\<close>, whose payload it
  keeps back, and a Halt for it, then to each another proposal.
\<close>

definition lone_halt :: Halt where
  "lone_halt = projr (NewHalt sample_env 1 1 (ConsensusBlock_Hash sample_env sample_paid) 0 0 sample_sig)"

definition lone_offer :: "NodeID \<Rightarrow> SPBProposal" where
  "lone_offer n = projr (NewSPBProposal sample_env 1 (Some (offered n)) 0 0 SPB_ONE_PHASE sample_sig)"

lemma lone_simps [simp]:
  "hEpoch lone_halt = 0" "hRound lone_halt = 0" "hLeader lone_halt = 1" "hBlockHash lone_halt = ConsensusBlock_Hash sample_env sample_paid" "hAuthor lone_halt = 1"
  "pEpoch (lone_offer n) = 0" "pRound (lone_offer n) = 0" "pPhase (lone_offer n) = SPB_ONE_PHASE"
  "pB (lone_offer n) = Some (offered n)" "pAuthor (lone_offer n) = 1" "cbPayLoads (offered n) = []" "cbEpoch (offered n) = 0"
  by (simp_all add: lone_halt_def lone_offer_def offered_def NewConsensusBlock_def)

lemma lone_verify:
  "message_Verify sample_env committee4 (MHalt lone_halt) = Ret True"
  "message_Verify sample_env committee4 (MProposal (lone_offer n)) = Ret True"
  by (rule sample_verifies; simp add: lone_halt_def lone_offer_def)+

lemma member_makes:
  assumes "n \<noteq> 1"
  shows "fst (snd (HandleMakeBlockMsg sample_env (NewMempool n committee4 DefaultParameters sample_sig sample_store sample_pool) k)) = []"
    and "mStore (fst (HandleMakeBlockMsg sample_env (NewMempool n committee4 DefaultParameters sample_sig sample_store sample_pool) k)) = sample_store"
  using assms
  by (simp_all add: HandleMakeBlockMsg_def NewMempool_def payloadProcess_def StoreBlock_def
      Block_Encode_def sample_env_def sample_block_def NewBlock_def RequestSignature_def queue_full_def
      case_prod_beta Let_def DefaultParameters_def)


text \<open>
  How the members 2 and 3 start. The concrete encoder does not know their first blocks, so their
  own proposals leave no trace.
\<close>

definition own_first :: "NodeID \<Rightarrow> SPBProposal" where
  "own_first n = projr (NewSPBProposal sample_env n (Some (offered n)) 0 0 SPB_ONE_PHASE sample_sig)"

lemma own_first_simps [simp]:
  "pEpoch (own_first n) = 0" "pPhase (own_first n) = SPB_ONE_PHASE" "pB (own_first n) = Some (offered n)"
  by (simp_all add: own_first_def)

lemma member_started:
  assumes "1 < n"
  shows "RecvCh (nodes sample_cluster n) = [MProposal (own_first n)]" "HaltFlags (nodes sample_cluster n) = {}"
    "Epoch (nodes sample_cluster n) = 0" "cCommitor (nodes sample_cluster n) = NewCommittor"
    "cCommittee (nodes sample_cluster n) = committee4" "mStore (cMempool (nodes sample_cluster n)) = sample_store"
  using assms member_makes [of n]
  by (simp_all add: sample_cluster_def cluster_init_def Core_start_def NewCore_def propose_def core_broadcast_def
      core_send_def core_self_def generatorBlock_def DefaultParameters_def own_first_def offered_def case_prod_beta Let_def)

lemma own_first_dropped:
  assumes "n \<in> {2, 3}" and "cCommittee c = committee4" and "HaltFlags c = {}" and "Epoch c = 0"
  shows "\<exists>e. Core_dispatch sample_env c (MProposal (own_first n)) = Ret (c, Some e)"
proof -
  have "offered n \<noteq> sample_cb" "offered n \<noteq> sample_paid"
    using assms(1) by (auto simp: offered_def sample_cb_def sample_paid_def NewConsensusBlock_def)
  then have "ConsensusBlock_Encode sample_env (offered n) = Inl (ErrExternal ''gob'')"
    by (simp add: ConsensusBlock_Encode_def sample_env_def)
  moreover have "message_Verify sample_env committee4 (MProposal (own_first n)) = Ret True"
    by (rule sample_verifies) (use assms(1) in \<open>auto simp: own_first_def\<close>)
  ultimately show ?thesis
    using assms(2-4)
    by (simp add: Core_dispatch_def handleSpbProposal_def commit_halted_def messgaeFilter_def storeConsensusBlock_def
        del: message_Verify.simps)
qed

text \<open>The proposal \<^const>\<open>sample_offer\<close> arrives without its payload.\<close>

lemma sample_paid_waits:
  assumes "cCommittee c = committee4" and "HaltFlags c = {}" and "Epoch c = 0" and "mStore (cMempool c) = sample_store"
  shows "\<exists>m. Core_dispatch sample_env c (MProposal sample_offer) = Ret (c\<lparr>cMempool := m\<rparr>, None) \<and>
    getConsensusBlock sample_env (c\<lparr>cMempool := m\<rparr>) (ConsensusBlock_Hash sample_env sample_paid) = Inr (Some sample_paid) \<and>
    \<not> list_all (readable sample_env (mStore m)) (cbPayLoads sample_paid)"
proof -
  obtain c1 where c1: "storeConsensusBlock sample_env c sample_paid = (c1, None)"
    using sample_store_cb(2) [of c] by (metis prod.collapse)
  obtain v st where st: "Store_Write sample_env sample_store (ConsensusBlock_Hash sample_env sample_paid) v = (st, None)"
    and c1': "c1 = c\<lparr>cMempool := (cMempool c)\<lparr>mStore := st\<rparr>\<rparr>"
    using c1 assms(4) by (auto simp: storeConsensusBlock_def Let_def split: sum.splits prod.splits)
  have "isl (Store_Read sample_env sample_store (Block_Hash sample_env sample_block))"
    "Block_Hash sample_env sample_block \<noteq> ConsensusBlock_Hash sample_env sample_paid" by code_simp+
  then have missing: "\<not> list_all (readable sample_env st) (cbPayLoads sample_paid)"
    using readable_Write [OF sample_store_ok, of "ConsensusBlock_Hash sample_env sample_paid" v "Block_Hash sample_env sample_block"]
    by (simp add: st readable_def)
  have "message_Verify sample_env (cCommittee c) (MProposal sample_offer) = Ret True"
    unfolding assms(1) by (rule sample_verifies) (simp_all add: sample_offer_def)
  from proposal_waits [OF this _ _ _ _ c1] assms(2,3) missing obtain s where
    "Core_dispatch sample_env c (MProposal sample_offer) = Ret (c1\<lparr>cMempool := (cMempool c1)\<lparr>mSync := s\<rparr>\<rparr>, None)"
    by (auto simp: c1')
  moreover have "getConsensusBlock sample_env c1 (ConsensusBlock_Hash sample_env sample_paid) = Inr (Some sample_paid)"
    using sample_store_ok assms(4) by (intro getConsensusBlock_stored [OF _ sample_env_ok(3) c1]) simp
  ultimately show ?thesis
    using missing by (intro exI [of _ "(cMempool c)\<lparr>mStore := st, mSync := s\<rparr>"]) (simp add: c1' getConsensusBlock_def)
qed

lemma commits_one: "cbEpoch b = 0 \<Longrightarrow> commitCh (Committor_Commit NewCommittor b) = [b]"
  by (simp add: Committor_Commit_def NewCommittor_def commit_loop.simps commit_next_def i64_def)

text \<open>What a member does with the messages of the faulty one after its own proposal.\<close>

abbreviation lone_messages :: "NodeID \<Rightarrow> message list" where
  "lone_messages n \<equiv> [MProposal sample_offer, MHalt lone_halt, MProposal (lone_offer n)]"

lemma member_misled:
  assumes "n \<in> {2, 3}"
  obtains m e c2 c3 rest where
    "Core_dispatch sample_env ((nodes sample_cluster n)\<lparr>RecvCh := lone_messages n\<rparr>) (MProposal (own_first n)) =
      Ret ((nodes sample_cluster n)\<lparr>RecvCh := lone_messages n\<rparr>, Some e)"
    and "Core_dispatch sample_env ((nodes sample_cluster n)\<lparr>RecvCh := tl (lone_messages n)\<rparr>) (MProposal sample_offer) =
      Ret ((nodes sample_cluster n)\<lparr>RecvCh := tl (lone_messages n), cMempool := m\<rparr>, None)"
    and "Core_dispatch sample_env ((nodes sample_cluster n)\<lparr>cMempool := m, RecvCh := [MProposal (lone_offer n)]\<rparr>) (MHalt lone_halt) =
      Ret (c2, None)"
    and "RecvCh c2 = MProposal (lone_offer n) # rest"
    and "Core_dispatch sample_env (c2\<lparr>RecvCh := rest\<rparr>) (MProposal (lone_offer n)) = Ret (c3, None)"
    and "commitCh (cCommitor c3) = [offered n]"
proof -
  have "1 < n" using assms by auto
  note start = member_started [OF this]
  let ?c = "nodes sample_cluster n"
  obtain e where e: "Core_dispatch sample_env (?c\<lparr>RecvCh := lone_messages n\<rparr>) (MProposal (own_first n)) =
      Ret (?c\<lparr>RecvCh := lone_messages n\<rparr>, Some e)"
    using own_first_dropped [OF assms, of "?c\<lparr>RecvCh := lone_messages n\<rparr>"] start by auto
  obtain m where m: "Core_dispatch sample_env (?c\<lparr>RecvCh := tl (lone_messages n)\<rparr>) (MProposal sample_offer) =
      Ret (?c\<lparr>RecvCh := tl (lone_messages n), cMempool := m\<rparr>, None)"
    "getConsensusBlock sample_env (?c\<lparr>RecvCh := tl (lone_messages n), cMempool := m\<rparr>) (ConsensusBlock_Hash sample_env sample_paid) =
      Inr (Some sample_paid)" "\<not> list_all (readable sample_env (mStore m)) (cbPayLoads sample_paid)"
    using sample_paid_waits [of "?c\<lparr>RecvCh := tl (lone_messages n)\<rparr>"] start by auto
  let ?c1 = "?c\<lparr>cMempool := m, RecvCh := [MProposal (lone_offer n)]\<rparr>"
  have v: "message_Verify sample_env (cCommittee ?c1) (MHalt lone_halt) = Ret True"
    using lone_verify(1) start(5) by (simp del: message_Verify.simps)
  have "getConsensusBlock sample_env ?c1 (hBlockHash lone_halt) = Inr (Some sample_paid)"
    using m(2) by (simp add: getConsensusBlock_def)
  from halt_waits [OF _ _ this v] start m(3) obtain c2 rest where
    c2: "Core_dispatch sample_env ?c1 (MHalt lone_halt) = Ret (c2, None)" "HaltFlags c2 = {0}" "0 < Epoch c2"
      "RecvCh c2 = MProposal (lone_offer n) # rest" "cCommitor c2 = NewCommittor" "cCommittee c2 = committee4"
      "get2 (leaders (cElector c2)) 0 0 = Some 1"
    by (auto simp: i64_def)
  have "message_Verify sample_env (cCommittee (c2\<lparr>RecvCh := rest\<rparr>)) (MProposal (lone_offer n)) = Ret True"
    using lone_verify(2) c2(6) by (simp del: message_Verify.simps)
  from late_proposal_commits [OF _ _ _ _ _ _ this, of "offered n"] c2 obtain c3 where
    c3: "Core_dispatch sample_env (c2\<lparr>RecvCh := rest\<rparr>) (MProposal (lone_offer n)) = Ret (c3, None)"
    "cCommitor c3 = Committor_Commit NewCommittor (offered n)" by auto
  show thesis by (rule that [OF e m(1) c2(1,4) c3(1)]) (simp add: c3(2) commits_one)
qed

section \<open>The cluster\<close>

lemma cluster_takes:
  assumes "cluster_reachable E cm H ps sg st txs g" and "n \<in> H" and "RecvCh (nodes g n) = m # rest"
    and "Core_dispatch E ((nodes g n)\<lparr>RecvCh := rest\<rparr>) m = Ret (c', x)"
  shows "\<exists>g'. cluster_reachable E cm H ps sg st txs g' \<and> nodes g' = (nodes g)(n := c')"
  using cluster_next [OF assms(1) cluster_step.take_message [OF assms(2-4)]] by fastforce

lemma cluster_delivers:
  assumes "cluster_reachable E cm H ps sg st txs g" and "n \<in> H" and "\<forall>m \<in> set ms. message_author m \<notin> H"
  shows "\<exists>g'. cluster_reachable E cm H ps sg st txs g' \<and> nodes g' = (nodes g)(n := (nodes g n)\<lparr>RecvCh := RecvCh (nodes g n) @ ms\<rparr>)"
  using assms(1,3)
proof (induction ms arbitrary: g)
  case Nil
  then show ?case by (intro exI [of _ g]) simp
next
  case (Cons m ms)
  let ?g = "g\<lparr>nodes := (nodes g)(n := core_self (nodes g n) m)\<rparr>"
  have "cluster_reachable E cm H ps sg st txs ?g"
    using Cons.prems by (intro cluster_next [OF Cons.prems(1)] cluster_step.deliver assms(2)) (simp add: genuine_def)
  from Cons.IH [OF this] Cons.prems(2) show ?case by (auto simp: core_self_def fun_eq_iff split: if_splits)
qed

lemma member_commits:
  assumes "split_reachable g" and "n \<in> {2, 3}" and "nodes g n = nodes sample_cluster n"
  shows "\<exists>g'. split_reachable g' \<and> (\<forall>k. k \<noteq> n \<longrightarrow> nodes g' k = nodes g k) \<and> commitCh (cCommitor (nodes g' n)) = [offered n]"
proof -
  let ?c = "nodes sample_cluster n"
  have n: "n \<in> {0, 2, 3}" using assms(2) by auto
  obtain m e c2 c3 rest where d:
    "Core_dispatch sample_env (?c\<lparr>RecvCh := lone_messages n\<rparr>) (MProposal (own_first n)) =
      Ret (?c\<lparr>RecvCh := lone_messages n\<rparr>, Some e)"
    "Core_dispatch sample_env (?c\<lparr>RecvCh := tl (lone_messages n)\<rparr>) (MProposal sample_offer) =
      Ret (?c\<lparr>RecvCh := tl (lone_messages n), cMempool := m\<rparr>, None)"
    "Core_dispatch sample_env (?c\<lparr>cMempool := m, RecvCh := [MProposal (lone_offer n)]\<rparr>) (MHalt lone_halt) = Ret (c2, None)"
    "RecvCh c2 = MProposal (lone_offer n) # rest"
    "Core_dispatch sample_env (c2\<lparr>RecvCh := rest\<rparr>) (MProposal (lone_offer n)) = Ret (c3, None)"
    "commitCh (cCommitor c3) = [offered n]" by (rule member_misled [OF assms(2)])
  have "RecvCh ?c = [MProposal (own_first n)]" using member_started(1) [of n] assms(2) by auto
  then obtain g1 where g1: "split_reachable g1" "nodes g1 = (nodes g)(n := ?c\<lparr>RecvCh := MProposal (own_first n) # lone_messages n\<rparr>)"
    using cluster_delivers [OF assms(1) n, of "lone_messages n"] assms(3) by auto
  obtain g2 where g2: "split_reachable g2" "nodes g2 = (nodes g)(n := ?c\<lparr>RecvCh := lone_messages n\<rparr>)"
    using cluster_takes [OF g1(1) n, of "MProposal (own_first n)" "lone_messages n"] d(1) by (auto simp: g1(2))
  obtain g3 where g3: "split_reachable g3" "nodes g3 = (nodes g)(n := ?c\<lparr>RecvCh := tl (lone_messages n), cMempool := m\<rparr>)"
    using cluster_takes [OF g2(1) n, of "MProposal sample_offer" "tl (lone_messages n)"] d(2) by (auto simp: g2(2))
  obtain g4 where g4: "split_reachable g4" "nodes g4 = (nodes g)(n := c2)"
    using cluster_takes [OF g3(1) n, of "MHalt lone_halt" "[MProposal (lone_offer n)]"] d(3) by (auto simp: g3(2))
  obtain g5 where "split_reachable g5" "nodes g5 = (nodes g)(n := c3)"
    using cluster_takes [OF g4(1) n, of "MProposal (lone_offer n)" rest] d(4,5) by (auto simp: g4(2))
  with d(6) show ?thesis by (intro exI [of _ g5]) simp
qed

section \<open>Properties\<close>

text \<open>
  C13. Committed blocks need not agree. In a committee of four with one faulty member, which the
  thresholds tolerate, two correct members reach a state in which they have committed different
  blocks of the same epoch. The faulty member sends one Halt message, and then different proposals
  to the two.
\<close>

theorem commits_may_differ:
  "\<exists>g b c. cluster_reachable sample_env committee4 {0, 2, 3} (\<lambda>_. DefaultParameters) (\<lambda>_. sample_sig)
      (\<lambda>_. sample_store) (\<lambda>_. sample_pool) g \<and>
    int (card (members committee4 - {0, 2, 3})) \<le> fault_bound committee4 \<and>
    commitCh (cCommitor (nodes g 2)) = [b] \<and> commitCh (cCommitor (nodes g 3)) = [c] \<and> cbEpoch b = cbEpoch c \<and> b \<noteq> c"
proof -
  have "split_reachable sample_cluster" by (simp add: cluster_reachable_def sample_cluster_def)
  from member_commits [OF this, of 2] obtain g where g: "split_reachable g" "nodes g 3 = nodes sample_cluster 3"
    "commitCh (cCommitor (nodes g 2)) = [offered 2]" by auto
  from member_commits [OF this(1), of 3] g(2,3) obtain g' where "split_reachable g'"
    "commitCh (cCommitor (nodes g' 2)) = [offered 2]" "commitCh (cCommitor (nodes g' 3)) = [offered 3]" by auto
  moreover have "members committee4 - {0, 2, 3} = {1}" by auto
  moreover have "offered 2 \<noteq> offered 3" by (simp add: offered_def NewConsensusBlock_def)
  ultimately show ?thesis
    by (intro exI [of _ g'] exI [of _ "offered 2"] exI [of _ "offered 3"]) simp
qed

end
