(* ===== verification/Equivocation.thy ===== *)
theory Equivocation
  imports Disagreement
begin

text \<open>
  A gap of \<^verbatim>\<open>core.go\<close>: nothing checks that the round of a prevote or final vote is not negative,
  and \<^verbatim>\<open>advanceNextRound\<close> goes from round -1 to round 0, for which every node has already made a
  proposal when it entered the epoch. One faulty member of four makes a correct member propose
  twice.
\<close>

section \<open>Votes for round -1\<close>

definition early_prevote :: Prevote where
  "early_prevote = projr (NewPrevote sample_env 1 1 0 (- 1) VOTE_FLAG_YES (ConsensusBlock_Hash sample_env sample_paid) sample_sig)"

definition early_finvote :: "NodeID \<Rightarrow> int \<Rightarrow> FinVote" where
  "early_finvote a flag = projr (NewFinVote sample_env a 1 0 (- 1) flag (ConsensusBlock_Hash sample_env sample_paid) sample_sig)"

lemma early_simps [simp]:
  "pvAuthor early_prevote = 1" "pvLeader early_prevote = 1" "pvEpoch early_prevote = 0" "pvRound early_prevote = - 1"
  "pvFlag early_prevote = VOTE_FLAG_YES" "pvBlockHash early_prevote = ConsensusBlock_Hash sample_env sample_paid"
  "fvAuthor (early_finvote a fl) = a" "fvEpoch (early_finvote a fl) = 0" "fvRound (early_finvote a fl) = - 1"
  "fvFlag (early_finvote a fl) = fl" "fvBlockHash (early_finvote a fl) = ConsensusBlock_Hash sample_env sample_paid"
  by (simp_all add: early_prevote_def early_finvote_def)

lemma early_verify:
  "message_Verify sample_env committee4 (MPrevote early_prevote) = Ret True"
  "a \<in> {0, 1, 2, 3} \<Longrightarrow> message_Verify sample_env committee4 (MFinVote (early_finvote a fl)) = Ret True"
  by (rule sample_verifies; simp add: early_prevote_def early_finvote_def)+

text \<open>A single YES prevote makes a node vote YES.\<close>

lemma early_prevote_taken:
  assumes "cCommittee c = committee4" and "Epoch c = 0" and "cAggreator c = NewAggreator committee4"
    and "cName c = n" and "cSigService c = sample_sig"
  shows "\<exists>ag. Core_dispatch sample_env c (MPrevote early_prevote) =
      Ret (core_broadcast (c\<lparr>cAggreator := ag\<rparr>) (MFinVote (early_finvote n VOTE_FLAG_YES)), None) \<and>
    finvoteAggreator ag = Map.empty \<and> aCommittee ag = committee4"
proof -
  obtain ag where "AddPreVote (NewAggreator committee4) early_prevote = (ag, Inr ACTION_YES)"
    "finvoteAggreator ag = Map.empty" "aCommittee ag = committee4"
    by (simp add: AddPreVote_def NewAggreator_def counter_at_def PreVoteAggreator_Append_def NewPrevoteAggreator_def)
  then show ?thesis
    using assms early_verify(1)
    by (intro exI [of _ ag]) (simp add: Core_dispatch_def handlePrevote_def messgaeFilter_def early_finvote_def del: message_Verify.simps)
qed

text \<open>The final votes at a node: the first two are counted, the third takes it to round 0.\<close>

definition early_count :: "Core \<Rightarrow> FinVoteAggreator \<Rightarrow> bool" where
  "early_count c f \<longleftrightarrow> cCommittee c = committee4 \<and> Epoch c = 0 \<and> aCommittee (cAggreator c) = committee4 \<and>
     counter_at (finvoteAggreator (cAggreator c)) NewFinVoteAggreator 0 (- 1) = f"

lemma early_counted:
  assumes "early_count c f" and "FinVoteAggreator_Append committee4 f (early_finvote a fl) = (f', Inr ACTION_NONE)"
    and "a \<in> {0, 1, 2, 3}"
  shows "\<exists>ag. Core_dispatch sample_env c (MFinVote (early_finvote a fl)) = Ret (c\<lparr>cAggreator := ag\<rparr>, None) \<and>
    early_count (c\<lparr>cAggreator := ag\<rparr>) f'"
proof -
  obtain ag where "AddFinVote (cAggreator c) (early_finvote a fl) = (ag, Inr ACTION_NONE)"
    "early_count (c\<lparr>cAggreator := ag\<rparr>) f'"
    using assms(1,2) by (simp add: AddFinVote_def early_count_def counter_at_def)
  then show ?thesis
    using assms(1) early_verify(2) [OF assms(3), of fl]
    by (intro exI [of _ ag]) (simp add: Core_dispatch_def handleFinvote_def messgaeFilter_def early_count_def del: message_Verify.simps)
qed

lemma early_decided:
  assumes "early_count c f" and "FinVoteAggreator_Append committee4 f (early_finvote a fl) = (f', Inr ACTION_YES)"
    and "a \<in> {0, 1, 2, 3}"
    and "getConsensusBlock sample_env c (ConsensusBlock_Hash sample_env sample_paid) = Inr (Some sample_paid)"
  shows "\<exists>ag. Core_dispatch sample_env c (MFinVote (early_finvote a fl)) =
    Ret (propose sample_env (c\<lparr>cAggreator := ag\<rparr>) sample_paid 0 0, None)"
proof -
  obtain ag where "AddFinVote (cAggreator c) (early_finvote a fl) = (ag, Inr ACTION_YES)"
    using assms(1,2) by (simp add: AddFinVote_def early_count_def)
  moreover have "getConsensusBlock sample_env (c\<lparr>cAggreator := ag\<rparr>) (ConsensusBlock_Hash sample_env sample_paid) = Inr (Some sample_paid)"
    using assms(4) by (simp add: getConsensusBlock_def)
  ultimately show ?thesis
    using assms(1) early_verify(2) [OF assms(3), of fl]
    by (intro exI [of _ ag])
      (simp add: Core_dispatch_def handleFinvote_def messgaeFilter_def early_count_def advanceNextRound_def i64_def
        del: message_Verify.simps)
qed

lemma early_appends:
  "\<exists>f g h. FinVoteAggreator_Append committee4 NewFinVoteAggreator (early_finvote 2 VOTE_FLAG_YES) = (f, Inr ACTION_NONE) \<and>
    FinVoteAggreator_Append committee4 f (early_finvote 3 VOTE_FLAG_YES) = (g, Inr ACTION_NONE) \<and>
    FinVoteAggreator_Append committee4 g (early_finvote 1 VOTE_FLAG_NO) = (h, Inr ACTION_YES)"
  by (simp add: FinVoteAggreator_Append_def NewFinVoteAggreator_def)

section \<open>The run\<close>

lemma member_identity:
  assumes "1 < n"
  shows "cName (nodes sample_cluster n) = n" "cSigService (nodes sample_cluster n) = sample_sig"
    "cAggreator (nodes sample_cluster n) = NewAggreator committee4"
    "messages (nodes sample_cluster n) = [MProposal (own_first n)]"
  using assms member_makes [of n]
  by (simp_all add: sample_cluster_def cluster_init_def Core_start_def NewCore_def propose_def core_broadcast_def
      core_send_def core_self_def generatorBlock_def Transmitor_Send_def DefaultParameters_def own_first_def offered_def
      case_prod_beta Let_def)

text \<open>A member votes for round -1 after the prevote of the faulty one.\<close>

lemma early_vote_sent:
  assumes "split_reachable g" and "n \<in> {2, 3}" and "nodes g n = nodes sample_cluster n"
  shows "\<exists>g' m ag. split_reachable g' \<and>
    nodes g' = (nodes g)(n := core_broadcast ((nodes sample_cluster n)\<lparr>cMempool := m, RecvCh := [], cAggreator := ag\<rparr>)
      (MFinVote (early_finvote n VOTE_FLAG_YES))) \<and>
    finvoteAggreator ag = Map.empty \<and> aCommittee ag = committee4 \<and>
    getConsensusBlock sample_env ((nodes sample_cluster n)\<lparr>cMempool := m, RecvCh := []\<rparr>) (ConsensusBlock_Hash sample_env sample_paid) =
      Inr (Some sample_paid)"
proof -
  let ?c = "nodes sample_cluster n" and ?ms = "[MProposal sample_offer, MPrevote early_prevote]"
  have n: "n \<in> {0, 2, 3}" "1 < n" using assms(2) by auto
  note start = member_started [OF n(2)] and me = member_identity [OF n(2)]
  obtain e where e: "Core_dispatch sample_env (?c\<lparr>RecvCh := ?ms\<rparr>) (MProposal (own_first n)) = Ret (?c\<lparr>RecvCh := ?ms\<rparr>, Some e)"
    using own_first_dropped [OF assms(2), of "?c\<lparr>RecvCh := ?ms\<rparr>"] start by auto
  obtain m where m: "Core_dispatch sample_env (?c\<lparr>RecvCh := tl ?ms\<rparr>) (MProposal sample_offer) =
      Ret (?c\<lparr>RecvCh := tl ?ms, cMempool := m\<rparr>, None)"
    "getConsensusBlock sample_env (?c\<lparr>RecvCh := tl ?ms, cMempool := m\<rparr>) (ConsensusBlock_Hash sample_env sample_paid) =
      Inr (Some sample_paid)"
    using sample_paid_waits [of "?c\<lparr>RecvCh := tl ?ms\<rparr>"] start by auto
  obtain ag where ag: "Core_dispatch sample_env (?c\<lparr>cMempool := m, RecvCh := []\<rparr>) (MPrevote early_prevote) =
      Ret (core_broadcast (?c\<lparr>cMempool := m, RecvCh := [], cAggreator := ag\<rparr>) (MFinVote (early_finvote n VOTE_FLAG_YES)), None)"
    "finvoteAggreator ag = Map.empty" "aCommittee ag = committee4"
    using early_prevote_taken [of "?c\<lparr>cMempool := m, RecvCh := []\<rparr>" n] start me by auto
  obtain g1 where g1: "split_reachable g1" "nodes g1 = (nodes g)(n := ?c\<lparr>RecvCh := MProposal (own_first n) # ?ms\<rparr>)"
    using cluster_delivers [OF assms(1) n(1), of ?ms] assms(3) start(1) by auto
  obtain g2 where g2: "split_reachable g2" "nodes g2 = (nodes g)(n := ?c\<lparr>RecvCh := ?ms\<rparr>)"
    using cluster_takes [OF g1(1) n(1), of "MProposal (own_first n)" ?ms] e by (auto simp: g1(2))
  obtain g3 where g3: "split_reachable g3" "nodes g3 = (nodes g)(n := ?c\<lparr>RecvCh := tl ?ms, cMempool := m\<rparr>)"
    using cluster_takes [OF g2(1) n(1), of "MProposal sample_offer" "tl ?ms"] m(1) by (auto simp: g2(2))
  obtain g4 where "split_reachable g4" "nodes g4 = (nodes g)(n :=
      core_broadcast (?c\<lparr>cMempool := m, RecvCh := [], cAggreator := ag\<rparr>) (MFinVote (early_finvote n VOTE_FLAG_YES)))"
    using cluster_takes [OF g3(1) n(1), of "MPrevote early_prevote" "[]"] ag(1) by (auto simp: g3(2))
  with ag(2,3) m(2) show ?thesis by (intro exI [of _ g4] exI [of _ m] exI [of _ ag]) (simp add: getConsensusBlock_def)
qed

text \<open>The final votes of the other two reach member 2.\<close>

lemma second_proposal_made:
  "\<exists>g. split_reachable g \<and>
    {MProposal (own_first 2), MProposal (projr (NewSPBProposal sample_env 2 (Some sample_paid) 0 0 SPB_ONE_PHASE sample_sig))}
      \<subseteq> set (messages (nodes g 2))"
proof -
  let ?fv = "\<lambda>a fl. MFinVote (early_finvote a fl)" and ?c = "nodes sample_cluster 2"
  let ?ms = "[?fv 2 VOTE_FLAG_YES, ?fv 3 VOTE_FLAG_YES, ?fv 1 VOTE_FLAG_NO]"
  have "split_reachable sample_cluster" by (simp add: cluster_reachable_def sample_cluster_def)
  from early_vote_sent [OF this, of 3] obtain g1 m3 ag3 where g1: "split_reachable g1" "nodes g1 2 = ?c"
    "nodes g1 3 = core_broadcast ((nodes sample_cluster 3)\<lparr>cMempool := m3, RecvCh := [], cAggreator := ag3\<rparr>) (?fv 3 VOTE_FLAG_YES)"
    by auto
  from early_vote_sent [OF g1(1) _ g1(2)] obtain g2 m ag where g2: "split_reachable g2" "nodes g2 3 = nodes g1 3"
    "nodes g2 2 = core_broadcast (?c\<lparr>cMempool := m, RecvCh := [], cAggreator := ag\<rparr>) (?fv 2 VOTE_FLAG_YES)"
    and ag: "finvoteAggreator ag = Map.empty" "aCommittee ag = committee4"
    and get: "getConsensusBlock sample_env (?c\<lparr>cMempool := m, RecvCh := []\<rparr>) (ConsensusBlock_Hash sample_env sample_paid) =
      Inr (Some sample_paid)" by auto
  define b where "b = core_send (?c\<lparr>cMempool := m, RecvCh := [], cAggreator := ag\<rparr>) NONE (?fv 2 VOTE_FLAG_YES)"
  have b: "nodes g2 2 = b\<lparr>RecvCh := [?fv 2 VOTE_FLAG_YES]\<rparr>" "MProposal (own_first 2) \<in> set (messages b)"
    "cSigService b = sample_sig" "cName b = 2" "early_count (b\<lparr>RecvCh := ms\<rparr>) NewFinVoteAggreator"
    "mStore (cMempool b) = mStore m" for ms
    using ag member_started [of 2] member_identity [of 2]
    by (simp_all add: b_def g2(3) core_broadcast_def core_send_def core_self_def early_count_def counter_at_def)
  have get_b: "getConsensusBlock sample_env c (ConsensusBlock_Hash sample_env sample_paid) = Inr (Some sample_paid)"
    if "cMempool c = cMempool b" for c using get that by (simp add: getConsensusBlock_def b(6))
  define g3 where "g3 = g2\<lparr>nodes := (nodes g2)(2 := core_self (nodes g2 2) (?fv 3 VOTE_FLAG_YES))\<rparr>"
  have "?fv 3 VOTE_FLAG_YES \<in> set (messages (nodes g2 3))"
    by (simp add: g2(2) g1(3) core_broadcast_def core_send_def core_self_def Transmitor_Send_def)
  then have "genuine sample_env committee4 {0, 2, 3} g2 (?fv 3 VOTE_FLAG_YES)" by (simp add: genuine_def)
  then have r3: "split_reachable g3" unfolding g3_def by (intro cluster_next [OF g2(1)] cluster_step.deliver) simp_all
  obtain g4 where g4: "split_reachable g4" "nodes g4 2 = b\<lparr>RecvCh := ?ms\<rparr>"
    using cluster_delivers [OF r3, of 2 "[?fv 1 VOTE_FLAG_NO]"] by (auto simp: g3_def b(1) core_self_def)
  obtain f1 f2 f3 where f: "FinVoteAggreator_Append committee4 NewFinVoteAggreator (early_finvote 2 VOTE_FLAG_YES) = (f1, Inr ACTION_NONE)"
    "FinVoteAggreator_Append committee4 f1 (early_finvote 3 VOTE_FLAG_YES) = (f2, Inr ACTION_NONE)"
    "FinVoteAggreator_Append committee4 f2 (early_finvote 1 VOTE_FLAG_NO) = (f3, Inr ACTION_YES)"
    using early_appends by blast
  obtain a1 where a1: "Core_dispatch sample_env (b\<lparr>RecvCh := tl ?ms\<rparr>) (?fv 2 VOTE_FLAG_YES) = Ret (b\<lparr>RecvCh := tl ?ms, cAggreator := a1\<rparr>, None)"
    "early_count (b\<lparr>RecvCh := tl ?ms, cAggreator := a1\<rparr>) f1" using early_counted [OF b(5) f(1), of "tl ?ms"] by auto
  obtain g5 where g5: "split_reachable g5" "nodes g5 2 = b\<lparr>RecvCh := tl ?ms, cAggreator := a1\<rparr>"
    using cluster_takes [OF g4(1), of 2 "?fv 2 VOTE_FLAG_YES" "tl ?ms"] a1(1) by (auto simp: g4(2))
  have "early_count (b\<lparr>cAggreator := a1, RecvCh := [?fv 1 VOTE_FLAG_NO]\<rparr>) f1" using a1(2) by (simp add: early_count_def)
  from early_counted [OF this f(2)] obtain a2 where
    a2: "Core_dispatch sample_env (b\<lparr>cAggreator := a1, RecvCh := [?fv 1 VOTE_FLAG_NO]\<rparr>) (?fv 3 VOTE_FLAG_YES) =
      Ret (b\<lparr>RecvCh := [?fv 1 VOTE_FLAG_NO], cAggreator := a2\<rparr>, None)"
    "early_count (b\<lparr>RecvCh := [?fv 1 VOTE_FLAG_NO], cAggreator := a2\<rparr>) f2" by auto
  obtain g6 where g6: "split_reachable g6" "nodes g6 2 = b\<lparr>RecvCh := [?fv 1 VOTE_FLAG_NO], cAggreator := a2\<rparr>"
    using cluster_takes [OF g5(1), of 2 "?fv 3 VOTE_FLAG_YES" "[?fv 1 VOTE_FLAG_NO]"] a2(1) by (auto simp: g5(2))
  have "early_count (b\<lparr>cAggreator := a2, RecvCh := []\<rparr>) f2" using a2(2) by (simp add: early_count_def)
  from early_decided [OF this f(3)] get_b obtain a3 where
    a3: "Core_dispatch sample_env (b\<lparr>cAggreator := a2, RecvCh := []\<rparr>) (?fv 1 VOTE_FLAG_NO) =
      Ret (propose sample_env (b\<lparr>RecvCh := [], cAggreator := a3\<rparr>) sample_paid 0 0, None)" by auto
  obtain g7 where g7: "split_reachable g7" "nodes g7 2 = propose sample_env (b\<lparr>RecvCh := [], cAggreator := a3\<rparr>) sample_paid 0 0"
    using cluster_takes [OF g6(1), of 2 "?fv 1 VOTE_FLAG_NO" "[]"] a3 by (auto simp: g6(2))
  show ?thesis
    using b(2) by (intro exI [of _ g7])
      (simp add: g7 propose_def core_broadcast_def core_send_def core_self_def Transmitor_Send_def b(3,4))
qed

section \<open>Properties\<close>

text \<open>
  C16. A correct member may propose twice in round 0. In a committee of four with one faulty member
  a correct member reaches a state in which it has sent two first-phase proposals with different
  blocks for the same epoch and round 0: the faulty member sends a YES prevote for round -1 to two
  correct members, each of which answers with a final vote for round -1, and adds a NO vote of its
  own.
\<close>

theorem second_proposal:
  "\<exists>g p q. cluster_reachable sample_env committee4 {0, 2, 3} (\<lambda>_. DefaultParameters) (\<lambda>_. sample_sig)
      (\<lambda>_. sample_store) (\<lambda>_. sample_pool) g \<and>
    int (card (members committee4 - {0, 2, 3})) \<le> fault_bound committee4 \<and>
    {MProposal p, MProposal q} \<subseteq> set (messages (nodes g 2)) \<and> pAuthor p = 2 \<and> pAuthor q = 2 \<and>
    pPhase p = SPB_ONE_PHASE \<and> pPhase q = SPB_ONE_PHASE \<and> pEpoch p = pEpoch q \<and> pRound p = 0 \<and> pRound q = 0 \<and> pB p \<noteq> pB q"
proof -
  let ?q = "projr (NewSPBProposal sample_env 2 (Some sample_paid) 0 0 SPB_ONE_PHASE sample_sig)"
  obtain g where "split_reachable g" "{MProposal (own_first 2), MProposal ?q} \<subseteq> set (messages (nodes g 2))"
    using second_proposal_made by blast
  moreover have "members committee4 - {0, 2, 3} = {1}" by auto
  moreover have "offered 2 \<noteq> sample_paid" by (simp add: offered_def sample_paid_def NewConsensusBlock_def)
  ultimately show ?thesis
    by (intro exI [of _ g] exI [of _ "own_first 2"] exI [of _ ?q]) (simp add: own_first_def)
qed

end
