(* ===== verification/Coin.thy ===== *)
theory Coin
  imports Scenario Config
begin

text \<open>
  The common coin of a committee whose threshold keys come from one generation
  (\<^verbatim>\<open>GenTSKeys\<close>, \<^verbatim>\<open>elector.go\<close>): the leaders that the nodes elect.
\<close>

section \<open>The threshold scheme\<close>

text \<open>
  What \<^verbatim>\<open>kyber\<close> documents of \<^verbatim>\<open>tbls.Recover\<close>: from a threshold of shares under the commitment of a
  polynomial generated with this threshold it reconstructs the full signature, which is the
  signature of the message with the shared secret (\<open>full\<close>).
\<close>

definition tbls_ok :: "('a config_env_scheme) \<Rightarrow> ('b crypto_env_scheme) \<Rightarrow> bool" where
  "tbls_ok K E \<longleftrightarrow> (\<forall>t p. NewPriPoly K t (pick_secret K) = Ret p \<longrightarrow>
     (\<exists>full. \<forall>d shares n sig. tbls_recover E (pri_Commit K p) d shares t n = Inr sig \<longrightarrow> sig = full d))"

lemma ts_keys_commit:
  assumes "kyber_ok K" and "0 < t" and "0 \<le> n"
  shows "\<exists>p. NewPriPoly K t (pick_secret K) = Ret p \<and> snd (ts_keys K t n) = pri_Commit K p"
  using GenTSKeys_returns(1) [OF assms]
  by (cases "NewPriPoly K t (pick_secret K)") (auto simp: GenTSKeys_def dest!: sym [of _ "ts_keys K t n"])

lemma elector_keys:
  assumes "core_reachable E name cm ps sg st txs c"
  shows "elSigService (cElector c) = sg" and "elCommittee (cElector c) = cm"
  using electing.reachable_keep [OF assms, of sg cm] by (simp_all add: NewCore_def NewElector_def)

section \<open>Properties\<close>

text \<open>
  C24. Two nodes of a committee whose threshold keys were generated together, in whatever states
  they have reached: if each of them elects a leader for the same epoch and round, from whatever
  shares it has counted, then it is the same leader, a node number of the committee, and both have
  recorded it.
\<close>

theorem leader_agreement:
  assumes "kyber_ok K" and "tbls_ok K E" and "0 < T" and "0 \<le> N"
    and "core_reachable E name cm ps sg st txs c" and "ShareKey sg = ts_key K N T i"
    and "core_reachable E name' cm ps' sg' st' txs' c'" and "ShareKey sg' = ts_key K N T j"
    and "AddShareVote E (cElector c) s = Ret (el, n)" and "n \<noteq> NONE"
    and "AddShareVote E (cElector c') s' = Ret (el', n')" and "n' \<noteq> NONE"
    and "eEpoch s = eEpoch s'" and "eRound s = eRound s'"
  shows "n = n' \<and> 0 \<le> n \<and> n < Committee_Size cm \<and>
    snd (Leader el (eEpoch s) (eRound s)) = n \<and> snd (Leader el' (eEpoch s) (eRound s)) = n"
proof -
  obtain p where p: "NewPriPoly K T (pick_secret K) = Ret p" "snd (ts_keys K T N) = pri_Commit K p"
    using ts_keys_commit [OF assms(1,3,4)] by blast
  obtain full where full: "\<forall>d shares n sig. tbls_recover E (snd (ts_keys K T N)) d shares T n = Inr sig \<longrightarrow> sig = full d"
    using assms(2) p unfolding tbls_ok_def by metis
  note keys = elector_keys [OF assms(5)] elector_keys [OF assms(7)]
  from assms(9,10) obtain a where a: "ElectAggreator_Append E cm sg
      (counter_at (electAggreators (cElector c)) NewElectAggreator (eEpoch s) (eRound s)) s = Ret (a, Inr n)"
    unfolding keys(1,2) [symmetric] by (cases rule: AddShareVote_cases) auto
  from assms(11,12) obtain b where b: "ElectAggreator_Append E cm sg'
      (counter_at (electAggreators (cElector c')) NewElectAggreator (eEpoch s') (eRound s')) s' = Ret (b, Inr n')"
    unfolding keys(3) [symmetric] unfolding keys(4) [symmetric] by (cases rule: AddShareVote_cases) auto
  have "n = n'"
    by (rule elected_agree [OF a assms(10) b assms(12) _ _ _ _ full assms(13,14)]) (simp_all add: assms(6,8) ts_key_def)
  with elected_in_committee [OF a assms(10)] AddShareVote_leader [OF assms(9)] AddShareVote_leader [OF assms(11)] assms(10,13,14)
  show ?thesis by simp
qed

text \<open>An election at the first share: a committee of one node.\<close>

definition sample_member :: SigService where
  "sample_member = \<lparr>PriKey = \<lparr>Prikey = []\<rparr>, ShareKey = ts_key sample_config 1 1 0\<rparr>"

abbreviation (input) sample_single :: Core where
  "sample_single \<equiv> core_init sample_env 0 committee1 DefaultParameters sample_member sample_store sample_pool"

lemma sample_single_elector: "cElector sample_single = NewElector sample_member committee1"
  by (simp add: Core_start_def propose_def core_broadcast_def generatorBlock_def NewCore_def core_effects case_prod_beta
      Let_def split: prod.split option.split)

lemma sample_election: "\<exists>el. AddShareVote sample_env (cElector sample_single) (sample_share_of 0) = Ret (el, 0)"
  unfolding sample_single_elector
  by (simp add: AddShareVote_def ElectAggreator_Append_def NewElector_def NewElectAggreator_def counter_at_def
      sample_share_of_def committee1_def HightThreshold_def Committee_Size_def CombineIntactTSPartial_def
      ElectShare_Hash_def hash_parts_concat AppendInt_0 coin_rand_def sample_env_def sample_store_env_def upt_rec SetLeader_def
      signed_divide_int_def signed_modulo_int_def Let_def)

theorem leader_agreement_witness:
  "\<exists>el. AddShareVote sample_env (cElector sample_single) (sample_share_of 0) = Ret (el, 0) \<and>
    0 < Committee_Size committee1 \<and> snd (Leader el 0 0) = 0"
proof -
  obtain el where el: "AddShareVote sample_env (cElector sample_single) (sample_share_of 0) = Ret (el, 0)"
    using sample_election ..
  have r: "core_reachable sample_env 0 committee1 DefaultParameters sample_member sample_store sample_pool sample_single"
    by (simp add: core_reachable_def)
  have "tbls_ok sample_config sample_env"
    by (auto simp: tbls_ok_def sample_env_def sample_store_env_def)
  moreover have "ShareKey sample_member = ts_key sample_config 1 1 0" by (simp add: sample_member_def)
  ultimately show ?thesis
    using leader_agreement [OF _ _ _ _ r _ r _ el _ el, of sample_config 1 1 0 0] sample_config_ok el
    by (auto simp: sample_share_of_def)
qed

end
