(* ===== verification/Signing.thy ===== *)
theory Signing
  imports Crypto
begin

text \<open>
  The signing service of \<^verbatim>\<open>crypto/crypto.go\<close> as it runs: callers put requests into its channel, its
  goroutine signs or starts a goroutine per threshold share, and every reply goes to the channel of
  the request. Shares may be answered in any order. The functions \<open>RequestSignature\<close> and
  \<open>RequestTsSugnature\<close>, which the other theories use for a call, are shown to be what a caller gets.
\<close>

section \<open>Requests\<close>

abbreviation (input) SIG :: int where "SIG \<equiv> 0"
abbreviation (input) SHARE :: int where "SHARE \<equiv> 1"

text \<open>The dynamic value of \<^verbatim>\<open>ret\<close>.\<close>

datatype sig_ret = RetSig Signature | RetShare SignatureShare

text \<open>A request, its reply channel \<^verbatim>\<open>Done\<close> given by a number.\<close>

record sigReq =
  rtype :: int
  rdigest :: Digest
  rret :: "sig_ret option"
  rerr :: "go_error option"
  rDone :: nat

text \<open>
  The service at work: its channel, the goroutines for shares, what the reply channels hold and, for
  the statements, every request made.
\<close>

record sig_state =
  reqCh :: "sigReq list"
  shares :: "sigReq list"
  replies :: "nat \<rightharpoonup> sigReq"
  made :: "nat \<rightharpoonup> sigReq"

definition sig_init :: sig_state where
  "sig_init = \<lparr>reqCh = [], shares = [], replies = Map.empty, made = Map.empty\<rparr>"

definition sigReq_done :: "sig_state \<Rightarrow> sigReq \<Rightarrow> sig_state" where
  "sigReq_done s r = s\<lparr>replies := (replies s)(rDone r \<mapsto> r)\<rparr>"

text \<open>A turn of the loop of \<^verbatim>\<open>NewSigService\<close>, and the goroutine it starts for a share.\<close>

definition sig_serve :: "('a crypto_env_scheme) \<Rightarrow> SigService \<Rightarrow> sig_state \<Rightarrow> sigReq \<Rightarrow> sig_state" where
  "sig_serve E srvc s req =
     (if rtype req = SIG then sigReq_done s (req\<lparr>rret := Some (RetSig \<lparr>Sig = ed_sign E (Prikey (PriKey srvc)) (rdigest req)\<rparr>)\<rparr>)
      else if rtype req = SHARE then s\<lparr>shares := shares s @ [req]\<rparr>
      else s)"

definition sig_share :: "('a crypto_env_scheme) \<Rightarrow> SigService \<Rightarrow> sigReq \<Rightarrow> sigReq" where
  "sig_share E srvc r =
     (case tbls_sign E (PriShare (ShareKey srvc)) (rdigest r) of
        Inl e \<Rightarrow> r\<lparr>rret := Some (RetShare \<lparr>PartialSig = []\<rparr>), rerr := Some e\<rparr>
      | Inr partialSig \<Rightarrow> r\<lparr>rret := Some (RetShare \<lparr>PartialSig = partialSig\<rparr>), rerr := None\<rparr>)"

text \<open>
  The two calls: the request that is put into the channel, with a new reply channel, and what is
  returned when the reply is there (a failed type assertion gives the zero value).
\<close>

definition sig_request :: "int \<Rightarrow> Digest \<Rightarrow> nat \<Rightarrow> sigReq" where
  "sig_request ty d ch = \<lparr>rtype = ty, rdigest = d, rret = None, rerr = None, rDone = ch\<rparr>"

definition sig_put :: "sig_state \<Rightarrow> sigReq \<Rightarrow> sig_state" where
  "sig_put s r = s\<lparr>reqCh := reqCh s @ [r], made := (made s)(rDone r \<mapsto> r)\<rparr>"

definition signature_reply :: "sigReq \<Rightarrow> go_error + Signature" where
  "signature_reply r = Inr (case rret r of Some (RetSig sig) \<Rightarrow> sig | _ \<Rightarrow> \<lparr>Sig = []\<rparr>)"

definition share_reply :: "sigReq \<Rightarrow> go_error + SignatureShare" where
  "share_reply r =
     (case rerr r of
        Some e \<Rightarrow> Inl e
      | None \<Rightarrow> Inr (case rret r of Some (RetShare sig) \<Rightarrow> sig | _ \<Rightarrow> \<lparr>PartialSig = []\<rparr>))"

section \<open>Interleavings\<close>

inductive sig_call :: "sig_state \<Rightarrow> sig_state \<Rightarrow> bool" where
  RequestSignature: "made s ch = None \<Longrightarrow> sig_call s (sig_put s (sig_request SIG d ch))"
| RequestTsSugnature: "made s ch = None \<Longrightarrow> sig_call s (sig_put s (sig_request SHARE d ch))"

inductive sig_work :: "('a crypto_env_scheme) \<Rightarrow> SigService \<Rightarrow> sig_state \<Rightarrow> sig_state \<Rightarrow> bool"
  for E :: "'a crypto_env_scheme" and srvc :: SigService where
  loop: "reqCh s = req # rest \<Longrightarrow> sig_work E srvc s (sig_serve E srvc (s\<lparr>reqCh := rest\<rparr>) req)"
| share: "i < length (shares s) \<Longrightarrow>
    sig_work E srvc s (sigReq_done (s\<lparr>shares := take i (shares s) @ drop (Suc i) (shares s)\<rparr>) (sig_share E srvc (shares s ! i)))"

inductive_cases sig_workE: "sig_work E srvc s s'"

definition sig_reachable :: "('a crypto_env_scheme) \<Rightarrow> SigService \<Rightarrow> sig_state \<Rightarrow> bool" where
  "sig_reachable E srvc s \<longleftrightarrow> (\<lambda>s s'. sig_call s s' \<or> sig_work E srvc s s')\<^sup>*\<^sup>* sig_init s"

section \<open>Invariant\<close>

text \<open>The reply a request will get.\<close>

definition sig_answer :: "('a crypto_env_scheme) \<Rightarrow> SigService \<Rightarrow> sigReq \<Rightarrow> sigReq" where
  "sig_answer E srvc r =
     (if rtype r = SIG then r\<lparr>rret := Some (RetSig \<lparr>Sig = ed_sign E (Prikey (PriKey srvc)) (rdigest r)\<rparr>)\<rparr> else sig_share E srvc r)"

text \<open>Every request made waits in one place or has its reply, and no other reply is there.\<close>

definition fresh_request :: "sigReq \<Rightarrow> bool" where
  "fresh_request r \<longleftrightarrow> rtype r \<in> {SIG, SHARE} \<and> rret r = None \<and> rerr r = None"

abbreviation waiting :: "sig_state \<Rightarrow> sigReq list" where
  "waiting s \<equiv> reqCh s @ shares s"

definition sig_inv :: "('a crypto_env_scheme) \<Rightarrow> SigService \<Rightarrow> sig_state \<Rightarrow> bool" where
  "sig_inv E srvc s \<longleftrightarrow>
     distinct (map rDone (waiting s)) \<and> (\<forall>r \<in> set (shares s). rtype r = SHARE) \<and>
     (\<forall>r \<in> set (waiting s). made s (rDone r) = Some r) \<and>
     (\<forall>ch r. made s ch = Some r \<longrightarrow> fresh_request r \<and> rDone r = ch) \<and>
     (\<forall>ch. made s ch = None \<longrightarrow> replies s ch = None) \<and>
     (\<forall>ch r. made s ch = Some r \<longrightarrow> replies s ch = (if r \<in> set (waiting s) then None else Some (sig_answer E srvc r)))"

lemma sig_invD:
  assumes "sig_inv E srvc s"
  shows "distinct (map rDone (waiting s))" and "r \<in> set (shares s) \<Longrightarrow> rtype r = SHARE"
    and "r \<in> set (waiting s) \<Longrightarrow> made s (rDone r) = Some r"
    and "made s ch = Some r \<Longrightarrow> fresh_request r" and "made s ch = Some r \<Longrightarrow> rDone r = ch"
    and "made s ch = None \<Longrightarrow> replies s ch = None"
    and "made s ch = Some r \<Longrightarrow> replies s ch = (if r \<in> set (waiting s) then None else Some (sig_answer E srvc r))"
  using assms unfolding sig_inv_def by blast+

lemma sig_invI:
  assumes "distinct (map rDone (waiting s))" and "\<And>r. r \<in> set (shares s) \<Longrightarrow> rtype r = SHARE"
    and "\<And>r. r \<in> set (waiting s) \<Longrightarrow> made s (rDone r) = Some r"
    and "\<And>ch r. made s ch = Some r \<Longrightarrow> fresh_request r \<and> rDone r = ch"
    and "\<And>ch. made s ch = None \<Longrightarrow> replies s ch = None"
    and "\<And>ch r. made s ch = Some r \<Longrightarrow> replies s ch = (if r \<in> set (waiting s) then None else Some (sig_answer E srvc r))"
  shows "sig_inv E srvc s"
  using assms unfolding sig_inv_def by blast

lemma rDone_answer [simp]: "rDone (sig_share E srvc r) = rDone r" "rDone (sig_answer E srvc r) = rDone r"
  by (simp_all add: sig_share_def sig_answer_def split: sum.split)

lemma sig_inv_init: "sig_inv E srvc sig_init"
  by (simp add: sig_inv_def sig_init_def)

lemma sig_inv_put:
  assumes inv: "sig_inv E srvc s" and r: "made s (rDone r) = None" and "fresh_request r"
  shows "sig_inv E srvc (sig_put s r)"
proof -
  note I = sig_invD [OF inv]
  have new: "rDone r' \<noteq> rDone r" if "r' \<in> set (waiting s)" for r' using I(3) [OF that] r by auto
  then have "rDone r \<notin> rDone ` set (waiting s)" by (metis imageE)
  show ?thesis
  proof (rule sig_invI)
    show "distinct (map rDone (waiting (sig_put s r)))"
      using I(1) \<open>rDone r \<notin> rDone ` set (waiting s)\<close> by (simp add: sig_put_def image_Un)
    show "rtype r' = SHARE" if "r' \<in> set (shares (sig_put s r))" for r' using I(2) that by (simp add: sig_put_def)
    show "made (sig_put s r) (rDone r') = Some r'" if "r' \<in> set (waiting (sig_put s r))" for r'
      using I(3) [of r'] new [of r'] that by (auto simp: sig_put_def)
    show "fresh_request r' \<and> rDone r' = ch" if "made (sig_put s r) ch = Some r'" for ch r'
      using I(4) [of ch r'] I(5) [of ch r'] that assms(3) by (auto simp: sig_put_def split: if_splits)
    show "replies (sig_put s r) ch = None" if "made (sig_put s r) ch = None" for ch
      using I(6) [of ch] that by (auto simp: sig_put_def split: if_splits)
    show "replies (sig_put s r) ch = (if r' \<in> set (waiting (sig_put s r)) then None else Some (sig_answer E srvc r'))"
      if "made (sig_put s r) ch = Some r'" for ch r'
      using I(5) [of ch r'] I(6) [of ch] I(7) [of ch r'] that r by (auto simp: sig_put_def split: if_splits)
  qed
qed

lemma sig_inv_call: "sig_inv E srvc s \<Longrightarrow> sig_call s s' \<Longrightarrow> sig_inv E srvc s'"
  by (erule sig_call.cases) (auto intro!: sig_inv_put simp: sig_request_def fresh_request_def)

text \<open>A request leaves its place and gets its reply.\<close>

lemma sig_inv_reply:
  assumes inv: "sig_inv E srvc s" and r: "r \<in> set (waiting s)"
    and rest: "set (q @ w) = set (waiting s) - {r}" and d: "distinct (map rDone (q @ w))" and w: "set w \<subseteq> set (shares s)"
  shows "sig_inv E srvc (sigReq_done (s\<lparr>reqCh := q, shares := w\<rparr>) (sig_answer E srvc r))"
    (is "sig_inv E srvc ?s")
proof -
  note I = sig_invD [OF inv]
  have s: "waiting ?s = q @ w" "shares ?s = w" "made ?s = made s" "replies ?s = (replies s)(rDone r \<mapsto> sig_answer E srvc r)"
    by (simp_all add: sigReq_done_def)
  show ?thesis
  proof (rule sig_invI)
    show "replies ?s ch = (if r' \<in> set (waiting ?s) then None else Some (sig_answer E srvc r'))" if m: "made ?s ch = Some r'" for ch r'
    proof (cases "ch = rDone r")
      case True
      then have "r' = r" using m I(3) [OF r] s(3) by simp
      then show ?thesis using True rest s(1,4) by simp
    next
      case False
      then have "r' \<noteq> r" using m I(5) [of ch r'] s(3) by auto
      then show ?thesis using False rest s(1,4) I(7) [of ch r'] m s(3) by auto
    qed
    show "replies ?s ch = None" if "made ?s ch = None" for ch
      using that I(6) [of ch] I(3) [OF r] s(3,4) by auto
    show "fresh_request r' \<and> rDone r' = ch" if "made ?s ch = Some r'" for ch r'
      using that I(4,5) s(3) by auto
    show "made ?s (rDone r') = Some r'" if "r' \<in> set (waiting ?s)" for r'
      using that I(3) [of r'] rest s(1,3) by auto
    show "rtype r' = SHARE" if "r' \<in> set (shares ?s)" for r' using that I(2) w s(2) by auto
    show "distinct (map rDone (waiting ?s))" using d s(1) by simp
  qed
qed

text \<open>A request for a share moves to a goroutine of its own.\<close>

lemma sig_inv_cong:
  assumes "sig_inv E srvc s" and "set (waiting s') = set (waiting s)" and "distinct (map rDone (waiting s'))"
    and "\<forall>r \<in> set (shares s'). rtype r = SHARE" and "made s' = made s" and "replies s' = replies s"
  shows "sig_inv E srvc s'"
  using assms unfolding sig_inv_def by simp

lemma sig_inv_work:
  assumes inv: "sig_inv E srvc s" and "sig_work E srvc s s'"
  shows "sig_inv E srvc s'"
  using assms(2)
proof cases
  case (loop req rest)
  note I = sig_invD [OF inv]
  have req: "fresh_request req" using I(4) [OF I(3)] loop(2) by simp
  have new: "req \<notin> set (rest @ shares s)" using I(1) loop(2) by auto
  show ?thesis
  proof (cases "rtype req = SIG")
    case True
    have "sig_inv E srvc (sigReq_done (s\<lparr>reqCh := rest, shares := shares s\<rparr>) (sig_answer E srvc req))"
      by (rule sig_inv_reply [OF inv]) (use loop(2) I(1) new in auto)
    moreover have "s\<lparr>reqCh := rest, shares := shares s\<rparr> = s\<lparr>reqCh := rest\<rparr>" by simp
    ultimately show ?thesis using True loop(1) by (simp add: sig_serve_def sig_answer_def)
  next
    case False
    then have ty: "rtype req = SHARE" using req by (simp add: fresh_request_def)
    have "distinct (map rDone (rest @ shares s @ [req]))" using I(1) loop(2) by auto
    then show ?thesis
      using I(2) ty loop by (intro sig_inv_cong [OF inv]) (auto simp: sig_serve_def)
  qed
next
  case (share i)
  let ?r = "shares s ! i" and ?w = "take i (shares s) @ drop (Suc i) (shares s)"
  note I = sig_invD [OF inv]
  have ty: "rtype ?r = SHARE" using I(2) share(2) by simp
  have sh: "shares s = take i (shares s) @ ?r # drop (Suc i) (shares s)" using share(2) by (rule id_take_nth_drop)
  have "distinct (map rDone (reqCh s @ take i (shares s) @ ?r # drop (Suc i) (shares s)))" using I(1) sh by simp
  then have w: "distinct (map rDone (reqCh s @ ?w))" "?r \<notin> set (reqCh s @ ?w)" by auto
  have "set (shares s) = insert ?r (set ?w)" by (subst sh) auto
  then have "sig_inv E srvc (sigReq_done (s\<lparr>reqCh := reqCh s, shares := ?w\<rparr>) (sig_answer E srvc ?r))"
    by (intro sig_inv_reply [OF inv _ _ w(1)]) (use w(2) in auto)
  then show ?thesis using ty share(1) by (simp add: sig_answer_def)
qed

lemma sig_inv_holds: "sig_reachable E srvc s \<Longrightarrow> sig_inv E srvc s"
  unfolding sig_reachable_def
  by (induction rule: rtranclp_induct) (auto simp: sig_inv_init intro: sig_inv_call sig_inv_work)

section \<open>The service comes to rest\<close>

definition sig_weight :: "sig_state \<Rightarrow> nat" where
  "sig_weight s = 2 * length (reqCh s) + length (shares s)"

lemma sig_work_weight: "sig_work E srvc s s' \<Longrightarrow> sig_weight s' < sig_weight s"
  by (erule sig_work.cases) (auto simp: sig_weight_def sig_serve_def sigReq_done_def)

lemma sig_work_stops:
  assumes "\<nexists>s'. sig_work E srvc s s'"
  shows "waiting s = []"
proof -
  have "reqCh s = []" using assms loop [of s _ _ E srvc] by (cases "reqCh s") blast+
  moreover have "shares s = []" using assms share [of 0 s E srvc] by blast
  ultimately show ?thesis by simp
qed

lemma sig_works_made: "(sig_work E srvc)\<^sup>*\<^sup>* s s' \<Longrightarrow> made s' = made s"
  by (induction rule: rtranclp_induct)
    (auto elim!: sig_workE simp: sig_serve_def sigReq_done_def)

lemma sig_works_reachable:
  "(sig_work E srvc)\<^sup>*\<^sup>* s s' \<Longrightarrow> sig_reachable E srvc s \<Longrightarrow> sig_reachable E srvc s'"
  unfolding sig_reachable_def by (induction rule: rtranclp_induct) (auto intro: rtranclp.rtrancl_into_rtrancl)

lemma sig_comes_to_rest: "\<exists>s'. (sig_work E srvc)\<^sup>*\<^sup>* s s' \<and> (\<nexists>s''. sig_work E srvc s' s'')"
proof (induction "sig_weight s" arbitrary: s rule: less_induct)
  case less
  show ?case
  proof (cases "\<exists>s1. sig_work E srvc s s1")
    case True
    then obtain s1 where "sig_work E srvc s s1" by blast
    with less [OF sig_work_weight] show ?thesis by (meson converse_rtranclp_into_rtranclp)
  qed auto
qed

text \<open>What the caller of an answered request gets.\<close>

lemma answer_reply:
  assumes "fresh_request r"
  shows "rtype r = SIG \<Longrightarrow> signature_reply (sig_answer E srvc r) = RequestSignature E srvc (rdigest r)"
    and "rtype r = SHARE \<Longrightarrow> share_reply (sig_answer E srvc r) = RequestTsSugnature E srvc (rdigest r)"
  by (auto simp: sig_answer_def signature_reply_def share_reply_def sig_share_def RequestSignature_def
      RequestTsSugnature_def split: sum.split)

section \<open>Properties\<close>

text \<open>
  C34. The signing service refines the two functions. In every reachable state, whatever requests
  were made and in whatever order shares are computed, a reply on the channel of a request makes its
  caller return the signature of its own digest, and the share or the error for its own digest; and
  from every state the service alone answers every request made so far.
\<close>

theorem service_refines:
  assumes "sig_reachable E srvc s"
  shows "(\<forall>ch q r. made s ch = Some q \<and> replies s ch = Some r \<longrightarrow>
      (rtype q = SIG \<longrightarrow> signature_reply r = RequestSignature E srvc (rdigest q)) \<and>
      (rtype q = SHARE \<longrightarrow> share_reply r = RequestTsSugnature E srvc (rdigest q))) \<and>
    (\<exists>s'. (sig_work E srvc)\<^sup>*\<^sup>* s s' \<and> made s' = made s \<and> dom (replies s') = dom (made s))"
proof (intro conjI allI impI)
  note I = sig_invD [OF sig_inv_holds [OF assms]]
  fix ch q r assume "made s ch = Some q \<and> replies s ch = Some r"
  then have "made s ch = Some q" "r = sig_answer E srvc q" using I(7) [of ch q] by (auto split: if_splits)
  then show "rtype q = SIG \<Longrightarrow> signature_reply r = RequestSignature E srvc (rdigest q)"
    and "rtype q = SHARE \<Longrightarrow> share_reply r = RequestTsSugnature E srvc (rdigest q)"
    using answer_reply [OF I(4)] by simp_all
next
  obtain s' where s': "(sig_work E srvc)\<^sup>*\<^sup>* s s'" "\<nexists>s''. sig_work E srvc s' s''" using sig_comes_to_rest by blast
  note I = sig_invD [OF sig_inv_holds [OF sig_works_reachable [OF s'(1) assms]]]
  have "dom (replies s') = dom (made s')"
    using I(6,7) sig_work_stops [OF s'(2)] by (fastforce simp: dom_def)
  then show "\<exists>s'. (sig_work E srvc)\<^sup>*\<^sup>* s s' \<and> made s' = made s \<and> dom (replies s') = dom (made s)"
    using s'(1) sig_works_made [OF s'(1)] by (intro exI [of _ s']) simp
qed

section \<open>An instance\<close>

definition echo_env :: crypto_env where
  "echo_env = \<lparr>sha256 = (\<lambda>d. d), ed_sign = (\<lambda>pri d. d), ed_verify = (\<lambda>pub d s. s = d), tbls_sign = (\<lambda>sh d. Inr d),
     tbls_recover = (\<lambda>pub d shares t n. Inr d)\<rparr>"

text \<open>A share and a signature are requested.\<close>

definition two_requests :: sig_state where
  "two_requests = sig_put (sig_put sig_init (sig_request SHARE [1] 0)) (sig_request SIG [2] 1)"

lemma two_requests_reachable: "sig_reachable echo_env sample_sig two_requests"
proof -
  have "sig_call sig_init (sig_put sig_init (sig_request SHARE [1] 0))"
    by (rule sig_call.RequestTsSugnature) (simp add: sig_init_def)
  moreover have "sig_call (sig_put sig_init (sig_request SHARE [1] 0)) two_requests"
    unfolding two_requests_def by (rule sig_call.RequestSignature) (simp add: sig_init_def sig_put_def sig_request_def)
  ultimately show ?thesis by (auto simp: sig_reachable_def intro: rtranclp.rtrancl_into_rtrancl)
qed

lemma two_requests_made:
  "made two_requests 0 = Some (sig_request SHARE [1] 0)" "made two_requests 1 = Some (sig_request SIG [2] 1)"
  by (simp_all add: two_requests_def sig_put_def sig_request_def)

theorem service_refines_witness:
  "\<exists>s q r. (sig_work echo_env sample_sig)\<^sup>*\<^sup>* two_requests s \<and> replies s 0 = Some q \<and> share_reply q = Inr \<lparr>PartialSig = [1]\<rparr> \<and>
    replies s 1 = Some r \<and> signature_reply r = Inr \<lparr>Sig = [2]\<rparr>"
proof -
  obtain s where s: "(sig_work echo_env sample_sig)\<^sup>*\<^sup>* two_requests s" "made s = made two_requests"
    "dom (replies s) = dom (made two_requests)"
    using service_refines [OF two_requests_reachable] by blast
  then obtain q r where qr: "replies s 0 = Some q" "replies s 1 = Some r" using two_requests_made by blast
  have "share_reply q = RequestTsSugnature echo_env sample_sig [1]" "signature_reply r = RequestSignature echo_env sample_sig [2]"
    using service_refines [OF sig_works_reachable [OF s(1) two_requests_reachable], THEN conjunct1, rule_format, of 0 _ q]
      service_refines [OF sig_works_reachable [OF s(1) two_requests_reachable], THEN conjunct1, rule_format, of 1 _ r]
      qr two_requests_made by (auto simp: s(2) sig_request_def)
  with s(1) qr show ?thesis by (auto simp: RequestTsSugnature_def RequestSignature_def echo_env_def)
qed

end
