(* ===== verification/Fetching.thy ===== *)
theory Fetching
  imports Scenario
begin

text \<open>
  Fetching a missing payload to its end: a block that waits for payloads is handed back to the core
  once they are stored (\<^verbatim>\<open>mempool/synchronizer.go\<close>), and they are stored once a member that has them
  has answered the request (\<^verbatim>\<open>mempool/mempool.go\<close>).
\<close>

section \<open>The goroutines of the synchronizer\<close>

text \<open>The steps of \<^const>\<open>sync_step\<close> other than a tick.\<close>

inductive sync_work :: "('a store_env_scheme) \<Rightarrow> Store \<times> Synchronizer \<Rightarrow> Store \<times> Synchronizer \<Rightarrow> bool"
  for E :: "'a store_env_scheme" where
  inter: "interChan s = m # ms \<Longrightarrow> sync_work E (st, s) (st, Sync_handle_inter (s\<lparr>interChan := ms\<rparr>) now m)"
| waited: "waiting s = d # ds \<Longrightarrow> sync_work E (st, s) (st, Sync_handle_waiting (s\<lparr>waiting := ds\<rparr>) d)"
| asks: "i < length (waiters s) \<Longrightarrow> wRemaining (waiters s ! i) = d # ds \<Longrightarrow> wAsked (waiters s ! i) = None \<Longrightarrow>
     sync_work E (st, s)
       (Store_NotifyRead E st d (syReads s),
        s\<lparr>waiters := (waiters s)[i := (waiters s ! i)\<lparr>wAsked := Some (syReads s)\<rparr>], syReads := Suc (syReads s)\<rparr>)"
| read_returns: "i < length (waiters s) \<Longrightarrow> wRemaining (waiters s ! i) = d # ds \<Longrightarrow>
     wAsked (waiters s ! i) = Some ch \<Longrightarrow> ch \<in> answered st \<Longrightarrow>
     sync_work E (st, s) (st, s\<lparr>waiters := (waiters s)[i := (waiters s ! i)\<lparr>wRemaining := ds, wAsked := None\<rparr>]\<rparr>)"
| waiter_done: "i < length (waiters s) \<Longrightarrow> wRemaining (waiters s ! i) = [] \<Longrightarrow>
     sync_work E (st, s) (st, s\<lparr>waiting := waiting s @ [wHash (waiters s ! i)],
                                waiters := take i (waiters s) @ drop (Suc i) (waiters s)\<rparr>)"
| waiter_cancelled: "i < length (waiters s) \<Longrightarrow> wNotify (waiters s ! i) \<in> syClosed s \<Longrightarrow>
     sync_work E (st, s) (st, s\<lparr>waiting := waiting s @ [Digest0],
                                waiters := take i (waiters s) @ drop (Suc i) (waiters s)\<rparr>)"

lemma sync_step_iff: "sync_step E x y \<longleftrightarrow> sync_work E x y \<or> (\<exists>now. y = (fst x, Sync_tick (snd x) now))"
proof
  assume "sync_step E x y"
  then show "sync_work E x y \<or> (\<exists>now. y = (fst x, Sync_tick (snd x) now))"
    by cases (auto intro: sync_work.intros)
next
  assume "sync_work E x y \<or> (\<exists>now. y = (fst x, Sync_tick (snd x) now))"
  then show "sync_step E x y"
    using sync_step.tick [of E "fst x" "snd x"] by (auto elim!: sync_work.cases intro: sync_step.intros)
qed

text \<open>They come to rest: every message and every waiter has finitely many steps before it.\<close>

definition request_weight :: "mempool_msg \<Rightarrow> nat" where
  "request_weight m = (case m of SyncBlockMsg missing p e h \<Rightarrow> 2 * length missing + 4 | _ \<Rightarrow> 1)"

definition waiter_weight :: "waiterState \<Rightarrow> nat" where
  "waiter_weight w = 2 * length (wRemaining w) + (if wAsked w = None then 3 else 2)"

definition sync_weight :: "Synchronizer \<Rightarrow> nat" where
  "sync_weight s = (\<Sum>m\<leftarrow>interChan s. request_weight m) + (\<Sum>w\<leftarrow>waiters s. waiter_weight w) + length (waiting s)"

lemma sum_list_remove:
  fixes f :: "'b \<Rightarrow> nat"
  assumes "i < length xs"
  shows "(\<Sum>x\<leftarrow>xs. f x) = f (xs ! i) + (\<Sum>x\<leftarrow>take i xs @ drop (Suc i) xs. f x)"
  by (subst id_take_nth_drop [OF assms]) simp

lemma sum_list_change:
  fixes f :: "'b \<Rightarrow> nat"
  assumes "i < length xs"
  shows "(\<Sum>x\<leftarrow>xs[i := y]. f x) + f (xs ! i) = (\<Sum>x\<leftarrow>xs. f x) + f y"
  using assms sum_list_remove [of i xs f] sum_list_remove [of i "xs[i := y]" f]
  by (simp add: upd_conv_take_nth_drop)

lemma sync_work_weight:
  assumes "sync_work E (st, s) (st', s')"
  shows "sync_weight s' < sync_weight s"
  using assms
proof cases
  case (inter m ms now)
  then show ?thesis
    by (cases m) (auto simp: sync_weight_def request_weight_def waiter_weight_def Sync_handle_inter_def Sync_handle_SyncBlock_def
        Sync_handle_CleanUp_def Let_def split: option.split)
next
  case (waited d ds)
  then show ?thesis by (simp add: sync_weight_def Sync_handle_waiting_def)
next
  case (asks i d ds)
  then show ?thesis
    using sum_list_change [of i "waiters s" waiter_weight "(waiters s ! i)\<lparr>wAsked := Some (syReads s)\<rparr>"]
    by (simp add: sync_weight_def waiter_weight_def)
next
  case (read_returns i d ds ch)
  then show ?thesis
    using sum_list_change [of i "waiters s" waiter_weight "(waiters s ! i)\<lparr>wRemaining := ds, wAsked := None\<rparr>"]
    by (simp add: sync_weight_def waiter_weight_def)
next
  case (waiter_done i)
  then show ?thesis
    using sum_list_remove [of i "waiters s" waiter_weight] by (simp add: sync_weight_def waiter_weight_def)
next
  case (waiter_cancelled i)
  then show ?thesis
    using sum_list_remove [of i "waiters s" waiter_weight] by (simp add: sync_weight_def waiter_weight_def)
qed

definition sync_rest :: "('a store_env_scheme) \<Rightarrow> Store \<times> Synchronizer \<Rightarrow> bool" where
  "sync_rest E x \<longleftrightarrow> (\<nexists>y. sync_work E x y)"

lemma sync_comes_to_rest: "\<exists>y. (sync_work E)\<^sup>*\<^sup>* x y \<and> sync_rest E y"
proof (induction "sync_weight (snd x)" arbitrary: x rule: less_induct)
  case less
  show ?case
  proof (cases "sync_rest E x")
    case False
    then obtain y where y: "sync_work E x y" by (auto simp: sync_rest_def)
    then have "sync_weight (snd y) < sync_weight (snd x)" using sync_work_weight by (metis prod.collapse)
    with less y show ?thesis by (meson converse_rtranclp_into_rtranclp)
  next
    case True
    then show ?thesis by blast
  qed
qed

section \<open>Blocking reads are served\<close>

text \<open>A waiter that is in a blocking read is waiting in the store or answered.\<close>

definition reads_live :: "Store \<Rightarrow> Synchronizer \<Rightarrow> bool" where
  "reads_live st s \<longleftrightarrow>
     (\<forall>w \<in> set (waiters s). \<forall>ch d ds. wAsked w = Some ch \<and> wRemaining w = d # ds \<longrightarrow>
        ch \<in> waiting_on st d \<or> ch \<in> answered st)"

lemma reads_live_serve: "reads_live st s \<Longrightarrow> reads_live (fst (Store_serve E st r)) s"
  unfolding reads_live_def using serve_keeps_waiter [of _ st _ E r] answered_mono [of st E r] by blast

lemma reads_live_Write: "reads_live st s \<Longrightarrow> reads_live (fst (Store_Write E st k v)) s"
  unfolding Store_Write_serve by (rule reads_live_serve)

lemma reads_live_same:
  assumes "reads_live st s" and "\<And>w. w \<in> set (waiters s') \<Longrightarrow> w \<in> set (waiters s) \<or> wAsked w = None"
  shows "reads_live st s'"
  using assms unfolding reads_live_def by fastforce

lemma reads_live_asks:
  assumes "reads_live st s" and "wRemaining (waiters s ! i) = d # ds"
  shows "reads_live (Store_NotifyRead E st d ch) (s\<lparr>waiters := (waiters s)[i := (waiters s ! i)\<lparr>wAsked := Some ch\<rparr>], syReads := k\<rparr>)"
proof -
  let ?r = "\<lparr>rtyp = NOTIFYREAD, key = d, val = [], err = None, done_ch = ch\<rparr>"
  have old: "reads_live (Store_NotifyRead E st d ch) s"
    unfolding Store_NotifyRead_def by (rule reads_live_serve [OF assms(1)])
  have new: "ch \<in> waiting_on (Store_NotifyRead E st d ch) d \<or> ch \<in> answered (Store_NotifyRead E st d ch)"
    using serve_notify [of ?r E st] by (simp add: Store_NotifyRead_def)
  show ?thesis
    unfolding reads_live_def
  proof (intro ballI allI impI)
    fix w ch' d' ds'
    assume w: "w \<in> set (waiters (s\<lparr>waiters := (waiters s)[i := (waiters s ! i)\<lparr>wAsked := Some ch\<rparr>], syReads := k\<rparr>))"
      and a: "wAsked w = Some ch' \<and> wRemaining w = d' # ds'"
    from w have "w = (waiters s ! i)\<lparr>wAsked := Some ch\<rparr> \<or> w \<in> set (waiters s)"
      by (auto dest!: set_update_subset_insert [THEN subsetD])
    then show "ch' \<in> waiting_on (Store_NotifyRead E st d ch) d' \<or> ch' \<in> answered (Store_NotifyRead E st d ch)"
      using a assms(2) new old unfolding reads_live_def by fastforce
  qed
qed

lemma reads_live_inter: "reads_live st s \<Longrightarrow> reads_live st (Sync_handle_inter s now m)"
  by (rule reads_live_same, assumption, cases m)
    (auto simp: Sync_handle_inter_def Sync_handle_SyncBlock_def Sync_handle_CleanUp_def Let_def split: option.splits)

lemma reads_live_work:
  assumes "sync_work E (st, s) (st', s')" and live: "reads_live st s"
  shows "reads_live st' s'"
  using assms(1)
proof cases
  case (inter m ms now)
  have "reads_live st (s\<lparr>interChan := ms\<rparr>)" by (rule reads_live_same [OF live]) simp
  then show ?thesis unfolding inter(1,2) by (rule reads_live_inter)
next
  case (asks i d ds)
  show ?thesis unfolding asks(1,2) by (rule reads_live_asks [OF live asks(4)])
next
  case (waited d ds)
  show ?thesis unfolding waited(1,2) by (rule reads_live_same [OF live]) (simp add: Sync_handle_waiting_def split: if_splits)
next
  case (read_returns i d ds ch)
  show ?thesis unfolding read_returns(1,2)
    by (rule reads_live_same [OF live]) (auto dest!: set_update_subset_insert [THEN subsetD])
next
  case (waiter_done i)
  show ?thesis unfolding waiter_done(1,2) by (rule reads_live_same [OF live]) (auto dest: in_set_takeD in_set_dropD)
next
  case (waiter_cancelled i)
  show ?thesis unfolding waiter_cancelled(1,2) by (rule reads_live_same [OF live]) (auto dest: in_set_takeD in_set_dropD)
qed

lemma sync_rest_idle:
  assumes "sync_rest E (st, s)" and "store_inv E st" and "reads_live st s"
  shows "waiting s = []" and "w \<in> set (waiters s) \<Longrightarrow> \<exists>d \<in> set (wRemaining w). \<not> readable E st d"
proof -
  have no: "\<not> sync_work E (st, s) y" for y using assms(1) unfolding sync_rest_def by blast
  show "waiting s = []" using no waited [of s] by (cases "waiting s") blast+
  assume w: "w \<in> set (waiters s)"
  then obtain i where i: "i < length (waiters s)" "w = waiters s ! i" by (auto simp: in_set_conv_nth)
  show "\<exists>d \<in> set (wRemaining w). \<not> readable E st d"
  proof (cases "wRemaining w")
    case Nil
    then show ?thesis using no waiter_done [OF i(1)] i(2) by blast
  next
    case (Cons d ds)
    then obtain ch where ch: "wAsked w = Some ch" using no asks [OF i(1), of d ds] i(2) by (cases "wAsked w") blast+
    then have "ch \<notin> answered st" using no read_returns [OF i(1), of d ds ch] i(2) Cons by blast
    then have "ch \<in> waiting_on st d" using assms(3) w Cons ch unfolding reads_live_def by blast
    then have "\<not> readable E st d"
      using present_not_waiting [OF assms(2), of d] readable_db [of E st d] assms(2) by (auto simp: store_inv_def)
    then show ?thesis using Cons by simp
  qed
qed

section \<open>Every pending block has its waiter\<close>

definition waits_for :: "Synchronizer \<Rightarrow> Digest \<Rightarrow> pendingEntry \<Rightarrow> bool" where
  "waits_for s h e \<longleftrightarrow> h \<in> set (waiting s) \<or>
     (\<exists>w \<in> set (waiters s). wHash w = h \<and> wNotify w = peNotify e \<and> set (wRemaining w) \<subseteq> set (peMissing e))"

definition fetch_inv :: "Synchronizer \<Rightarrow> bool" where
  "fetch_inv s \<longleftrightarrow>
     distinct (map (peNotify \<circ> snd) (syPending s)) \<and> syClosed s \<subseteq> {..<syFresh s} \<and>
     (\<forall>(h, e) \<in> set (syPending s). peNotify e < syFresh s \<and> peNotify e \<notin> syClosed s \<and> (h \<noteq> Digest0 \<longrightarrow> waits_for s h e))"

lemma fetch_invI:
  assumes "distinct (map (peNotify \<circ> snd) (syPending s))" and "syClosed s \<subseteq> {..<syFresh s}"
    and "\<And>h e. (h, e) \<in> set (syPending s) \<Longrightarrow> peNotify e < syFresh s \<and> peNotify e \<notin> syClosed s"
    and "\<And>h e. (h, e) \<in> set (syPending s) \<Longrightarrow> h \<noteq> Digest0 \<Longrightarrow> waits_for s h e"
  shows "fetch_inv s"
  using assms by (auto simp: fetch_inv_def)

lemma fetch_invD:
  assumes "fetch_inv s"
  shows "distinct (map (peNotify \<circ> snd) (syPending s))" and "syClosed s \<subseteq> {..<syFresh s}"
    and "(h, e) \<in> set (syPending s) \<Longrightarrow> peNotify e < syFresh s"
    and "(h, e) \<in> set (syPending s) \<Longrightarrow> peNotify e \<notin> syClosed s"
    and "(h, e) \<in> set (syPending s) \<Longrightarrow> h \<noteq> Digest0 \<Longrightarrow> waits_for s h e"
  using assms by (auto simp: fetch_inv_def)

lemma fetch_inv_new: "fetch_inv (NewSynchronizer n c ps)"
  by (simp add: fetch_inv_def NewSynchronizer_def)

text \<open>The waiters, the finished ones and the table are all the invariant speaks of.\<close>

lemma fetch_inv_same:
  assumes "fetch_inv s" and "syPending s' = syPending s" and "syClosed s' = syClosed s" and "syFresh s' = syFresh s"
    and "\<And>h e. (h, e) \<in> set (syPending s) \<Longrightarrow> waits_for s h e \<Longrightarrow> waits_for s' h e"
  shows "fetch_inv s'"
  using fetch_invD [OF assms(1)] assms(2-5) by (intro fetch_invI) auto

lemma fetch_inv_SyncBlock:
  assumes "fetch_inv s"
  shows "fetch_inv (Sync_handle_SyncBlock s now missing author epoch digest)"
proof (cases "map_of (syPending s) digest")
  case None
  note I = fetch_invD [OF assms]
  let ?s = "Sync_handle_SyncBlock s now missing author epoch digest"
  have s: "syClosed ?s = syClosed s" "syFresh ?s = Suc (syFresh s)" "waiting ?s = waiting s"
    "waiters ?s = waiters s @ [\<lparr>wHash = digest, wRemaining = missing, wNotify = syFresh s, wAsked = None\<rparr>]"
    "syPending ?s = (digest, \<lparr>peEpoch = uint64 epoch, peNotify = syFresh s, peLastSend = now, peMissing = missing, peAuthor = author\<rparr>) # syPending s"
    using None by (simp_all add: Sync_handle_SyncBlock_def Let_def)
  have keep: "waits_for ?s h e" if "waits_for s h e" for h e using that s(3,4) by (auto simp: waits_for_def)
  show ?thesis
  proof (rule fetch_invI)
    show "distinct (map (peNotify \<circ> snd) (syPending ?s))" unfolding s using I(1,3) by fastforce
    show "syClosed ?s \<subseteq> {..<syFresh ?s}" using I(2) s by auto
    show "peNotify e < syFresh ?s \<and> peNotify e \<notin> syClosed ?s" if "(h, e) \<in> set (syPending ?s)" for h e
      using that I(2) I(3,4) [of h e] s by (auto simp: less_Suc_eq)
    show "waits_for ?s h e" if "(h, e) \<in> set (syPending ?s)" "h \<noteq> Digest0" for h e
      using that I(5) [of h e] keep s(4,5) by (auto simp: waits_for_def)
  qed
qed (use assms in \<open>simp add: Sync_handle_SyncBlock_def\<close>)

lemma fetch_inv_CleanUp:
  assumes "fetch_inv s"
  shows "fetch_inv (Sync_handle_CleanUp s epoch)"
proof -
  note I = fetch_invD [OF assms]
  have inj: "inj_on (peNotify \<circ> snd) (set (syPending s))" using I(1) by (simp add: distinct_map)
  show ?thesis
  proof (rule fetch_invI)
    show "distinct (map (peNotify \<circ> snd) (syPending (Sync_handle_CleanUp s epoch)))"
      using I(1) by (simp add: Sync_handle_CleanUp_def distinct_map_filter)
    show "syClosed (Sync_handle_CleanUp s epoch) \<subseteq> {..<syFresh (Sync_handle_CleanUp s epoch)}"
      using I(2,3) by (auto simp: Sync_handle_CleanUp_def)
    show "peNotify e < syFresh (Sync_handle_CleanUp s epoch) \<and> peNotify e \<notin> syClosed (Sync_handle_CleanUp s epoch)"
      if "(h, e) \<in> set (syPending (Sync_handle_CleanUp s epoch))" for h e
      using that I(3,4) [of h e] inj_onD [OF inj, of "(h, e)"] by (auto simp: Sync_handle_CleanUp_def)
    show "waits_for (Sync_handle_CleanUp s epoch) h e"
      if "(h, e) \<in> set (syPending (Sync_handle_CleanUp s epoch))" "h \<noteq> Digest0" for h e
      using that I(5) [of h e] by (auto simp: Sync_handle_CleanUp_def waits_for_def)
  qed
qed

lemma fetch_inv_inter: "fetch_inv s \<Longrightarrow> fetch_inv (Sync_handle_inter s now m)"
  by (cases m) (simp_all add: Sync_handle_inter_def fetch_inv_SyncBlock fetch_inv_CleanUp)

lemma in_set_remove: "x \<in> set xs \<Longrightarrow> x \<noteq> xs ! i \<Longrightarrow> x \<in> set (take i xs @ drop (Suc i) xs)"
  by (cases "i < length xs") (auto dest!: id_take_nth_drop [of i xs, THEN arg_cong [where f = set], THEN equalityD1, THEN subsetD])

text \<open>A waiter that goes on with the same block and the same notify channel still waits for it.\<close>

lemma waits_for_update:
  assumes "waits_for s h e" and "i < length (waiters s)" and "waiters s' = (waiters s)[i := w]" and "waiting s' = waiting s"
    and "wHash w = wHash (waiters s ! i)" and "wNotify w = wNotify (waiters s ! i)"
    and "set (wRemaining w) \<subseteq> set (wRemaining (waiters s ! i))"
  shows "waits_for s' h e"
proof -
  have "\<exists>v' \<in> set (waiters s'). wHash v' = wHash v \<and> wNotify v' = wNotify v \<and> set (wRemaining v') \<subseteq> set (wRemaining v)"
    if "v \<in> set (waiters s)" for v
  proof -
    obtain j where j: "j < length (waiters s)" "v = waiters s ! j" using \<open>v \<in> set (waiters s)\<close> by (auto simp: in_set_conv_nth)
    then have "waiters s' ! j \<in> set (waiters s')" by (simp add: assms(3))
    moreover have "wHash (waiters s' ! j) = wHash v \<and> wNotify (waiters s' ! j) = wNotify v \<and>
        set (wRemaining (waiters s' ! j)) \<subseteq> set (wRemaining v)"
      using j assms(2,3,5-7) by (cases "i = j") auto
    ultimately show ?thesis by blast
  qed
  with assms(1,4) show ?thesis unfolding waits_for_def by fastforce
qed

lemma fetch_inv_work:
  assumes inv: "fetch_inv s" and "sync_work E (st, s) (st', s')"
  shows "fetch_inv s'"
  using assms(2)
proof cases
  case (inter m ms now)
  have "fetch_inv (s\<lparr>interChan := ms\<rparr>)" by (rule fetch_inv_same [OF inv]) (simp_all add: waits_for_def)
  then show ?thesis unfolding inter(2) by (rule fetch_inv_inter)
next
  case (waited d ds)
  note I = fetch_invD [OF inv]
  show ?thesis
  proof (rule fetch_invI)
    show "distinct (map (peNotify \<circ> snd) (syPending s'))"
      using I(1) waited(2) by (simp add: Sync_handle_waiting_def distinct_map_filter)
    show "syClosed s' \<subseteq> {..<syFresh s'}" using I(2) waited(2) by (simp add: Sync_handle_waiting_def)
    show "peNotify e < syFresh s' \<and> peNotify e \<notin> syClosed s'" if "(h, e) \<in> set (syPending s')" for h e
      using that I(3,4) [of h e] waited(2) by (auto simp: Sync_handle_waiting_def split: if_splits)
    show "waits_for s' h e" if "(h, e) \<in> set (syPending s')" "h \<noteq> Digest0" for h e
      using that I(5) [of h e] waited by (auto simp: Sync_handle_waiting_def waits_for_def split: if_splits)
  qed
next
  case (asks i d ds)
  have "waits_for s' h e" if "waits_for s h e" for h e
    by (rule waits_for_update [OF that asks(3), of s' "(waiters s ! i)\<lparr>wAsked := Some (syReads s)\<rparr>"]) (simp_all add: asks(2))
  then show ?thesis by (intro fetch_inv_same [OF inv]) (simp_all add: asks(2))
next
  case (read_returns i d ds ch)
  have "waits_for s' h e" if "waits_for s h e" for h e
    by (rule waits_for_update [OF that read_returns(3), of s' "(waiters s ! i)\<lparr>wRemaining := ds, wAsked := None\<rparr>"])
      (auto simp: read_returns(2,4))
  then show ?thesis by (intro fetch_inv_same [OF inv]) (simp_all add: read_returns(2))
next
  case (waiter_done i)
  have "waits_for s' h e" if "waits_for s h e" for h e
    using that waiter_done(2) in_set_remove [of _ "waiters s" i] unfolding waits_for_def by fastforce
  then show ?thesis by (intro fetch_inv_same [OF inv]) (simp_all add: waiter_done(2))
next
  case (waiter_cancelled i)
  have "waits_for s' h e" if "(h, e) \<in> set (syPending s)" "waits_for s h e" for h e
    using that fetch_invD(4) [OF inv that(1)] waiter_cancelled(2,4) in_set_remove [of _ "waiters s" i]
    unfolding waits_for_def by fastforce
  then show ?thesis by (intro fetch_inv_same [OF inv]) (simp_all add: waiter_cancelled(2))
qed

lemma foldl_Sync_send_more [simp]:
  "syClosed (foldl (\<lambda>s e. Sync_send s (f e) (g s e)) s es) = syClosed s"
  "syFresh (foldl (\<lambda>s e. Sync_send s (f e) (g s e)) s es) = syFresh s"
  by (induction es arbitrary: s) auto

lemma fetch_inv_tick:
  assumes "fetch_inv s"
  shows "fetch_inv (Sync_tick s now)"
proof -
  note I = fetch_invD [OF assms]
  let ?f = "\<lambda>e. if retry_due (syParameters s) now e then e\<lparr>peLastSend := now\<rparr> else e"
  have t: "syPending (Sync_tick s now) = map (\<lambda>(d, e). (d, ?f e)) (syPending s)" "syClosed (Sync_tick s now) = syClosed s"
    "syFresh (Sync_tick s now) = syFresh s" "waiting (Sync_tick s now) = waiting s" "waiters (Sync_tick s now) = waiters s"
    by (simp_all add: Sync_tick_def Let_def)
  have d: "distinct (map (peNotify \<circ> snd) (syPending (Sync_tick s now)))"
  proof -
    have "map (peNotify \<circ> snd) (syPending (Sync_tick s now)) = map (peNotify \<circ> snd) (syPending s)" by (auto simp: t(1))
    then show ?thesis using I(1) by simp
  qed
  have "peNotify (?f e) = peNotify e" "waits_for (Sync_tick s now) h (?f e) = waits_for s h e" for h e
    by (simp_all add: waits_for_def t(4,5))
  then show ?thesis using I(2-5) t(1-3) by (intro fetch_invI [OF d]) (auto simp del: if_split)
qed

text \<open>Both invariants hold of the synchronizer in operation.\<close>

lemma fetch_inv_sys:
  assumes "sync_sys E (st, asked, refused, s) (st', asked', refused', s')" and "fetch_inv s" and "reads_live st s"
  shows "fetch_inv s' \<and> reads_live st' s'"
  using assms(1)
proof cases
  case (check p e ds h status)
  then show ?thesis
    using assms(2,3) Synchronizer_Verify_cases [of E st s p e ds h]
    by (auto simp: waits_for_def intro: fetch_inv_same reads_live_same)
next
  case (cleanup e)
  then show ?thesis using assms(2,3)
    by (auto simp: Synchronizer_Cleanup_def waits_for_def intro: fetch_inv_same reads_live_same)
next
  case runs
  show ?thesis
  proof (cases "sync_work E (st, s) (st', s')")
    case True
    then show ?thesis using fetch_inv_work [OF assms(2)] reads_live_work [OF _ assms(3)] by blast
  next
    case False
    then obtain now where now: "st' = st" "s' = Sync_tick s now" using runs(3) by (auto simp: sync_step_iff)
    have "reads_live st s'" unfolding now by (rule reads_live_same [OF assms(3)]) (simp add: Sync_tick_def Let_def)
    with now fetch_inv_tick [OF assms(2)] show ?thesis by simp
  qed
next
  case (writes k v x)
  then show ?thesis using assms(2) reads_live_Write [OF assms(3), of E k v] by simp
qed

lemma fetch_inv_holds:
  assumes "(sync_sys E)\<^sup>*\<^sup>* (sync_start d name c ps) (st, asked, refused, s)"
  shows "fetch_inv s \<and> reads_live st s"
  using assms
proof (induction "(st, asked, refused, s)" arbitrary: st asked refused s rule: rtranclp_induct)
  case base
  then show ?case using fetch_inv_new [of name c ps] by (auto simp: sync_start_def reads_live_def NewSynchronizer_def)
next
  case (step y)
  obtain st1 asked1 refused1 s1 where y: "y = (st1, asked1, refused1, s1)" using prod_cases4 by blast
  from step(3) [OF y] fetch_inv_sys [OF step(2) [unfolded y]] show ?case by blast
qed

section \<open>A complete block is handed back\<close>

definition no_cleanup :: "Synchronizer \<Rightarrow> bool" where
  "no_cleanup s \<longleftrightarrow> (\<forall>e. SyncCleanUpBlockMsg e \<notin> set (interChan s))"

lemma pending_kept:
  assumes "sync_work E (st, s) (st', s')" and "no_cleanup s" and "h \<noteq> Digest0"
    and "(h, e) \<in> set (syPending s) \<or> h \<in> set (LoopBackChan s)"
  shows "no_cleanup s' \<and> ((h, e) \<in> set (syPending s') \<or> h \<in> set (LoopBackChan s'))"
  using assms(1)
proof cases
  case (inter m ms now)
  then show ?thesis using assms(2-4)
    by (cases m) (auto simp: Sync_handle_inter_def Sync_handle_SyncBlock_def no_cleanup_def Let_def split: option.split)
next
  case (waited d ds)
  then show ?thesis using assms(2-4) by (auto simp: Sync_handle_waiting_def no_cleanup_def)
qed (use assms(2-4) in \<open>auto simp: no_cleanup_def\<close>)

lemma work_store:
  assumes "sync_work E (st, s) (st', s')" and "store_inv E st"
  shows "store_inv E st' \<and> readable E st' = readable E st"
  using sync_step_store [of E "(st, s)" "(st', s')"] assms by (auto simp: sync_step_iff store_inv_NotifyRead fun_eq_iff)

lemma pending_returns:
  assumes "fetch_inv s" and "reads_live st s" and "store_inv E st" and "no_cleanup s" and "(h, e) \<in> set (syPending s)"
    and "h \<noteq> Digest0" and "\<forall>d \<in> set (peMissing e). readable E st d"
    and "(sync_work E)\<^sup>*\<^sup>* (st, s) (st', s')" and "sync_rest E (st', s')"
  shows "h \<in> set (LoopBackChan s')"
proof -
  have "fetch_inv s' \<and> reads_live st' s' \<and> store_inv E st' \<and> readable E st' = readable E st \<and> no_cleanup s' \<and>
      ((h, e) \<in> set (syPending s') \<or> h \<in> set (LoopBackChan s'))"
    using assms(8)
  proof (induction "(st', s')" arbitrary: st' s' rule: rtranclp_induct)
    case base
    then show ?case using assms(1-5) by blast
  next
    case (step y)
    obtain st1 s1 where y: "y = (st1, s1)" by fastforce
    note work = step(2) [unfolded y]
    from step(3) [OF y] fetch_inv_work [OF _ work] reads_live_work [OF work] work_store [OF work]
      pending_kept [OF work _ assms(6), of e] show ?case by simp
  qed
  moreover from this have "\<not> waits_for s' h e"
    using assms(7) sync_rest_idle [OF assms(9)] unfolding waits_for_def by fastforce
  ultimately show ?thesis using fetch_invD(5) [of s' h e] assms(6) by blast
qed

section \<open>The exchange of a missing payload\<close>

text \<open>
  The messages of the mempool channel one after the other, as the loop of \<^verbatim>\<open>Run\<close> takes them; an
  error is logged and the loop goes on.
\<close>

definition Mempool_takes :: "('a mempool_env_scheme) \<Rightarrow> Mempool \<Rightarrow> mempool_msg list \<Rightarrow> Mempool outcome" where
  "Mempool_takes E = foldo (\<lambda>m msg. bind_outcome (Mempool_dispatch E m msg) (\<lambda>(m', _). Ret m'))"

lemma Mempool_takes_simps [simp]:
  "Mempool_takes E m [] = Ret m"
  "Mempool_takes E m (msg # msgs) = bind_outcome (Mempool_dispatch E m msg) (\<lambda>(m', _). Mempool_takes E m' msgs)"
  by (simp add: Mempool_takes_def) (cases "Mempool_dispatch E m msg", auto simp: Mempool_takes_def)

text \<open>
  A block that a member has stored under its digest, that the committee of another accepts, and
  that the database takes.
\<close>

definition payload_served :: "('a mempool_env_scheme) \<Rightarrow> Store \<Rightarrow> Committee \<Rightarrow> Digest \<Rightarrow> Block \<Rightarrow> bool" where
  "payload_served E st c d b \<longleftrightarrow>
     GetBlock E st d = Inr (Some b) \<and> Block_Hash E b = d \<and> Block_Verify E c b = Ret True \<and>
     (\<forall>st'. snd (StoreBlock E st' b) = None)"

lemma HandleRequestBlock_answers:
  assumes "list_all2 (\<lambda>d b. GetBlock E (mStore m) d = Inr (Some b)) ds bs"
  shows "HandleRequestBlock E m ds a =
    (m\<lparr>mSent := mSent m @ map (\<lambda>b. MempoolSend (mCommittee m) (mName m) a (OtherBlockMsg (Some b))) bs\<rparr>, None)"
  using assms
proof (induction ds arbitrary: m bs)
  case (Cons d ds)
  then obtain b bs' where b: "bs = b # bs'" "GetBlock E (mStore m) d = Inr (Some b)"
    "list_all2 (\<lambda>d b. GetBlock E (mStore m) d = Inr (Some b)) ds bs'" by (auto simp: list_all2_Cons1)
  then show ?case using Cons.IH [of "Mempool_send m a (OtherBlockMsg (Some b))" bs'] by (simp add: Mempool_send_def)
qed simp

lemma GetBlock_not_none: "store_inv E st \<Longrightarrow> nuts_nf E \<noteq> ErrNotFoundKey \<Longrightarrow> GetBlock E st d \<noteq> Inr None"
  by (auto simp: GetBlock_def store_inv_def Store_Read_eq split: option.splits sum.splits)

lemma HandleOthorBlock_makes_readable:
  assumes inv: "mempool_inv E m" and nf: "nuts_nf E \<noteq> ErrNotFoundKey" and "\<not> queue_full m"
    and "Block_Verify E (mCommittee m) b = Ret True" and acc: "\<forall>st. snd (StoreBlock E st b) = None"
  obtains m' where "HandleOthorBlock E m (Some b) = Ret (m', None)" and "readable E (mStore m') (Block_Hash E b)"
    and "mSync m' = mSync m" and "mCommittee m' = mCommittee m" and "mParameters m' = mParameters m"
    and "card (mQueue m') \<le> Suc (card (mQueue m))" and "\<And>s. reads_live (mStore m) s \<Longrightarrow> reads_live (mStore m') s"
proof -
  have si: "store_inv E (mStore m)" using inv by (simp add: mempool_inv_def)
  obtain st where st: "StoreBlock E (mStore m) b = (st, None)" using acc by (metis prod.collapse)
  show thesis
  proof (cases "GetBlock E (mStore m) (Block_Hash E b)")
    case (Inl x)
    show thesis
    proof (rule that)
      show "HandleOthorBlock E m (Some b) = Ret (enqueue (m\<lparr>mStore := st\<rparr>) (Block_Hash E b), None)"
        using Inl st assms(3,4) by (simp add: HandleOthorBlock_def Let_def)
      show "reads_live (mStore (enqueue (m\<lparr>mStore := st\<rparr>) (Block_Hash E b))) s" if "reads_live (mStore m) s" for s
        using reads_live_Write [OF that, of E "Block_Hash E b"] st
        by (auto simp: enqueue_def StoreBlock_def split: sum.splits) (metis fst_conv)
    qed (use StoreBlock_readable [OF si st] inv in \<open>simp_all add: enqueue_def mempool_inv_def card_insert_if\<close>)
  next
    case (Inr x)
    then have "readable E (mStore m) (Block_Hash E b)"
      using GetBlock_not_none [OF si nf, of "Block_Hash E b"] by (auto simp: readable_iff GetBlock_def split: sum.splits if_splits)
    then show thesis using that [of m] Inr assms(3,4) by (simp add: HandleOthorBlock_def Let_def)
  qed
qed

lemma replies_stored:
  assumes "mempool_inv E m" and "nuts_nf E \<noteq> ErrNotFoundKey"
    and "card (mQueue m) + length bs \<le> MaxQueenSize (mParameters m)"
    and "\<forall>b \<in> set bs. Block_Verify E (mCommittee m) b = Ret True \<and> (\<forall>st. snd (StoreBlock E st b) = None)"
  shows "\<exists>m'. Mempool_takes E m (map (\<lambda>b. OtherBlockMsg (Some b)) bs) = Ret m' \<and> mempool_inv E m' \<and> mSync m' = mSync m \<and>
    (reads_live (mStore m) (mSync m) \<longrightarrow> reads_live (mStore m') (mSync m')) \<and> (\<forall>d. readable E (mStore m) d \<longrightarrow> readable E (mStore m') d) \<and> (\<forall>b \<in> set bs. readable E (mStore m') (Block_Hash E b))"
  using assms(1,3,4)
proof (induction bs arbitrary: m)
  case (Cons b bs)
  have "\<not> queue_full m" using Cons.prems(2) by (simp add: queue_full_def)
  moreover have "Block_Verify E (mCommittee m) b = Ret True" "\<forall>st. snd (StoreBlock E st b) = None" using Cons.prems(3) by simp_all
  ultimately obtain m1 where m1: "HandleOthorBlock E m (Some b) = Ret (m1, None)" "readable E (mStore m1) (Block_Hash E b)"
    "mSync m1 = mSync m" "mCommittee m1 = mCommittee m" "mParameters m1 = mParameters m" "card (mQueue m1) \<le> Suc (card (mQueue m))"
    "\<And>s. reads_live (mStore m) s \<Longrightarrow> reads_live (mStore m1) s"
    using HandleOthorBlock_makes_readable [OF Cons.prems(1) assms(2)] by metis
  then have d: "Mempool_dispatch E m (OtherBlockMsg (Some b)) = Ret (m1, None)" by (simp add: Mempool_dispatch_def)
  have g: "mempool_inv E m1" "\<And>d. readable E (mStore m) d \<Longrightarrow> readable E (mStore m1) d"
    using Mempool_dispatch_grows [OF d] Cons.prems(1) by (simp_all add: mempool_grows_def)
  from Cons.IH [OF g(1)] Cons.prems(2,3) m1(4-6) obtain m2 where
    m2: "Mempool_takes E m1 (map (\<lambda>b. OtherBlockMsg (Some b)) bs) = Ret m2" "mempool_inv E m2" "mSync m2 = mSync m1" "reads_live (mStore m1) (mSync m1) \<longrightarrow> reads_live (mStore m2) (mSync m2)"
    "\<And>d. readable E (mStore m1) d \<Longrightarrow> readable E (mStore m2) d" "\<forall>b \<in> set bs. readable E (mStore m2) (Block_Hash E b)"
    by auto
  then show ?case using d m1(2,3,7) g(2) by (intro exI [of _ m2]) simp
qed auto

text \<open>
  C29. A missing payload is fetched. A member waits for payloads of a block; another member that has
  them all takes the request for them. Then it answers every digest in order and without an error, to the
  member that asked; that member stores every answer without an error, when its queue has room; and
  from there its synchronizer comes to rest whatever the order of its goroutines, every time with the
  waiting block handed back to the core. The database takes the blocks, no clean-up is waiting in the
  synchronizer (the program asks for none), and the database's error for a missing key is not the
  store's own \<^verbatim>\<open>ErrNotFoundKey\<close>, which \<^verbatim>\<open>GetBlock\<close> takes for a block that is there.
\<close>

theorem payload_fetched:
  assumes "(sync_sys E)\<^sup>*\<^sup>* (sync_start db0 name c ps) (mStore A, asked, refused, mSync A)"
    and "mempool_inv E A" and "nuts_nf E \<noteq> ErrNotFoundKey"
    and "(h, e) \<in> set (syPending (mSync A))" and "h \<noteq> Digest0" and "no_cleanup (mSync A)"
    and "card (mQueue A) + length (peMissing e) \<le> MaxQueenSize (mParameters A)"
    and "\<forall>d \<in> set (peMissing e). \<exists>b. payload_served E (mStore B) (mCommittee A) d b"
  shows "\<exists>B' A' bs. Mempool_dispatch E B (RequestBlockMsg t (peMissing e) (mName A)) = Ret (B', None) \<and>
    mSent B' = mSent B @ map (\<lambda>b. MempoolSend (mCommittee B) (mName B) (mName A) (OtherBlockMsg (Some b))) bs \<and>
    Mempool_takes E A (map (\<lambda>b. OtherBlockMsg (Some b)) bs) = Ret A' \<and>
    (\<exists>y. (sync_work E)\<^sup>*\<^sup>* (mStore A', mSync A') y \<and> sync_rest E y) \<and>
    (\<forall>st' s'. (sync_work E)\<^sup>*\<^sup>* (mStore A', mSync A') (st', s') \<and> sync_rest E (st', s') \<longrightarrow> h \<in> set (LoopBackChan s'))"
proof -
  obtain f where f: "\<And>d. d \<in> set (peMissing e) \<Longrightarrow> payload_served E (mStore B) (mCommittee A) d (f d)"
    using assms(8) by metis
  let ?bs = "map f (peMissing e)"
  have "list_all2 (\<lambda>d b. GetBlock E (mStore B) d = Inr (Some b)) (peMissing e) ?bs"
    using f by (auto simp: list_all2_conv_all_nth payload_served_def)
  note answers = HandleRequestBlock_answers [OF this, of "mName A"]
  have ok: "\<forall>b \<in> set ?bs. Block_Verify E (mCommittee A) b = Ret True \<and> (\<forall>st. snd (StoreBlock E st b) = None)"
    and hash: "\<And>d. d \<in> set (peMissing e) \<Longrightarrow> Block_Hash E (f d) = d"
    using f by (auto simp: payload_served_def)
  have inv: "fetch_inv (mSync A)" "reads_live (mStore A) (mSync A)" using fetch_inv_holds [OF assms(1)] by simp_all
  from replies_stored [OF assms(2,3) _ ok] assms(7) inv(2) obtain A' where
    A': "Mempool_takes E A (map (\<lambda>b. OtherBlockMsg (Some b)) ?bs) = Ret A'" "mempool_inv E A'" "mSync A' = mSync A"
    "reads_live (mStore A') (mSync A)" "\<forall>b \<in> set ?bs. readable E (mStore A') (Block_Hash E b)" by auto
  have "store_inv E (mStore A')" using A'(2) by (simp add: mempool_inv_def)
  note returns = pending_returns [OF inv(1) A'(4) this assms(6,4,5)]
  have "\<forall>d \<in> set (peMissing e). readable E (mStore A') d" using A'(5) hash by simp
  with returns have "\<forall>st' s'. (sync_work E)\<^sup>*\<^sup>* (mStore A', mSync A') (st', s') \<and> sync_rest E (st', s') \<longrightarrow> h \<in> set (LoopBackChan s')"
    unfolding A'(3) by blast
  then show ?thesis using answers A'(1) sync_comes_to_rest [of E "(mStore A', mSync A')"]
    by (intro exI [of _ "fst (HandleRequestBlock E B (peMissing e) (mName A))"] exI [of _ A'] exI [of _ ?bs])
      (simp add: Mempool_dispatch_def del: map_map)
qed

text \<open>Node 0 waits for the payload that node 1 has.\<close>

definition sample_asker :: Mempool where
  "sample_asker = sample_mempool\<lparr>mSync := Sync_handle_SyncBlock (NewSynchronizer 0 committee4 DefaultParameters) 0
     [Block_Hash sample_env sample_block] 1 0 [9]\<rparr>"

definition sample_holder :: Mempool where
  "sample_holder = (NewMempool 1 committee4 DefaultParameters sample_sig (fst (StoreBlock sample_env sample_store sample_block)) sample_pool)"

lemma sample_asker_reach:
  "(sync_sys sample_env)\<^sup>*\<^sup>* (sync_start NewDefaultNutsDB 0 committee4 DefaultParameters)
     (mStore sample_asker, {([9], [Block_Hash sample_env sample_block])}, {}, mSync sample_asker)"
proof -
  let ?d = "Block_Hash sample_env sample_block" and ?s0 = "NewSynchronizer 0 committee4 DefaultParameters"
  let ?m = "SyncBlockMsg [?d] 1 0 [9]"
  have "isl (Store_Read sample_env sample_store ?d)" by code_simp
  then have 1: "sync_sys sample_env (sample_store, {}, {}, ?s0) (sample_store, {([9], [?d])}, {}, ?s0\<lparr>interChan := [?m]\<rparr>)"
    by (intro sync_sys.check [of _ _ _ 1 0]) (simp add: Synchronizer_Verify_def missing_payloads_def Let_def NewSynchronizer_def)
  have s: "?s0\<lparr>interChan := []\<rparr> = ?s0" by (simp add: NewSynchronizer_def)
  have "sync_step sample_env (sample_store, ?s0\<lparr>interChan := [?m]\<rparr>) (sample_store, mSync sample_asker)"
    using sync_step.inter [of "?s0\<lparr>interChan := [?m]\<rparr>" ?m "[]" sample_env sample_store 0] s
    by (simp add: Sync_handle_inter_def sample_asker_def)
  then have "sync_sys sample_env (sample_store, {([9], [?d])}, {}, ?s0\<lparr>interChan := [?m]\<rparr>)
      (sample_store, {([9], [?d])}, {}, mSync sample_asker)"
    by (rule sync_sys.runs)
  then show ?thesis using 1 by (simp add: sync_start_def sample_asker_def sample_mempool_def NewMempool_def)
qed

lemma sample_served:
  "payload_served sample_env (mStore sample_holder) (mCommittee sample_asker) (Block_Hash sample_env sample_block) sample_block"
proof -
  have "GetBlock sample_env (mStore sample_holder) (Block_Hash sample_env sample_block) = Inr (Some sample_block)"
    and "Block_Verify sample_env (mCommittee sample_asker) sample_block = Ret True" by code_simp+
  moreover have "snd (StoreBlock sample_env st sample_block) = None" for st
    by (simp add: StoreBlock_def Block_Encode_def Store_Write_err NutsDB_Put_def sample_env_def sample_store_env_def)
  ultimately show ?thesis by (simp add: payload_served_def)
qed

theorem payload_fetched_witness:
  "\<exists>B' A' bs st' s'. Mempool_dispatch sample_env sample_holder (RequestBlockMsg 0 [Block_Hash sample_env sample_block] 0) = Ret (B', None) \<and>
    Mempool_takes sample_env sample_asker (map (\<lambda>b. OtherBlockMsg (Some b)) bs) = Ret A' \<and> (sync_work sample_env)\<^sup>*\<^sup>* (mStore A', mSync A') (st', s') \<and> [9] \<in> set (LoopBackChan s')"
proof -
  let ?d = "Block_Hash sample_env sample_block"
  let ?e = "\<lparr>peEpoch = 0, peNotify = 0, peLastSend = 0, peMissing = [?d], peAuthor = 1\<rparr>"
  have s: "syPending (mSync sample_asker) = [([9], ?e)]" "interChan (mSync sample_asker) = []"
    by (simp_all add: sample_asker_def Sync_handle_SyncBlock_def NewSynchronizer_def Sync_send_def Let_def uint64_def)
  have inv: "mempool_inv sample_env sample_asker" using sample_mempool_inv by (simp add: sample_asker_def)
  have nf: "nuts_nf sample_env \<noteq> ErrNotFoundKey" by (simp add: sample_env_def sample_store_env_def)
  have h: "([9], ?e) \<in> set (syPending (mSync sample_asker))" "no_cleanup (mSync sample_asker)"
    using s by (simp_all add: no_cleanup_def)
  have h0: "[9] \<noteq> Digest0" by (auto simp: Digest0_def HashSize_def dest: arg_cong [where f = length])
  have room: "card (mQueue sample_asker) + length (peMissing ?e) \<le> MaxQueenSize (mParameters sample_asker)" and n: "mName sample_asker = 0"
    by (simp_all add: sample_asker_def sample_mempool_def NewMempool_def DefaultParameters_def)
  have served: "\<forall>d \<in> set (peMissing ?e). \<exists>b. payload_served sample_env (mStore sample_holder) (mCommittee sample_asker) d b"
    using sample_served by auto
  from payload_fetched [OF sample_asker_reach inv nf h(1) h0 h(2) room served, of 0] n show ?thesis by fastforce
qed

end
