(* ===== verification/Spec2Isabelle.thy ===== *)
theory Spec2Isabelle
  imports Deploy Consistency System Equivocation Coin Signing Fetching
begin

text \<open>
  A verification library for the Go implementation of the sMVBA protocol (asynchronous
  multi-valued Byzantine agreement with a mempool) in the repository's \<^verbatim>\<open>src/\<close>.

  \<^bold>\<open>The program.\<close> A node runs a consensus core (\<^verbatim>\<open>core/smvba/consensus\<close>), a mempool
  (\<^verbatim>\<open>mempool\<close>), a transaction pool (\<^verbatim>\<open>pool\<close>), a key-value store (\<^verbatim>\<open>store\<close>) and a network layer
  (\<^verbatim>\<open>network\<close>, \<^verbatim>\<open>core/transmitor.go\<close>, \<^verbatim>\<open>mempool/transmit.go\<close>). In each epoch every node
  broadcasts a block in two phases (\<^verbatim>\<open>spb.go\<close>); finished broadcasts are announced with Finish,
  \<open>2 f + 1\<close> of them start Done and the shares of a common coin, which elects a leader; the nodes
  vote on the leader's block with prevotes and final votes, and either halt the epoch on the
  block, which is then committed in epoch order, or go on to the next round.

  \<^bold>\<open>Theories\<close>, in the order of the code's dependencies:

  \<^item> \<open>Prelude\<close>: outcomes (\<open>Ret\<close>, \<open>Panic\<close>), Go's errors (\<^verbatim>\<open>core/error.go\<close>), nested maps, 64-bit
    wrap-around, decimal numbers.
  \<^item> \<open>Crypto\<close> (\<^verbatim>\<open>crypto/crypto.go\<close>): hasher, signature service as a function of the request,
    verification, key encoding; \<open>Signing\<close>: the same service as the goroutines and channels it is
    made of, with any number of callers, which refines that function.
  \<^item> \<open>Logger\<close> (\<^verbatim>\<open>logger\<close>): the four logs, their levels and outputs.
  \<^item> \<open>Core_Config\<close> (\<^verbatim>\<open>core/config.go\<close>): parameters, committee, thresholds; locale
    \<open>byzantine_quorums\<close>, the quorum contract, interpreted on the thresholds.
  \<^item> \<open>Pool\<close> (\<^verbatim>\<open>pool\<close>): the transaction ring buffer; locale \<open>batcher\<close>.
  \<^item> \<open>Store\<close> (\<^verbatim>\<open>store\<close>): the serving goroutine and its requests; locales \<open>kv_store\<close> (reads after
    writes) and \<open>block_store\<close> (encoded blocks under their hash), the latter interpreted for the
    mempool's and for the consensus blocks.
  \<^item> \<open>Network\<close>: sender, codec, connection handler, address choice and forwarding of the
    transmitters; \<open>Transport\<close>: the goroutines of a whole network of them, with dials, writes and
    reads that may fail; locale \<open>forwarding\<close>, what a transmitter does with a message of its own
    and of the other module, interpreted for the two transmitters.
  \<^item> \<open>Mempool_Message\<close>, \<open>Messages\<close>: the messages of both modules with constructors, hashes and
    checks; locale \<open>signed_message\<close>, interpreted for every signed type.
  \<^item> \<open>Aggregator\<close> (\<^verbatim>\<open>aggreator.go\<close>): the counters; locales \<open>vote_counter\<close> and
    \<open>threshold_counter\<close>, interpreted for each of them.
  \<^item> \<open>Synchronizer\<close> and \<open>Mempool\<close> (\<^verbatim>\<open>mempool/synchronizer.go\<close>, \<^verbatim>\<open>mempool/mempool.go\<close>): fetching
    of missing payloads as interleaved steps on the store and the synchronizer (a waiter hangs on a
    blocking read and goes on when the store answers it), every handler of the mempool; locale
    \<open>payload_service\<close>, what the core relies on; \<open>Fetching\<close>: the exchange between a member that
    lacks payloads and one that has them, up to the loop-back of the waiting block.
  \<^item> \<open>Leader_Election\<close> (\<^verbatim>\<open>elector.go\<close>), \<open>Commit_Order\<close> (\<^verbatim>\<open>commitor.go\<close>), \<open>Broadcast\<close> (\<^verbatim>\<open>spb.go\<close>,
    as interleaved program points).
  \<^item> \<open>Core\<close> (\<^verbatim>\<open>core.go\<close>): the node's state and all handlers; \<open>Node\<close>: the main loop interleaved with
    goroutines, mempool and synchronizer in an arbitrary environment, and locales that reduce an
    invariant to the elementary effects of the handlers: \<open>core_frame\<close> (counters and flags
    untouched), \<open>core_keeps\<close> (any handler), \<open>core_closed\<close> (any message may arrive), and
    \<open>core_reduced\<close> and \<open>core_invariant\<close>, sublocales of the last two; \<open>Invariants\<close>: the
    interpretations for commits, epochs, signatures, flags, the mempool and committed payloads.
  \<^item> \<open>Progress\<close>: what a quorum of votes has set off, which final votes the prevotes cause, and
    that the goroutines come to an end; \<open>Executions\<close>: runs with a log of the messages received
    and the verdicts reached; \<open>Scenario\<close>: a concrete node and short runs of it; \<open>Cluster\<close>: several
    nodes and a network that may do anything but forge messages of correct members (coin shares
    apart, which are not bound to their author); \<open>Disagreement\<close> and \<open>Equivocation\<close>: runs of such a
    cluster in which two correct members commit different blocks, and in which a correct member
    proposes twice in round 0;
    \<open>System\<close>: the nodes of \<open>Node\<close> over the transport of \<open>Transport\<close>, with faulty members that send
    any message that is not forged, which refines \<open>Cluster\<close>.
  \<^item> \<open>Files\<close>, \<open>Threshold_Keys\<close>, \<open>Config\<close> (\<^verbatim>\<open>config/config.go\<close> and the threshold keys of
    \<^verbatim>\<open>crypto.go\<close>): JSON values and files, marshalled keys, key, committee and parameter files;
    \<open>Coin\<close>: the leaders elected by nodes whose threshold keys come from one generation.
  \<^item> \<open>Boot\<close> (\<^verbatim>\<open>node/node.go\<close>, \<^verbatim>\<open>consensus.go\<close>, \<^verbatim>\<open>main.go\<close>): the start of a node as a process that
    binds its two ports and waits for the other members, whose last step is the initial state of
    \<open>Node\<close>; processes on one machine share its ports; \<open>Deploy\<close> (\<^verbatim>\<open>benchmark/benchmark\<close>): a local
    cluster from its set-up to running nodes; \<open>Consistency\<close> (\<^verbatim>\<open>benchmark/consistency.py\<close>): the check of the
    commit logs.
  \<^item> This theory: the properties of a node, of two nodes and of a cluster.

  \<^bold>\<open>Conventions.\<close> A handler maps a state record to the new state and an optional error; a
  run-time panic is \<open>Panic\<close>. Integers are \<open>int\<close>, with the wrap-around of \<^verbatim>\<open>int64\<close> written as \<open>i64\<close>
  where the code can reach it. A channel is the list of what was sent and not yet received, a
  goroutine is a program point in a list, a step of which may be taken at any time. Third-party
  code (SHA-256, ed25519, the threshold scheme, nutsdb, gob, the iteration order of maps) is a
  field of an environment record; what is relied on is a named hypothesis (\<open>ed25519_ok\<close>,
  \<open>nutsdb_ok\<close>, \<open>gob_ok\<close>, \<open>gob_Block_ok\<close>, \<open>gob_CB_ok\<close>, \<open>map_order_ok\<close>, \<open>kyber_ok\<close>, \<open>tbls_ok\<close>,
  \<open>text_ok\<close>, \<open>range_ok\<close>, \<open>ports_ok\<close>); what the operating system allows is \<open>machine_ok\<close>;
  that the network of a cluster does not forge messages of correct members is \<open>genuine\<close>.
  Recursion is structural or has a termination proof. A wait that may not end is a step that may
  not become possible. Fuel is used in \<open>f64_nat\<close> only, whose 1024 doublings reach the largest
  \<^verbatim>\<open>float64\<close>.

  In \<open>Transport\<close> an endpoint is named by its address and a connection is the list of the values
  written and not yet read. The record of what was sent, and the endpoint a received message came
  from, are there for the statements only: no goroutine looks at them.

  \<^bold>\<open>What is shown.\<close> Agreement of final votes, for counters, for the executions of two nodes and
  in a cluster with faulty members, and of the elected leader, the quorum facts they rest on, and
  exact specifications of all counters; for a cluster that correct members do not equivocate; for
  a single node in any environment: no panic in processing the leader, signed and attributable
  messages, commits in epoch order that are never retracted and whose payloads are stored, final
  votes that follow from the prevotes, Done, coin share and first-phase proposals at most once per
  round, the silence after a halt and the effect of a halt, the phase that follows a quorum, and the end of
  all goroutines; for the mempool its bound, the availability of what it hands out and accepts,
  that a block is looped back with all its payloads unless the database refused one, and that a payload some other member has is fetched; for pool and
  store that nothing is lost or reordered; for the transport that without failures it comes to rest
  with everything delivered in order and once, and that with failures a channel still gets a
  subsequence of what was sent to it; for the nodes over the transport that they refine the cluster,
  so that its safety properties hold of them, and that what a correct member sends reaches the
  main loops of the others; for the signing service that every caller gets its own signature; for the start that generated
  keys load and that a local cluster comes up with matching keys in every interleaving; for the consistency
  check that its verdict is exact. Counterexample theorems record where the code falls short:
  \<open>commits_may_differ\<close>, \<open>second_proposal\<close>, \<open>loopback_incomplete\<close>, \<open>prevote_no_then_yes\<close>, \<open>double_vote\<close>, \<open>lost_wakeup\<close>, \<open>repeated_votes_finish\<close>,
  \<open>done_digest_collision\<close>, \<open>halt_digest_ignores_round\<close>.

  \<^bold>\<open>Not modelled:\<close> the bytes on sockets and in files, parsing of flags (the \<^verbatim>\<open>cobra\<close> package),
  log lines other than commit reports, time (a tick may happen at any time), the capacity of
  channels, the accept loop of the receiver (every connection has its handler from the start),
  values on a connection that gob rejects in the midst of others (they end the handler, which is
  the failure of a read), the panic of gob on a nil pointer (a coin share that could not be signed
  is sent as nil) and of \<^verbatim>\<open>ed25519.Sign\<close> on a private key of the wrong length, the wrap-around of
  the vote count of a broadcast, and the parts of the benchmark that manage machines, run processes and
  parse results. A node configured as faulty takes no part in the protocol; the model lets its main
  loop run, which only adds behaviours. No other program takes the ports of a local cluster while
  it starts.
\<close>

section \<open>The node in any environment\<close>

text \<open>
  C6. In every reachable state, whatever messages arrived and however the goroutines interleave,
  processing the leader of a round does not panic: a locked broadcast instance has its block
  hash. A goroutine on a broadcast instance can only panic on a first-phase proposal without a
  block.
\<close>

theorem leader_never_panics:
  assumes "core_reachable E name cm ps sg st txs c"
  shows "processLeader E c e r \<noteq> Panic x \<and>
    (i < length (Tasks c) \<and> core_task E c i = Panic y \<longrightarrow>
      (\<exists>k p. Tasks c ! i = (k, PStart p) \<and> pPhase p = SPB_ONE_PHASE \<and> pB p = None))"
proof -
  note safe = reachable_broadcasts_safe [OF assms]
  from processLeader_no_panic [OF safe, of E e r x] core_task_panics [OF safe, of i E y]
  show ?thesis by blast
qed

theorem leader_never_panics_witness:
  "processLeader sample_env sample_node 0 0 \<noteq> Panic ''block hash is nil''"
  using leader_never_panics [OF sample_node_reachable, of 0 0 "''block hash is nil''" 0 "[]"]
  by (rule conjunct1)

text \<open>
  C9. Every message a node hands to the network names the node as its author and passes the
  signature check of every node of the committee, if the committee lists the node's key (a nil
  coin share, left by a failed threshold signature, excepted).
\<close>

theorem sent_messages_verify:
  assumes "core_reachable E name cm ps sg st txs c"
    and "ed25519_ok E (Prikey (PriKey sg)) (Pubkey (Committee_Name cm name))"
    and "nm \<in> set (Sent c)" and "Msg nm \<noteq> MElectShare None"
  shows "message_author (Msg nm) = name \<and> message_Verify E cm (Msg nm) = Ret True"
proof -
  have "sent_own E c" by (rule signed.reachable_keep [OF assms(1)]) (simp_all add: sent_own_def NewCore_def)
  moreover have "cName c = name \<and> cSigService c = sg \<and> cCommittee c = cm \<and> aCommittee (cAggreator c) = cm"
    by (rule identity.reachable_keep [OF assms(1)]) (simp_all add: NewCore_def NewAggreator_def)
  ultimately have "authentic E sg (Msg nm)" "message_author (Msg nm) = name"
    using assms(3,4) by (auto simp: sent_own_def own_def)
  with authentic_verifies [of E sg cm "Msg nm"] assms(2,4) show ?thesis by simp
qed

theorem sent_messages_verify_witness:
  "message_author (Msg (hd (Sent sample_node))) = 0 \<and>
   message_Verify sample_env committee4 (Msg (hd (Sent sample_node))) = Ret True"
  by (rule sent_messages_verify [OF sample_node_reachable sample_env_ok(5)]) (simp_all add: Transmitor_Send_def)

text \<open>
  C10. In every reachable state the blocks committed so far are of the epochs \<open>0, 1, 2, \<dots>\<close>, one
  each and in this order (as 64-bit integers).
\<close>

theorem commits_in_epoch_order:
  assumes "core_reachable E name cm ps sg st txs c"
  shows "map cbEpoch (commitCh (cCommitor c)) = map (i64 \<circ> int) [0..<length (commitCh (cCommitor c))]"
proof -
  have "order_inv (cCommitor c)"
    by (rule order.reachable_keep [OF assms]) (simp_all add: order_inv_def NewCore_def NewCommittor_def i64_def)
  then show ?thesis by (simp add: order_inv_def)
qed

theorem commits_in_epoch_order_witness:
  "map cbEpoch (commitCh (cCommitor sample_node)) =
   map (i64 \<circ> int) [0..<length (commitCh (cCommitor sample_node))]"
  by (rule commits_in_epoch_order [OF sample_node_reachable])

text \<open>
  C11. Nothing a node has decided is taken back: over any further steps the commit log is only
  extended, the epoch does not decrease, and a halted epoch stays halted.
\<close>

theorem decisions_are_final:
  assumes "(core_step E)\<^sup>*\<^sup>* c c'"
  shows "prefix (commitCh (cCommitor c)) (commitCh (cCommitor c')) \<and> Epoch c \<le> Epoch c' \<and>
    HaltFlags c \<subseteq> HaltFlags c'"
  using commits.steps_keep [OF assms, of "commitCh (cCommitor c)"]
    growing.steps_keep [OF assms, of "Epoch c" "HaltFlags c"] by simp

theorem decisions_are_final_witness:
  "prefix (commitCh (cCommitor sample_node)) (commitCh (cCommitor (core_self sample_node (MElectShare None)))) \<and>
   Epoch sample_node \<le> Epoch (core_self sample_node (MElectShare None)) \<and>
   HaltFlags sample_node \<subseteq> HaltFlags (core_self sample_node (MElectShare None))"
  by (rule decisions_are_final [of sample_env, OF r_into_rtranclp]) (rule core_step.internal [OF core_local.network])

text \<open>
  C14. A node sends its Done message and its coin share for an epoch and round at most once; it
  has sent the Done message exactly when its flag for the round is set.
\<close>

theorem done_and_share_once:
  assumes "core_reachable E name cm ps sg st txs c"
  shows "count (done_of e r) (messages c) = (if get2 (DoneFlags c) e r = None then 0 else 1) \<and>
    count (share_of e r) (messages c) \<le> 1"
proof -
  from reachable_done_inv [OF assms] have "count (done_of e r) (messages c) = flag_count (DoneFlags c) e r"
    "count (share_of e r) (messages c) \<le> flag_count (DoneFlags c) e r"
    by (simp_all add: done_inv_def done_ok_def)
  then show ?thesis by (simp add: flag_count_def split: if_splits)
qed

theorem done_and_share_once_witness:
  "count (done_of 0 0) (messages sample_node) = (if get2 (DoneFlags sample_node) 0 0 = None then 0 else 1) \<and>
   count (share_of 0 0) (messages sample_node) \<le> 1"
  by (rule done_and_share_once [OF sample_node_reachable])

text \<open>
  C15. A node makes at most one first-phase proposal for an epoch and round, so it never
  proposes two blocks in the same round, if the rounds it has counted final votes for are 64-bit
  integers and, for round 0, it has counted fewer than \<open>2 f + 1\<close> final votes for round -1. (Without
  the last condition it is false, as \<open>Equivocation\<close> shows.)
\<close>

theorem one_proposal_per_round:
  assumes "core_reachable E name cm ps sg st txs c"
    and "rounds_ok (finvoteAggreator (cAggreator c))"
    and "r \<noteq> 0 \<or> heard_finvotes (finvoteAggreator (cAggreator c)) e (- 1) < hi cm"
  shows "count (proposal_of e r) (messages c) \<le> 1"
  by (rule reachable_proposal_count [OF assms])

theorem one_proposal_per_round_witness: "count (proposal_of 0 0) (messages sample_node) \<le> 1"
  by (rule one_proposal_per_round [OF sample_node_reachable])
    (simp_all add: NewAggreator_def rounds_ok_def heard_finvotes_def counter_at_def NewFinVoteAggreator_def hi_def)

text \<open>
  C8. The final votes of a node follow from the prevotes it has counted. Without a YES prevote
  it votes NO, once, as soon as \<open>2 f + 1\<close> NO prevotes were counted, and not before; with a YES
  prevote it has voted YES, once, and voted NO before that only if \<open>2 f + 1\<close> NO prevotes came first.
\<close>

theorem final_votes_of_round:
  assumes "core_reachable E name cm ps sg st txs c"
  shows "0 \<le> pvaYesNums (heard_prevotes (cAggreator c) e r) \<and>
    final_flags e r (messages c) \<in>
      (if pvaYesNums (heard_prevotes (cAggreator c) e r) = 0 then
         if HightThreshold cm \<le> pvaNoNums (heard_prevotes (cAggreator c) e r) then {[VOTE_FLAG_NO]} else {[]}
       else if HightThreshold cm \<le> pvaNoNums (heard_prevotes (cAggreator c) e r)
       then {[VOTE_FLAG_YES], [VOTE_FLAG_NO, VOTE_FLAG_YES]} else {[VOTE_FLAG_YES]})"
  using reachable_finals [OF assms, of e r] reachable_committee [OF assms]
  by (auto simp: votes_match_def prevote_inv_def split: if_splits)

theorem final_votes_of_round_witness:
  "final_flags 0 0 (messages sample_prevoted) = [VOTE_FLAG_YES]"
  using final_votes_of_round [OF sample_prevoted_reachable, of 0 0] by (simp add: sample_prevoted_heard)

text \<open>
  C19. Once a node has halted an epoch, every message of that epoch other than a proposal leaves
  the node as it is, in every later state (the last 64-bit epoch, whose successor wraps around,
  excepted).
\<close>

theorem halted_epoch_ignored:
  assumes "core_reachable E name cm ps sg st txs c"
    and "message_epoch m \<in> HaltFlags c" and "message_epoch m < 2 ^ 63 - 1"
    and "\<forall>p. m \<noteq> MProposal p" and "Core_dispatch E c m = Ret (c', x)"
  shows "c' = c"
proof -
  have "epoch_inv c" by (rule epochs.reachable_keep [OF assms(1)]) (simp_all add: epoch_inv_def NewCore_def)
  with assms(2,3) have "messgaeFilter c (message_epoch m)" by (auto simp: epoch_inv_def messgaeFilter_def)
  from dispatch_filtered [OF this assms(4,5)] show ?thesis .
qed

theorem halted_epoch_ignored_witness:
  "0 \<in> HaltFlags sample_halted \<and> Core_dispatch sample_env sample_halted (MHalt sample_halt) = Ret (sample_halted, None)"
proof -
  have v: "message_Verify sample_env (cCommittee sample_halted) (MHalt sample_halt) = Ret True"
    using identity.reachable_keep [OF sample_halted_reachable, of 0 sample_sig committee4] sample_halt_verifies
    by (simp add: NewCore_def NewAggreator_def)
  have "0 \<in> HaltFlags sample_halted" by (simp add: sample_halts(2))
  moreover obtain c' where d: "Core_dispatch sample_env sample_halted (MHalt sample_halt) = Ret (c', None)"
    by (simp add: Core_dispatch_def v handleHalt_def sample_halts(2) del: message_Verify.simps)
  moreover have "c' = sample_halted"
    by (rule halted_epoch_ignored [OF sample_halted_reachable _ _ _ d]) (simp_all add: sample_halts(2))
  ultimately show ?thesis using d by simp
qed

text \<open>
  C17. Enough votes set off the next phase. Over any execution of a node that is not past epoch
  \<open>e\<close>, if its main loop has taken checked Finish messages of \<open>2 f + 1\<close> members for a round of
  \<open>e\<close>, or checked Done messages of \<open>f + 1\<close>, the node has sent its own Done message, exactly once;
  and if the Done messages are of \<open>2 f + 1\<close> members (and the two thresholds differ), the round is
  marked ready for its leader.
\<close>

theorem quorum_sets_off_next_phase:
  assumes "core_log E (core_init E name cm ps sg st txs) ms ds c" and "Epoch c \<le> e"
    and "hi cm \<le> card (\<Union>m \<in> set ms. finishers E cm e r m) \<or> lo cm \<le> card (\<Union>m \<in> set ms. doners E cm e r m)"
  shows "count (done_of e r) (messages c) = 1 \<and>
    (lo cm = hi cm \<or> card (\<Union>m \<in> set ms. doners E cm e r m) < hi cm \<or> get2 (ReadyFlags c) e r = Some ())"
proof -
  have reach: "core_reachable E name cm ps sg st txs c"
    using assms(1) core_log_iff unfolding core_reachable_def by blast
  have "cCommittee c' = cm" if "(core_step E)\<^sup>*\<^sup>* (core_init E name cm ps sg st txs) c'" for c'
    using reachable_committee [of E name cm ps sg st txs c'] that by (simp add: core_reachable_def)
  from log_heard [OF assms(1,2) this, of r]
  have sub: "(\<Union>m \<in> set ms. finishers E cm e r m) \<subseteq> heard_finishes (cAggreator c) e r"
    "(\<Union>m \<in> set ms. doners E cm e r m) \<subseteq> heard_dones (cAggreator c) e r" by (simp_all add: has_heard_def)
  have fin: "finite (heard_finishes (cAggreator c) e r)" "finite (heard_dones (cAggreator c) e r)"
    by (rule reachable_heard_finite [OF reach])+
  note le = card_mono [OF fin(1) sub(1)] card_mono [OF fin(2) sub(2)]
  have cm: "aCommittee (cAggreator c) = cm" using reachable_committee [OF reach] by simp
  have "hi cm \<le> card (heard_finishes (cAggreator c) e r) \<or> lo cm \<le> card (heard_dones (cAggreator c) e r)"
    using assms(3) le by linarith
  from counted_quorum [OF reach cm this] le(2) show ?thesis by (auto intro: le_less_trans)
qed

theorem quorum_sets_off_next_phase_witness:
  "count (done_of 0 0) (messages (sample_finishes [0, 1, 2])) = 1"
  using quorum_sets_off_next_phase [OF sample_finishes_log(1) [unfolded sample_node_init], of 0 0]
    sample_finish_verifies [of 0] sample_finish_verifies [of 1] sample_finish_verifies [of 2]
  by (simp add: sample_finishes_log(2) hi_def del: message_Verify.simps)

text \<open>
  C18. The goroutines on broadcast instances come to an end: from every reachable state, run in
  any order they make finitely many steps, and they can be run until nothing is left of them but
  calls with a first-phase proposal without a block, which panic.
\<close>

theorem goroutines_terminate:
  assumes "core_reachable E name cm ps sg st txs c"
  shows "Wellfounded.accp (\<lambda>c'' c'. goroutine_step E c' c'') c \<and>
    (\<exists>c'. (goroutine_step E)\<^sup>*\<^sup>* c c' \<and> list_all (nil_block_call \<circ> snd) (Tasks c'))"
  using goroutines_accp [OF reachable_broadcasts_safe [OF assms]]
    goroutines_run_out [OF reachable_broadcasts_safe [OF assms]] by (rule conjI)

theorem goroutines_terminate_witness:
  "Wellfounded.accp (\<lambda>c'' c'. goroutine_step sample_env c' c'') sample_stored \<and>
   (\<exists>c'. (goroutine_step sample_env)\<^sup>*\<^sup>* sample_stored c' \<and> list_all (nil_block_call \<circ> snd) (Tasks c'))"
  by (rule goroutines_terminate [OF sample_stored_reachable])

section \<open>Two nodes\<close>

text \<open>
  C5. Agreement of final votes between the executions of two nodes. In a committee of \<open>3 f + 1\<close>
  members, at most \<open>f\<close> of them faulty, if the final votes of a correct member for a round that
  the two nodes receive do not contradict each other, then no node concludes NO in a round in
  which the other concludes COMMIT, whatever else they receive and however their goroutines run.
\<close>

theorem conclusions_agree:
  assumes "committee_tolerates cm F"
    and "core_log E (core_init E n1 cm ps1 sg1 st1 txs1) ms1 ds1 c1"
    and "core_log E (core_init E n2 cm ps2 sg2 st2 txs2) ms2 ds2 c2"
    and same: "\<And>v w. MFinVote v \<in> set ms1 \<Longrightarrow> MFinVote w \<in> set ms2 \<Longrightarrow> fvAuthor v = fvAuthor w \<Longrightarrow>
      fvAuthor v \<notin> F \<Longrightarrow> fvEpoch v = fvEpoch w \<Longrightarrow> fvRound v = fvRound w \<Longrightarrow> fvFlag v = fvFlag w"
    and "(e, r, ACTION_COMMIT) \<in> set ds1"
  shows "(e, r, ACTION_NO) \<notin> set ds2"
  by (rule logs_agree [OF assms(1-3) _ assms(5)]) (rule same, simp_all)

theorem conclusions_agree_witness:
  "\<exists>ms1 c1 ms2 ds2 c2. core_log sample_env sample_node ms1 [(0, 0, ACTION_COMMIT)] c1 \<and>
    core_log sample_env sample_node ms2 ds2 c2 \<and> ds2 \<noteq> [] \<and> (0, 0, ACTION_NO) \<notin> set ds2"
proof -
  have "(0, 0, ACTION_NO) \<notin> set [(0 :: int, 0 :: int, ACTION_YES)]"
    by (rule conclusions_agree [OF committee4_tolerates sample_log_commit [unfolded sample_node_init]
      sample_log_mixed [unfolded sample_node_init]]) auto
  with sample_log_commit sample_log_mixed show ?thesis by blast
qed

section \<open>Several nodes\<close>

text \<open>
  C1. Agreement in a cluster. The correct members run the code and the network delivers what it
  likes, except that it cannot forge a message of a correct member, coin shares apart. If at most \<open>f\<close> of \<open>3 f + 1\<close>
  members are faulty and no correct member has counted both \<open>2 f + 1\<close> NO prevotes and a YES
  prevote for the round, then no two correct members have concluded COMMIT and NO in the round.
\<close>

theorem cluster_agreement:
  assumes "committee_tolerates cm F"
    and "cluster_reachable E cm (members cm - F) ps sg st txs g"
    and clear: "\<And>h. h \<in> members cm - F \<Longrightarrow> pvaYesNums (heard_prevotes (cAggreator (nodes g h)) e r) = 0 \<or>
      pvaNoNums (heard_prevotes (cAggreator (nodes g h)) e r) < HightThreshold cm"
    and "a \<in> members cm - F" and "b \<in> members cm - F"
  shows "\<not> ((e, r, ACTION_COMMIT) \<in> set (concluded g a) \<and> (e, r, ACTION_NO) \<in> set (concluded g b))"
proof -
  have sent: "fvFlag v \<in> set (final_flags e r (messages (nodes g (fvAuthor v))))"
    if "n \<in> members cm - F" "MFinVote v \<in> set (taken g n)" "fvAuthor v \<in> members cm - F"
      "message_Verify E cm (MFinVote v) = Ret True" "fvEpoch v = e" "fvRound v = r" for n v
    using taken_was_sent [OF assms(2) that(1,2)] in_final_flags [of v] that(3-6)
    by (simp add: tracked_def del: message_Verify.simps)
  have one: "x = y" if "h \<in> members cm - F" "x \<in> set (final_flags e r (messages (nodes g h)))"
    "y \<in> set (final_flags e r (messages (nodes g h)))" for h x y
    using reachable_finals [OF cluster_node [OF assms(2)], of h e r] reachable_committee [OF cluster_node [OF assms(2)], of h]
      clear [OF that(1)] that(2,3) by (auto simp: votes_match_def prevote_inv_def split: if_splits)
  have "(e, r, ACTION_NO) \<notin> set (concluded g b)" if "(e, r, ACTION_COMMIT) \<in> set (concluded g a)"
  proof (rule logs_agree [OF assms(1) cluster_log [OF assms(2), of a] cluster_log [OF assms(2), of b] _ that])
    fix v w
    assume v: "MFinVote v \<in> set (taken g a)" and w: "MFinVote w \<in> set (taken g b)" and eq: "fvAuthor v = fvAuthor w"
      and h: "fvAuthor v \<in> members cm - F" and "message_Verify E cm (MFinVote v) = Ret True"
      "message_Verify E cm (MFinVote w) = Ret True" "fvEpoch v = e" "fvEpoch w = e" "fvRound v = r" "fvRound w = r"
    with sent [OF assms(4) v] sent [OF assms(5) w] show "fvFlag v = fvFlag w"
      by (intro one [OF h]) (simp_all del: message_Verify.simps)
  qed
  then show ?thesis by blast
qed

theorem cluster_agreement_witness:
  "\<exists>g. sample_cluster_reachable g \<and> taken g 1 \<noteq> [] \<and>
    \<not> ((0, 0, ACTION_COMMIT) \<in> set (concluded g 0) \<and> (0, 0, ACTION_NO) \<in> set (concluded g 1))"
proof -
  have H: "members committee4 - {3} = {0, 1, 2}" by auto
  obtain g where g: "sample_cluster_reachable g" "MProposal sample_first \<in> set (taken g 1)"
    "\<forall>h. cAggreator (nodes g h) = NewAggreator committee4" using sample_cluster_run by blast
  have "\<not> ((0, 0, ACTION_COMMIT) \<in> set (concluded g 0) \<and> (0, 0, ACTION_NO) \<in> set (concluded g 1))"
    by (rule cluster_agreement [OF committee4_tolerates, unfolded H, OF g(1)])
      (simp_all add: g(3) heard_prevotes_def counter_at_def NewAggreator_def NewPrevoteAggreator_def)
  with g(1,2) show ?thesis by (intro exI [of _ g]) auto
qed

text \<open>
  C12. Correct proposers do not equivocate over a network that does not deliver in the name of a
  correct member what it never sent (not even a message with the digest of another one): any two
  first-phase proposals of a correct member for the same epoch and round that correct members have
  taken and checked are the same, if the rounds the proposer has counted final votes for are 64-bit
  integers and, for round 0, it has counted fewer than \<open>2 f + 1\<close> final votes for round -1. (Without
  the last condition it is false, as \<open>Equivocation\<close> shows.)
\<close>

theorem cluster_no_equivocation:
  assumes "cluster_reachable E cm H ps sg st txs g" and "a \<in> H" and "b \<in> H" and "pAuthor p \<in> H"
    and "MProposal p \<in> set (taken g a)" and "message_Verify E cm (MProposal p) = Ret True"
    and "MProposal q \<in> set (taken g b)" and "message_Verify E cm (MProposal q) = Ret True"
    and "pAuthor q = pAuthor p" and "pPhase p = SPB_ONE_PHASE" and "pPhase q = SPB_ONE_PHASE"
    and "pEpoch q = pEpoch p" and "pRound q = pRound p"
    and "rounds_ok (finvoteAggreator (cAggreator (nodes g (pAuthor p))))"
    and "pRound p \<noteq> 0 \<or> heard_finvotes (finvoteAggreator (cAggreator (nodes g (pAuthor p)))) (pEpoch p) (- 1) < hi cm"
  shows "p = q"
proof -
  have "tracked E cm H (MProposal p)" "tracked E cm H (MProposal q)"
    using assms(4,6,8-11) by (simp_all add: tracked_def del: message_Verify.simps)
  then have "MProposal p \<in> set (messages (nodes g (pAuthor p)))" "MProposal q \<in> set (messages (nodes g (pAuthor p)))"
    using taken_was_sent [OF assms(1,2,5)] taken_was_sent [OF assms(1,3,7)] assms(9) by simp_all
  from count_one [OF reachable_proposal_count [OF cluster_node [OF assms(1)] assms(14,15)] this]
  have "MProposal p = MProposal q" using assms(10-13) by simp
  then show ?thesis by simp
qed

theorem cluster_no_equivocation_witness:
  "\<exists>g p q. sample_cluster_reachable g \<and> MProposal p \<in> set (taken g 0) \<and> MProposal q \<in> set (taken g 1) \<and> p = q"
proof -
  obtain g where g: "sample_cluster_reachable g" "MProposal sample_first \<in> set (taken g 0)"
    "MProposal sample_first \<in> set (taken g 1)" "cAggreator (nodes g 0) = NewAggreator committee4"
    using sample_cluster_run by blast
  have v: "message_Verify sample_env committee4 (MProposal sample_first) = Ret True"
    by (rule sample_verifies) (simp_all add: sample_first_def)
  have "sample_first = sample_first"
    by (rule cluster_no_equivocation [OF g(1) _ _ _ g(2) v g(3) v])
      (simp_all add: g(4) NewAggreator_def rounds_ok_def heard_finvotes_def counter_at_def NewFinVoteAggreator_def hi_def)
  with g(1-3) show ?thesis by blast
qed

section \<open>The node and its mempool\<close>

text \<open>
  C26. In every reachable state the mempool's queue holds at most \<^verbatim>\<open>MaxQueenSize\<close> digests, and
  each of them can be read from the store.
\<close>

theorem mempool_bounded:
  assumes "core_reachable E name cm ps sg st txs c" and "store_inv E st"
  shows "finite (mQueue (cMempool c)) \<and> card (mQueue (cMempool c)) \<le> MaxQueenSize (mParameters (cMempool c)) \<and>
    mQueue (cMempool c) \<subseteq> Collect (readable E (mStore (cMempool c)))"
  using reachable_mempool_inv [OF assms] by (auto simp: mempool_inv_def)

theorem mempool_bounded_witness:
  "finite (mQueue (cMempool sample_halted)) \<and>
   card (mQueue (cMempool sample_halted)) \<le> MaxQueenSize (mParameters (cMempool sample_halted)) \<and>
   mQueue (cMempool sample_halted) \<subseteq> Collect (readable sample_env (mStore (cMempool sample_halted)))"
  by (rule mempool_bounded [OF sample_halted_reachable sample_store_ok])

text \<open>
  A block a node makes out of its mempool passes the node's own verification: every payload
  it lists is in the store, so the node always votes for its own proposal.
\<close>

theorem own_block_verifies:
  assumes "core_reachable E name cm ps sg st txs c" and "store_inv E st" and "map_order_ok E"
    and "generatorBlock E c epoch = (c', b)"
  shows "\<exists>c''. verifyConsensusBlock E c' (Some b) = Ret (c'', True)"
  using generated_verifies [OF reachable_mempool_inv [OF assms(1,2)] assms(3,4)] .

theorem own_block_verifies_witness:
  "\<exists>c''. verifyConsensusBlock sample_env (fst (generatorBlock sample_env sample_halted 1))
      (Some (snd (generatorBlock sample_env sample_halted 1))) = Ret (c'', True)"
  by (rule own_block_verifies [OF sample_halted_reachable sample_store_ok sample_env_ok(4)]) (rule prod.collapse [symmetric])

text \<open>
  C3. Nothing is committed without its transactions: in every reachable state, every payload of
  every committed block can be read from the node's store, so that reporting a committed block
  does not panic and reports its payloads one by one, in order.
\<close>

theorem committed_payloads_available:
  assumes "core_reachable E name cm ps sg st txs c" and "store_inv E st"
    and "b \<in> set (commitCh (cCommitor c))"
  shows "list_all (readable E (mStore (cMempool c))) (cbPayLoads b) \<and>
    Committor_run E (mStore (cMempool c)) b =
      Ret (concat (map (block_report E (mStore (cMempool c))) (cbPayLoads b)))"
proof -
  have "payloads_stored E c"
    by (rule stored.reachable_keep [OF assms(1)])
      (simp_all add: payloads_stored_def held_def NewCore_def NewCommittor_def NewMempool_inv [OF assms(2)])
  with assms(3) have "\<forall>d \<in> set (cbPayLoads b). readable E (mStore (cMempool c)) d"
    unfolding payloads_stored_def held_def by blast
  with Committor_run_reports [OF this] show ?thesis by (simp add: list_all_iff)
qed

theorem committed_payloads_available_witness:
  "\<exists>c :: Core. commitCh (cCommitor c) = [sample_paid] \<and> cbPayLoads sample_paid = [Block_Hash sample_env sample_block] \<and>
    list_all (readable sample_env (mStore (cMempool c))) (cbPayLoads sample_paid) \<and>
    Committor_run sample_env (mStore (cMempool c)) sample_paid =
      Ret (concat (map (block_report sample_env (mStore (cMempool c))) (cbPayLoads sample_paid)))"
proof -
  obtain c where c: "sample_reachable c" "commitCh (cCommitor c) = [sample_paid]"
    using sample_paid_committed by blast
  from committed_payloads_available [OF c(1) sample_store_ok, of sample_paid] c(2) show ?thesis
    by (intro exI [of _ c]) simp
qed

text \<open>
  A consensus block that was stored without an error is read back unchanged by its hash, in
  every reachable state.
\<close>

theorem consensus_block_roundtrip:
  assumes "core_reachable E name cm ps sg st txs c" and "store_inv E st" and "gob_CB_ok E"
    and "storeConsensusBlock E c b = (c', None)"
  shows "getConsensusBlock E c' (ConsensusBlock_Hash E b) = Inr (Some b)"
  using reachable_mempool_inv [OF assms(1,2)]
  by (intro getConsensusBlock_stored [OF _ assms(3,4)]) (simp add: mempool_inv_def)

theorem consensus_block_roundtrip_witness:
  "getConsensusBlock sample_env (fst (storeConsensusBlock sample_env sample_halted sample_cb))
     (ConsensusBlock_Hash sample_env sample_cb) = Inr (Some sample_cb)"
  by (rule consensus_block_roundtrip [OF sample_halted_reachable sample_store_ok sample_env_ok(3)])
    (metis prod.collapse sample_store_cb)

text \<open>
  A block of a committee member, made by \<^verbatim>\<open>NewBlock\<close> and not known yet, is accepted by
  \<^verbatim>\<open>HandleOthorBlock\<close> of any other member whose queue has room and whose database takes it: it is
  appended to the queue, and \<^verbatim>\<open>GetBlock\<close> returns it.
\<close>

theorem received_block_queued:
  assumes "mempool_inv E m" and "gob_Block_ok E"
    and "ed25519_ok E (Prikey (PriKey sg)) (Pubkey (Committee_Name (mCommittee m) author))"
    and "NewBlock E author batch sg = Inr b"
    and "\<not> queue_full m" and "isl (GetBlock E (mStore m) (Block_Hash E b))"
    and "snd (StoreBlock E (mStore m) b) = None"
  shows "\<exists>m'. HandleOthorBlock E m (Some b) = Ret (m', None) \<and> mempool_inv E m' \<and>
    mActualQueue m' = mActualQueue m @ [Block_Hash E b] \<and> mQueue m' = insert (Block_Hash E b) (mQueue m) \<and>
    GetBlock E (mStore m') (Block_Hash E b) = Inr (Some b)"
proof -
  have "Block_Verify E (mCommittee m) b = Ret True" by (rule NewBlock_verifies [OF assms(3,4)])
  from HandleOthorBlock_new [OF assms(1,2) this assms(5-7)]
  obtain st' where h: "HandleOthorBlock E m (Some b) = Ret (enqueue (m\<lparr>mStore := st'\<rparr>) (Block_Hash E b), None)"
    and "GetBlock E st' (Block_Hash E b) = Inr (Some b)" by blast
  with HandleOthorBlock_inv [OF assms(1) h] show ?thesis by (simp add: enqueue_def)
qed

theorem received_block_queued_witness:
  "\<exists>m'. HandleOthorBlock sample_env sample_mempool (Some sample_block) = Ret (m', None) \<and> mempool_inv sample_env m' \<and>
    mActualQueue m' = mActualQueue sample_mempool @ [Block_Hash sample_env sample_block] \<and>
    mQueue m' = insert (Block_Hash sample_env sample_block) (mQueue sample_mempool) \<and>
    GetBlock sample_env (mStore m') (Block_Hash sample_env sample_block) = Inr (Some sample_block)"
  by (rule received_block_queued [OF sample_mempool_inv sample_env_ok(2) sample_key1 sample_block_made sample_room
      sample_block_new sample_block_fits])

text \<open>
  C37. A Halt message of an epoch that the node has neither halted nor passed, for a stored block
  of the next epoch to commit, with all its payloads in the store, commits this block right after what was committed before, halts the epoch and
  moves the node past it.
\<close>

theorem halt_commits:
  assumes "core_reachable E name cm ps sg st txs c"
    and "Epoch c \<le> hEpoch h" and "hEpoch h \<notin> HaltFlags c" and "hEpoch h < 2 ^ 63 - 1"
    and "getConsensusBlock E c (hBlockHash h) = Inr (Some b)"
    and "list_all (readable E (mStore (cMempool c))) (cbPayLoads b)"
    and "cbEpoch b = i64 (int (length (commitCh (cCommitor c))))"
  shows "\<exists>c'. handleHalt E c h = Ret (c', None) \<and> hEpoch h \<in> HaltFlags c' \<and> hEpoch h < Epoch c' \<and>
    prefix (commitCh (cCommitor c) @ [b]) (commitCh (cCommitor c'))"
proof -
  have inv: "epoch_inv c" by (rule epochs.reachable_keep [OF assms(1)]) (simp_all add: epoch_inv_def NewCore_def)
  have "order_inv (cCommitor c)"
    by (rule order.reachable_keep [OF assms(1)]) (simp_all add: order_inv_def NewCore_def NewCommittor_def i64_def)
  with assms(7) have "cbEpoch b = Index (cCommitor c)" by (simp add: order_inv_def)
  from Committor_Commit_appends [OF this]
  have "prefix (commitCh (cCommitor c) @ [b]) (commitCh (Committor_Commit (cCommitor c) b))" .
  moreover have "i64 (hEpoch h + 1) = hEpoch h + 1"
    using inv assms(2,4) by (intro i64_succ) (auto simp: epoch_inv_def)
  ultimately show ?thesis
    using halt_effect [OF assms(2,3,5)] assms(6) by (auto simp: list_all_iff)
qed

theorem halt_commits_witness:
  "\<exists>c'. handleHalt sample_env sample_stored sample_halt = Ret (c', None) \<and> 0 \<in> HaltFlags c' \<and> 0 < Epoch c' \<and>
    prefix [sample_cb] (commitCh (cCommitor c'))"
  using halt_commits [OF sample_stored_reachable, of sample_halt sample_cb]
  by (simp add: sample_stores(2-6) NewCommittor_def i64_def)

end
